(* ===== verification/Bolo_Prelude.thy ===== *)
theory Bolo_Prelude
  imports
    Complex_Main
    "HOL-Library.Word"
    "HOL-Library.Finite_Map"
    "HOL-Library.List_Lexorder"
    "HOL-Library.Char_ord"
    "HOL-Library.Signed_Division"
    "HOL-Library.Multiset"
begin

text \<open>
  What every component of the development shares: faults as values and their
  sequencing, the C library's character classes, decimal printing and number
  parsing, C strings and character arrays, network byte order, the walk over a
  hash table, and the record of everything the program takes from outside its
  own sources.
\<close>

unbundle bit_operations_syntax

named_theorems codec \<open>encodings of numbers and strings that are read back unchanged\<close>
named_theorems frames \<open>what an operation leaves as it was\<close>

section \<open>Faults\<close>

text \<open>
  A C function that divides by zero, follows a null pointer, reads or writes
  outside an object, converts a double that its target type cannot hold or frees
  what was not allocated has no defined result. In the model such a call returns \<open>Inl\<close> of the fault, and
  everything after it is skipped.
\<close>

datatype fault = DivByZero | NullDeref | OutOfBounds | BadConversion | BadFree

type_synonym 'a res = "fault + 'a"

definition bind_res :: "'a res \<Rightarrow> ('a \<Rightarrow> 'b res) \<Rightarrow> 'b res" where
  "bind_res m f = (case m of Inl e \<Rightarrow> Inl e | Inr x \<Rightarrow> f x)"

lemma bind_res_simps [simp]:
  "bind_res (Inl e) f = Inl e"
  "bind_res (Inr x) f = f x"
  by (simp_all add: bind_res_def)

lemma bind_res_Inr_iff: "bind_res m f = Inr y \<longleftrightarrow> (\<exists>x. m = Inr x \<and> f x = Inr y)"
  by (cases m) auto

lemma bind_res_Inl_iff: "bind_res m f = Inl e \<longleftrightarrow> m = Inl e \<or> (\<exists>x. m = Inr x \<and> f x = Inl e)"
  by (cases m) auto

lemma bind_res_cong [fundef_cong]:
  "m = m' \<Longrightarrow> (\<And>x. m' = Inr x \<Longrightarrow> f x = g x) \<Longrightarrow> bind_res m f = bind_res m' g"
  by (cases m') auto

lemma bind_res_split:
  "P (bind_res m f) \<longleftrightarrow> (\<forall>e. m = Inl e \<longrightarrow> P (Inl e)) \<and> (\<forall>x. m = Inr x \<longrightarrow> P (f x))"
  by (cases m) auto

section \<open>Machine integers\<close>

text \<open>
  The C fields keep their width. A 32-bit field is read through \<open>sint\<close> where
  its C type is signed; conversions between \<open>int32_t\<close> and \<open>uint32_t\<close> are then
  the identity on the word, as they are in C. Remainder truncates towards zero
  on signed operands, and a zero divisor (or the one overflowing quotient)
  traps.
\<close>

type_synonym byte = "8 word"

definition smod32 :: "32 word \<Rightarrow> 32 word \<Rightarrow> 32 word res" where
  "smod32 a b =
     (if b = 0 \<or> (a = 0x80000000 \<and> b = - 1) then Inl DivByZero
      else Inr (word_of_int (sint a smod sint b)))"

definition umod32 :: "32 word \<Rightarrow> 32 word \<Rightarrow> 32 word res" where
  "umod32 a b = (if b = 0 then Inl DivByZero else Inr (a mod b))"



declare of_nat_unat [simp del]

lemma int_unat_eq [simp]: "int (unat w) = uint w"
  by (simp add: of_nat_unat)

lemma word_of_nat_unat [simp]: "(of_nat (unat w) :: 'a::len word) = (w :: 'a word)"
  by (simp add: of_nat_unat)

lemma sint_uint_less:
  fixes a :: "32 word"
  assumes "uint a < 2 ^ 31"
  shows "sint a = uint a"
proof -
  have "- (2 ^ 31) \<le> uint a"
    by (rule order_trans [OF _ uint_ge_0]) simp
  with assms have "signed_take_bit 31 (uint a) = uint a"
    by (intro signed_take_bit_int_eq_self) auto
  then show ?thesis by (simp add: sint_uint)
qed

lemma sint_nonneg_uint:
  fixes a :: "32 word"
  assumes "0 \<le> sint a"
  shows "sint a = uint a"
proof (rule sint_uint_less)
  have nb: "\<not> bit (uint a) 31"
    using assms by (simp add: sint_uint)
  have "uint a = take_bit (Suc 31) (uint a)"
    using uint_lt2p [of a] by (intro take_bit_int_eq_self [symmetric]) auto
  also have "\<dots> = take_bit 31 (uint a)"
    using nb by (subst take_bit_Suc_from_most) simp
  also have "\<dots> < 2 ^ 31" by (rule take_bit_int_less_exp)
  finally show "uint a < 2 ^ 31" .
qed

lemma sint_add_small:
  fixes a b :: "32 word"
  assumes "- (2 ^ 31) \<le> sint a + sint b" and "sint a + sint b < 2 ^ 31"
  shows "sint (a + b) = sint a + sint b"
  using assms by (simp add: sint_word_add signed_take_bit_int_eq_self)

lemma sint_diff_small:
  fixes a b :: "32 word"
  assumes "- (2 ^ 31) \<le> sint a - sint b" and "sint a - sint b < 2 ^ 31"
  shows "sint (a - b) = sint a - sint b"
  using assms by (simp add: sint_word_diff signed_take_bit_int_eq_self)

lemma smod_pos: "0 \<le> a \<Longrightarrow> 0 < b \<Longrightarrow> a smod b = a mod (b :: int)"
  by (simp add: signed_modulo_int_def signed_divide_int_def minus_div_mult_eq_mod sgn_if)

lemma sint_word_of_int_small: "0 \<le> i \<Longrightarrow> i < 2 ^ 31 \<Longrightarrow> sint (word_of_int i :: 32 word) = i"
  by (subst sint_uint_less) (simp_all add: uint_word_of_int)

lemma ucast_add_64_32: "(ucast (a + b :: 64 word) :: 32 word) = ucast a + ucast b"
proof -
  have "take_bit 32 (i + j) = take_bit 32 (take_bit 64 i + take_bit 64 j)" for i j :: int
    using take_bit_add [of 32 i j] take_bit_add [of 32 "take_bit 64 i" "take_bit 64 j"] by simp
  then show ?thesis by transfer simp
qed

section \<open>Characters and C strings\<close>

text \<open>
  A C string is the list of its characters before the terminator. The classes
  are those of \<open>ctype.h\<close> in the C locale.
\<close>

abbreviation NUL :: char where
  "NUL \<equiv> CHR 0x00"

definition isspace :: "char \<Rightarrow> bool" where
  "isspace c \<longleftrightarrow> c \<in> {CHR '' '', CHR 0x09, CHR 0x0A, CHR 0x0B, CHR 0x0C, CHR 0x0D}"

definition isdigit :: "char \<Rightarrow> bool" where
  "isdigit c \<longleftrightarrow> CHR ''0'' \<le> c \<and> c \<le> CHR ''9''"

definition isalpha :: "char \<Rightarrow> bool" where
  "isalpha c \<longleftrightarrow> (CHR ''a'' \<le> c \<and> c \<le> CHR ''z'') \<or> (CHR ''A'' \<le> c \<and> c \<le> CHR ''Z'')"

definition isalnum :: "char \<Rightarrow> bool" where
  "isalnum c \<longleftrightarrow> isalpha c \<or> isdigit c"

definition ispunct :: "char \<Rightarrow> bool" where
  "ispunct c \<longleftrightarrow> CHR ''!'' \<le> c \<and> c \<le> CHR ''~'' \<and> \<not> isalnum c"

definition tolower :: "char \<Rightarrow> char" where
  "tolower c = (if CHR ''A'' \<le> c \<and> c \<le> CHR ''Z'' then char_of (of_char c + 32 :: nat) else c)"

definition strcaseeq :: "string \<Rightarrow> string \<Rightarrow> bool" where
  "strcaseeq s t \<longleftrightarrow> map tolower s = map tolower t"

definition cstring :: "string \<Rightarrow> bool" where
  "cstring s \<longleftrightarrow> NUL \<notin> set s"

definition cstr :: "string \<Rightarrow> string" where
  "cstr a = takeWhile (\<lambda>c. c \<noteq> NUL) a"

definition at_char :: "string \<Rightarrow> char" where
  "at_char s = (case s of [] \<Rightarrow> NUL | c # _ \<Rightarrow> c)"

lemma at_char_simps [simp]: "at_char [] = NUL" "at_char (c # s) = c"
  by (simp_all add: at_char_def)

lemma isspace_NUL [simp]: "\<not> isspace NUL"
  by (simp add: isspace_def)

lemma isdigit_NUL [simp]: "\<not> isdigit NUL"
  by (simp add: isdigit_def)

lemma isdigit_not_isspace: "isdigit c \<Longrightarrow> \<not> isspace c"
  by (auto simp: isdigit_def isspace_def)

lemma cstr_append_NUL [simp]: "cstring s \<Longrightarrow> cstr (s @ NUL # t) = s"
  by (induction s) (auto simp: cstr_def cstring_def)

lemma cstr_id [simp]: "cstring s \<Longrightarrow> cstr s = s"
  by (induction s) (auto simp: cstr_def cstring_def)

lemma cstring_cstr [simp]: "cstring (cstr a)"
  by (auto simp: cstring_def cstr_def dest: set_takeWhileD)

text \<open>Text before and after the first or the last occurrence of a character, as \<open>strchr\<close> and \<open>strrchr\<close> find it.\<close>

definition cut_first :: "char \<Rightarrow> string \<Rightarrow> (string \<times> string) option" where
  "cut_first c s = (if c \<in> set s then Some (takeWhile (\<lambda>x. x \<noteq> c) s, tl (dropWhile (\<lambda>x. x \<noteq> c) s)) else None)"

definition cut_last :: "char \<Rightarrow> string \<Rightarrow> (string \<times> string) option" where
  "cut_last c s = (if c \<in> set s
     then Some (rev (tl (dropWhile (\<lambda>x. x \<noteq> c) (rev s))), rev (takeWhile (\<lambda>x. x \<noteq> c) (rev s))) else None)"

lemma cut_last_append: "c \<notin> set b \<Longrightarrow> cut_last c (a @ c # b) = Some (a, b)"
  by (auto simp: cut_last_def takeWhile_append dropWhile_append)

lemma cut_first_append: "c \<notin> set a \<Longrightarrow> cut_first c (a @ c # b) = Some (a, b)"
  by (auto simp: cut_first_def takeWhile_append dropWhile_append)

lemma find_snoc: "find P (xs @ [x]) = (case find P xs of Some y \<Rightarrow> Some y | None \<Rightarrow> if P x then Some x else None)"
  by (induction xs) auto

text \<open>
  \<open>fgets\<close> reads a line with its newline, at most \<open>n\<close> characters, from the rest of a
  file; \<open>overlay\<close> is \<open>memcpy\<close> to the start of an array.
\<close>

fun fgets :: "nat \<Rightarrow> string \<Rightarrow> string \<times> string" where
  "fgets (Suc n) (c # cs) =
     (if c = CHR 10 then ([c], cs) else let (l, r) = fgets n cs in (c # l, r))"
| "fgets _ cs = ([], cs)"

definition overlay :: "string \<Rightarrow> string \<Rightarrow> string" where
  "overlay bs buf = bs @ drop (length bs) buf"

lemma fgets_rest: "length (snd (fgets n content)) \<le> length content"
  by (induction n content rule: fgets.induct) (auto simp: case_prod_unfold Let_def)

lemma fgets_shorter: "content \<noteq> [] \<Longrightarrow> length (snd (fgets (Suc n) content)) < length content"
  using fgets_rest by (cases content) (auto simp: case_prod_unfold Let_def less_Suc_eq_le)

lemma fgets_line:
  "list_all (\<lambda>c. c \<noteq> CHR 10) l \<Longrightarrow> length l < n \<Longrightarrow> fgets n (l @ CHR 10 # r) = (l @ [CHR 10], r)"
proof (induction l arbitrary: n)
  case Nil
  then show ?case by (cases n) auto
next
  case (Cons c l)
  then obtain n' where "n = Suc n'" by (cases n) auto
  with Cons show ?case by simp
qed

section \<open>Decimal numbers\<close>

text \<open>
  The conversions of \<open>printf\<close> the program uses on integers, and the number
  parsers of \<open>stdlib.h\<close>: leading white space, an optional sign, the longest run
  of digits, and saturation at the limits of the 64-bit result.
\<close>

fun dec :: "nat \<Rightarrow> string" where
  "dec n = (if n < 10 then [''0123456789'' ! n] else dec (n div 10) @ [''0123456789'' ! (n mod 10)])"

declare dec.simps [simp del]

definition show_int :: "int \<Rightarrow> string" where
  "show_int i = (if i < 0 then CHR ''-'' # dec (nat (- i)) else dec (nat i))"

definition digit_val :: "char \<Rightarrow> nat" where
  "digit_val c = of_char c - 48"

definition digits_val :: "string \<Rightarrow> nat" where
  "digits_val s = foldl (\<lambda>a c. 10 * a + digit_val c) 0 s"

definition strip_sign :: "string \<Rightarrow> bool \<times> string" where
  "strip_sign s =
     (if at_char s = CHR ''-'' then (True, tl s)
      else if at_char s = CHR ''+'' then (False, tl s) else (False, s))"

definition strtol :: "string \<Rightarrow> int" where
  "strtol s =
     (let (neg, t) = strip_sign (dropWhile isspace s);
          v = int (digits_val (takeWhile isdigit t));
          r = (if neg then - v else v)
      in max (- (2 ^ 63)) (min (2 ^ 63 - 1) r))"

definition strtoul :: "string \<Rightarrow> 64 word" where
  "strtoul s =
     (let (neg, t) = strip_sign (dropWhile isspace s);
          v = digits_val (takeWhile isdigit t)
      in if 2 ^ 64 \<le> v then - 1 else if neg then - of_nat v else of_nat v)"

text \<open>Where such a number ends; a text that has no number ends where it begins.\<close>

definition number_end :: "string \<Rightarrow> string" where
  "number_end s =
     (let (neg, t) = strip_sign (dropWhile isspace s)
      in if isdigit (at_char t) then dropWhile isdigit t else s)"

definition atoi :: "string \<Rightarrow> 32 word" where
  "atoi s = word_of_int (strtol s)"

lemma digit_char:
  assumes "d < 10"
  shows "isdigit (''0123456789'' ! d)" and "digit_val (''0123456789'' ! d) = d"
proof -
  have "d \<in> {0, 1, 2, 3, 4, 5, 6, 7, 8, 9}" using assms by auto
  then show "isdigit (''0123456789'' ! d)" and "digit_val (''0123456789'' ! d) = d"
    by (auto simp: isdigit_def digit_val_def)
qed

lemma dec_digits: "\<forall>c \<in> set (dec n). isdigit c"
proof (induction n rule: dec.induct)
  case (1 n)
  then show ?case
    by (subst dec.simps) (auto simp del: nth_Cons_numeral intro: digit_char)
qed

lemma dec_nonempty [simp]: "dec n \<noteq> []"
  by (subst dec.simps) simp

lemma digits_val_snoc: "digits_val (s @ [c]) = 10 * digits_val s + digit_val c"
  by (simp add: digits_val_def)

lemma digits_val_dec [simp]: "digits_val (dec n) = n"
proof (induction n rule: dec.induct)
  case (1 n)
  show ?case
  proof (cases "n < 10")
    case True
    then have "dec n = [''0123456789'' ! n]" by (subst dec.simps) simp
    with True show ?thesis using digits_val_snoc [of "[]"] digit_char(2)
      by (simp add: digits_val_def)
  next
    case False
    then have "dec n = dec (n div 10) @ [''0123456789'' ! (n mod 10)]"
      by (subst dec.simps) simp
    with False "1" show ?thesis
      by (simp add: digits_val_snoc digit_char(2))
  qed
qed

lemma takeWhile_dec [simp]: "takeWhile isdigit (dec n) = dec n"
  using dec_digits by (auto simp: takeWhile_eq_all_conv)

lemma dec_head:
  "dropWhile isspace (dec n) = dec n" "at_char (dec n) \<noteq> CHR ''-''" "at_char (dec n) \<noteq> CHR ''+''"
proof -
  obtain c s where d: "dec n = c # s" and c: "isdigit c"
    using dec_digits [of n] dec_nonempty [of n] by (cases "dec n") auto
  from c d show "dropWhile isspace (dec n) = dec n"
    by (simp add: isdigit_not_isspace)
  from c d show "at_char (dec n) \<noteq> CHR ''-''" "at_char (dec n) \<noteq> CHR ''+''"
    by (auto simp: isdigit_def)
qed

lemma cstring_dec [simp]: "cstring (dec n)"
  using dec_digits [of n] by (auto simp: cstring_def)

text \<open>Narrowing a number that is given as a natural number.\<close>

lemma ucast_of_nat_down:
  "LENGTH('b) \<le> LENGTH('a) \<Longrightarrow> (ucast (of_nat n :: 'a::len word) :: 'b::len word) = of_nat n"
  by transfer (simp add: min_def)

lemma ucast_narrow:
  "(ucast (of_nat n :: 64 word) :: 32 word) = of_nat n" "(ucast (of_nat n :: 64 word) :: 16 word) = of_nat n"
  "(ucast (of_nat n :: 64 word) :: 8 word) = of_nat n" "(ucast (of_nat n :: 32 word) :: 8 word) = of_nat n"
  by (simp_all add: ucast_of_nat_down)

lemma strtoul_dec [simp, codec]: "n < 2 ^ 64 \<Longrightarrow> strtoul (dec n) = of_nat n"
  by (simp add: strtoul_def strip_sign_def dec_head)

lemma strtol_show_int [simp, codec]:
  assumes "- (2 ^ 63) \<le> i" and "i < 2 ^ 63"
  shows "strtol (show_int i) = i"
proof (cases "i < 0")
  case True
  then have "strtol (show_int i) = max (- (2 ^ 63)) (min (2 ^ 63 - 1) i)"
    by (simp add: strtol_def show_int_def strip_sign_def isspace_def)
  with assms show ?thesis by simp
next
  case False
  then have "strtol (show_int i) = max (- (2 ^ 63)) (min (2 ^ 63 - 1) i)"
    by (simp add: strtol_def show_int_def strip_sign_def dec_head)
  with assms show ?thesis by simp
qed


section \<open>Memory images\<close>

text \<open>Memory is a list of characters (bytes); the machine is little-endian.\<close>

definition char_byte :: "8 word \<Rightarrow> char" where
  "char_byte b = char_of (unat b)"

definition byte_char :: "char \<Rightarrow> 8 word" where
  "byte_char c = of_char c"

definition mem16 :: "16 word \<Rightarrow> string" where
  "mem16 w = map char_byte [ucast w, ucast (drop_bit 8 w)]"

definition mem32 :: "32 word \<Rightarrow> string" where
  "mem32 w = mem16 (ucast w) @ mem16 (ucast (drop_bit 16 w))"

definition mem64 :: "64 word \<Rightarrow> string" where
  "mem64 w = mem32 (ucast w) @ mem32 (ucast (drop_bit 32 w))"

definition get16 :: "string \<Rightarrow> 16 word" where
  "get16 s = ucast (byte_char (s ! 0)) OR push_bit 8 (ucast (byte_char (s ! 1)))"

definition get32 :: "string \<Rightarrow> 32 word" where
  "get32 s = ucast (get16 s) OR push_bit 16 (ucast (get16 (drop 2 s)))"

definition get64 :: "string \<Rightarrow> 64 word" where
  "get64 s = ucast (get32 s) OR push_bit 32 (ucast (get32 (drop 4 s)))"

lemma byte_char_char_byte [simp]: "byte_char (char_byte b) = b"
proof -
  have u: "unat b < 256" using unsigned_less [of b, where 'a = nat] by simp
  have "(of_char (char_of (unat b)) :: 8 word) = of_nat (of_char (char_of (unat b)) :: nat)"
    by (simp only: of_nat_of_char)
  also have "\<dots> = of_nat (unat b mod 256)" by simp
  also have "\<dots> = b" using u by (simp add: of_nat_unat)
  finally show ?thesis by (simp add: byte_char_def char_byte_def)
qed

lemma length_mem [simp]: "length (mem16 a) = 2" "length (mem32 b) = 4" "length (mem64 c) = 8"
  by (simp_all add: mem16_def mem32_def mem64_def)

lemma halves:
  "ucast (ucast (w :: 16 word) :: 8 word) OR push_bit 8 (ucast (ucast (drop_bit 8 w) :: 8 word)) = w"
  "ucast (ucast (x :: 32 word) :: 16 word) OR push_bit 16 (ucast (ucast (drop_bit 16 x) :: 16 word)) = x"
  "ucast (ucast (y :: 64 word) :: 32 word) OR push_bit 32 (ucast (ucast (drop_bit 32 y) :: 32 word)) = y"
  by (auto simp: bit_simps intro!: bit_word_eqI)

lemma get16_mem16 [simp, codec]: "get16 (mem16 w @ r) = w"
  by (simp add: get16_def mem16_def halves)

lemma get32_mem32 [simp, codec]: "get32 (mem32 w @ r) = w"
  by (simp add: get32_def mem32_def halves)

lemma get64_mem64 [simp, codec]: "get64 (mem64 w @ r) = w"
  by (simp add: get64_def mem64_def halves)

section \<open>What the program takes from outside\<close>

text \<open>
  The library code the sources call and the operating system are parameters.
  A PDU of libvigor is the list of its frames, the first of which is its type.
  A hash table of libvigor is a finite map; the order in which
  \<open>for_each_key_value\<close> visits its keys is a function of the table and the set of
  keys, and so are the keys that a walk meets whose body removes the entries that
  satisfy a predicate. The other fields are the two clocks, the regular
  expressions (\<open>pcre_compile\<close> returns the error message of a pattern that does
  not compile, \<open>pcre_exec\<close> the return code of a match), the parsing, printing and
  memory representation of doubles, which system calls succeed on which file,
  the return code of the socket and thread calls, the text of an error, the
  contents of files, the page size, the indeterminate contents of an automatic
  array, splitting a text at spaces and joining words with spaces, and the
  printing of a double with \<open>%lf\<close>.

  Doubles are real numbers: rounding is not modelled. The results of a division
  by zero, which are not real numbers, are kept apart.
\<close>

type_synonym pdu = "string list"

datatype dval = Finite real | Infinite | NotANumber

datatype hash_name =
  H_states | H_counters | H_samples | H_rates | H_keys | H_types | H_windows | H_metrics | H_pdus

datatype sys_call =
  Sys_open | Sys_lseek | Sys_ftruncate | Sys_mmap | Sys_msync | Sys_fopen | Sys_tmpfile |
  Sys_socket | Sys_bind | Sys_connect | Sys_setsockopt | Sys_reactor_new | Sys_reactor_set | Sys_thread |
  Sys_zmq_ctx | Sys_daemonize | Sys_sigmask | Sys_getsockopt | Sys_epoll_ctl | Sys_epoll_create | Sys_poll |
  Sys_rename | Sys_stat | Sys_signal | Sys_listen | Sys_recv | Sys_send | Sys_inet_pton | Sys_accept

record env =
  time_s :: "32 word"
  time_ms :: "64 word"
  hash_order :: "hash_name \<Rightarrow> string fset \<Rightarrow> string list"
  unset_order :: "hash_name \<Rightarrow> (string \<Rightarrow> bool) \<Rightarrow> string fset \<Rightarrow> string list"
  pcre_compile :: "string \<Rightarrow> string option"
  pcre_exec :: "string \<Rightarrow> string \<Rightarrow> int"
  strtod :: "string \<Rightarrow> real"
  strtod_end :: "string \<Rightarrow> string"
  fmt_e :: "dval \<Rightarrow> string"
  enc_double :: "real \<Rightarrow> string"
  dec_double :: "string \<Rightarrow> real"
  sys_ok :: "sys_call \<Rightarrow> string \<Rightarrow> bool"
  sys_rc :: "sys_call \<Rightarrow> string \<Rightarrow> int"
  strerror :: "sys_call \<Rightarrow> string"
  file_data :: "string \<Rightarrow> string"
  page_size :: nat
  stack :: string
  strings_split :: "string \<Rightarrow> string list"
  strings_join :: "string list \<Rightarrow> string"
  fmt_lf :: "real \<Rightarrow> string"

text \<open>
  What the program relies on about the order of a table: a walk meets every key
  once. Nothing is assumed of a walk that removes entries as it goes.
\<close>

definition visits_all :: "env \<Rightarrow> bool" where
  "visits_all E \<longleftrightarrow> (\<forall>h K. distinct (hash_order E h K) \<and> set (hash_order E h K) = fset K)"

lemma visits_allD:
  assumes "visits_all E"
  shows "distinct (hash_order E h K)" and "set (hash_order E h K) = fset K"
  using assms by (auto simp: visits_all_def)

text \<open>
  What it relies on about words: splitting a text of words that are separated by one
  space each gives these words, and joining words puts one space between them.
\<close>

fun unwords :: "string list \<Rightarrow> string" where
  "unwords [] = []"
| "unwords [w] = w"
| "unwords (w # ws) = w @ CHR '' '' # unwords ws"

definition word_ok :: "string \<Rightarrow> bool" where
  "word_ok w \<longleftrightarrow> w \<noteq> [] \<and> CHR '' '' \<notin> set w"

definition splits_words :: "env \<Rightarrow> bool" where
  "splits_words E \<longleftrightarrow> (\<forall>ws. ws \<noteq> [] \<and> list_all word_ok ws \<longrightarrow> strings_split E (unwords ws) = ws)"

definition joins_words :: "env \<Rightarrow> bool" where
  "joins_words E \<longleftrightarrow> (\<forall>ws. strings_join E ws = unwords ws)"

section \<open>Sequences of operations\<close>

fun run_ops :: "('a \<Rightarrow> 'v \<Rightarrow> ('v \<times> 'o list) res) \<Rightarrow> 'a list \<Rightarrow> 'v \<Rightarrow> ('v \<times> 'o list) res" where
  "run_ops f [] v = Inr (v, [])"
| "run_ops f (x # xs) v =
     bind_res (f x v) (\<lambda>(v, fx). bind_res (run_ops f xs v) (\<lambda>(v, gx). Inr (v, fx @ gx)))"

lemma run_ops_append:
  "run_ops f (xs @ ys) v =
    bind_res (run_ops f xs v) (\<lambda>(v, fx). bind_res (run_ops f ys v) (\<lambda>(v, gx). Inr (v, fx @ gx)))"
proof (induction xs arbitrary: v)
  case Nil
  then show ?case by (cases "run_ops f ys v") auto
next
  case (Cons x xs)
  then show ?case by (auto split: bind_res_split prod.split)
qed

section \<open>A concrete environment\<close>

text \<open>
  One environment that keeps every promise the theorems rely on: tables are
  walked in the order of their keys, a pattern matches the text that equals it,
  doubles are stored as integers of eight bytes and every system call succeeds.
  It instantiates the parameters where a theorem is applied to concrete data.
\<close>

fun split_spaces :: "string \<Rightarrow> string \<Rightarrow> string list" where
  "split_spaces w [] = (if w = [] then [] else [w])"
| "split_spaces w (c # cs) =
     (if c = CHR '' '' then (if w = [] then split_spaces [] cs else w # split_spaces [] cs)
      else split_spaces (w @ [c]) cs)"

definition plain_env :: env where
  "plain_env = \<lparr>time_s = 1000000000, time_ms = 1000000000000,
     hash_order = (\<lambda>h K. sorted_list_of_fset K), unset_order = (\<lambda>h d K. sorted_list_of_fset K),
     pcre_compile = (\<lambda>p. None), pcre_exec = (\<lambda>p s. if p = s then 0 else - 1),
     strtod = (\<lambda>s. real_of_int (strtol s)), strtod_end = number_end,
     fmt_e = (\<lambda>v. case v of Finite x \<Rightarrow> show_int \<lfloor>x\<rfloor> | Infinite \<Rightarrow> ''inf'' | NotANumber \<Rightarrow> ''nan''),
     enc_double = (\<lambda>x. mem64 (word_of_int \<lfloor>x\<rfloor>)), dec_double = (\<lambda>s. real (unat (get64 s))),
     sys_ok = (\<lambda>c f. True), sys_rc = (\<lambda>c f. 0), strerror = (\<lambda>c. ''failed''),
     file_data = (\<lambda>f. []), page_size = 4096, stack = replicate 8192 NUL,
     strings_split = split_spaces [], strings_join = unwords, fmt_lf = (\<lambda>x. show_int \<lfloor>x\<rfloor>)\<rparr>"

lemma plain_env_visits_all [simp]: "visits_all (plain_env\<lparr>file_data := d\<rparr>)" "visits_all plain_env"
  by (simp_all add: visits_all_def plain_env_def sorted_list_of_fset.rep_eq)

lemma split_spaces_word: "CHR '' '' \<notin> set v \<Longrightarrow> split_spaces w (v @ r) = split_spaces (w @ v) r"
  by (induction v arbitrary: w) auto

lemma split_spaces_unwords: "ws \<noteq> [] \<Longrightarrow> list_all word_ok ws \<Longrightarrow> split_spaces [] (unwords ws) = ws"
proof (induction ws rule: unwords.induct)
  case (2 w)
  then show ?case using split_spaces_word [of w "[]" "[]"] by (simp add: word_ok_def)
next
  case (3 w v ws)
  then show ?case using split_spaces_word [of w "[]" "CHR '' '' # unwords (v # ws)"] by (simp add: word_ok_def)
qed simp

lemma plain_env_words [simp]: "splits_words plain_env" "joins_words plain_env"
  by (simp_all add: splits_words_def joins_words_def plain_env_def split_spaces_unwords)

lemma plain_env_sys [simp]:
  "sys_ok plain_env c f" "page_size plain_env = 4096" "sys_rc plain_env c f = 0"
  "pcre_exec plain_env r s = (if r = s then 0 else - 1)" "time_s plain_env = 1000000000"
  "length (stack plain_env) = 8192"
  by (simp_all add: plain_env_def)

lemma sorted_list_of_fset_small [simp]:
  "sorted_list_of_fset {||} = []" "sorted_list_of_fset {|a|} = [a]"
  by (simp_all add: sorted_list_of_fset.rep_eq)

section \<open>Walking a table\<close>

text \<open>
  \<open>for_each_key_value\<close> with a body that may change the entry it is at and may
  produce output. The body faults or returns the new entry and its output.
\<close>

fun for_each ::
  "(string \<Rightarrow> 'v \<Rightarrow> ('v \<times> 'o list) res) \<Rightarrow> string list \<Rightarrow> (string, 'v) fmap
    \<Rightarrow> ((string, 'v) fmap \<times> 'o list) res" where
  "for_each f [] m = Inr (m, [])"
| "for_each f (k # ks) m =
     (case fmlookup m k of
        None \<Rightarrow> for_each f ks m
      | Some v \<Rightarrow>
          bind_res (f k v) (\<lambda>(v', os).
          bind_res (for_each f ks (fmupd k v' m)) (\<lambda>(m', os').
          Inr (m', os @ os'))))"

text \<open>
  A body that faults on no entry of a distinct list of keys: the walk changes
  exactly the entries it visits, each once, and its output is the concatenation
  of the outputs in the order of the keys.
\<close>

definition walked :: "(string \<Rightarrow> 'v \<Rightarrow> 'v \<times> 'o list) \<Rightarrow> string list \<Rightarrow> (string, 'v) fmap \<Rightarrow> 'o list" where
  "walked g ks m = concat (map (\<lambda>k. case fmlookup m k of None \<Rightarrow> [] | Some v \<Rightarrow> snd (g k v)) ks)"

lemma walked_fmupd_notin: "k \<notin> set ks \<Longrightarrow> walked g ks (fmupd k v m) = walked g ks m"
  by (auto simp: walked_def intro!: arg_cong [where f = concat] map_cong)

lemma for_each_total:
  assumes "distinct ks"
    and "\<And>k v. k \<in> set ks \<Longrightarrow> fmlookup m k = Some v \<Longrightarrow> f k v = Inr (g k v)"
  shows "\<exists>m'. for_each f ks m = Inr (m', walked g ks m) \<and>
    (\<forall>k. fmlookup m' k =
      (if k \<in> set ks then map_option (\<lambda>v. fst (g k v)) (fmlookup m k) else fmlookup m k))"
  using assms
proof (induction ks arbitrary: m)
  case Nil
  then show ?case by (simp add: walked_def)
next
  case (Cons k ks)
  show ?case
  proof (cases "fmlookup m k")
    case None
    with Cons.prems have "\<exists>m'. for_each f ks m = Inr (m', walked g ks m) \<and>
      (\<forall>j. fmlookup m' j =
        (if j \<in> set ks then map_option (\<lambda>v. fst (g j v)) (fmlookup m j) else fmlookup m j))"
      by (intro Cons.IH) auto
    with None show ?thesis by (auto simp: walked_def)
  next
    case (Some v)
    obtain v' os where g: "g k v = (v', os)" by (cases "g k v")
    with Cons.prems Some have f: "f k v = Inr (v', os)" by simp
    have "\<exists>m'. for_each f ks (fmupd k v' m) = Inr (m', walked g ks (fmupd k v' m)) \<and>
      (\<forall>j. fmlookup m' j =
        (if j \<in> set ks then map_option (\<lambda>v. fst (g j v)) (fmlookup (fmupd k v' m) j)
         else fmlookup (fmupd k v' m) j))"
      using Cons.prems by (intro Cons.IH) (auto split: if_splits)
    then obtain m' where m': "for_each f ks (fmupd k v' m) = Inr (m', walked g ks m)"
      and l: "\<forall>j. fmlookup m' j =
        (if j \<in> set ks then map_option (\<lambda>v. fst (g j v)) (fmlookup (fmupd k v' m) j)
         else fmlookup (fmupd k v' m) j)"
      using Cons.prems by (auto simp: walked_fmupd_notin)
    have "for_each f (k # ks) m = Inr (m', walked g (k # ks) m)"
      using Some f m' g by (simp add: walked_def)
    moreover have "\<forall>j. fmlookup m' j =
        (if j \<in> set (k # ks) then map_option (\<lambda>v. fst (g j v)) (fmlookup m j) else fmlookup m j)"
      using l Some g Cons.prems(1) by auto
    ultimately show ?thesis by blast
  qed
qed

text \<open>
  The contract of a walk body: on an entry that satisfies \<open>ok\<close> it does not fault
  and leaves an entry that satisfies \<open>ok\<close>.
\<close>

locale walk_body =
  fixes ok :: "string \<Rightarrow> 'v \<Rightarrow> bool"
    and body :: "'e \<Rightarrow> string \<Rightarrow> 'v \<Rightarrow> ('v \<times> 'o list) res"
  assumes body_ok: "ok k v \<Longrightarrow> \<exists>v' os. body e k v = Inr (v', os) \<and> ok k v'"
begin

lemma for_each_safe:
  assumes "\<And>k v. fmlookup m k = Some v \<Longrightarrow> ok k v"
  shows "\<exists>m' os. for_each (body e) ks m = Inr (m', os) \<and> fmdom m' = fmdom m \<and>
    (\<forall>k v. fmlookup m' k = Some v \<longrightarrow> ok k v)"
  using assms
proof (induction ks arbitrary: m)
  case Nil
  then show ?case by simp
next
  case (Cons k ks)
  show ?case
  proof (cases "fmlookup m k")
    case None
    with Cons show ?thesis by simp
  next
    case (Some v)
    with Cons.prems obtain v' os where b: "body e k v = Inr (v', os)" and "ok k v'"
      using body_ok by blast
    with Cons.prems have "\<exists>m' os'. for_each (body e) ks (fmupd k v' m) = Inr (m', os') \<and>
        fmdom m' = fmdom (fmupd k v' m) \<and> (\<forall>k v. fmlookup m' k = Some v \<longrightarrow> ok k v)"
      by (intro Cons.IH) (auto split: if_splits)
    moreover have "fmdom (fmupd k v' m) = fmdom m"
      using Some by (auto simp: fset_eq_iff intro: fmdomI)
    ultimately show ?thesis using Some b by auto
  qed
qed

end

end
