(* ===== verification/Bolo_Name.thy ===== *)
theory Bolo_Name
  imports Bolo_Prelude
begin

text \<open>
  Qualified names (\<open>src/src/bolo_name.c\<close>) and the command that works on them
  (\<open>src/src/bolo/cmd_name.c\<close>): a list of \<open>key=value\<close> parts, sorted by key, and a
  flag for a trailing \<open>*\<close>.

  A value is a \<open>char *\<close> that \<open>bolo_name_set\<close> can make null, here \<open>None\<close>. \<open>vmalloc\<close> and
  \<open>vcalloc\<close> of the vigor library return zeroed memory. \<open>strcmp\<close> compares characters as unsigned numbers.

  \<open>bolo_name_parse\<close> sorts the whole array, with the zeroed entries behind the parts when a \<open>*\<close> took the place
  of one, and \<open>s_sort\<close> answers 0 for them. The standard leaves the result of such a comparison open; \<open>qsort\<close> is taken
  to be the merge sort of the C library, and \<open>qsort_parts\<close> shows that it sorts the parts and leaves the unused entries
  at the end, where the model of a name has no entries.
\<close>

section \<open>Names\<close>

record part_t =
  part_name :: string
  part_value :: "string option"
  part_wildcard :: bool

record name_t =
  name_wildcard :: bool
  name_parts :: "part_t list"

abbreviation name_end :: "char \<Rightarrow> bool" where
  "name_end c \<equiv> c = CHR ''='' \<or> c = CHR '',''"

text \<open>The loop of \<open>bolo_name_parse\<close>, on the rest of the text; \<open>None\<close> is the null pointer.\<close>

function name_loop :: "string \<Rightarrow> (bool \<times> part_t list) option" where
  "name_loop a =
     (let w = takeWhile (\<lambda>c. \<not> name_end c) a in
      case dropWhile (\<lambda>c. \<not> name_end c) a of
        [] \<Rightarrow> if w = ''*'' then Some (True, []) else None
      | c # rest \<Rightarrow>
          if c = CHR '','' then
            (if w = ''*'' then map_option (\<lambda>(_, ps). (True, ps)) (name_loop rest) else None)
          else
            let v = takeWhile (\<lambda>c. c \<noteq> CHR '','') rest;
                p = \<lparr>part_name = w, part_value = Some v, part_wildcard = (v = [] \<or> v = ''*'')\<rparr>
            in case dropWhile (\<lambda>c. c \<noteq> CHR '','') rest of
                 [] \<Rightarrow> Some (False, [p])
               | _ # rest \<Rightarrow> map_option (\<lambda>(b, ps). (b, p # ps)) (name_loop rest))"
  by pat_completeness auto

lemma dropWhile_shorter: "dropWhile P xs = y # ys \<Longrightarrow> length ys < length xs"
  using length_dropWhile_le [of P xs] by simp

termination name_loop
proof (relation "measure length")
  fix a w c rest
  assume "dropWhile (\<lambda>c. \<not> name_end c) a = c # rest"
  from dropWhile_shorter [OF this] show "(rest, a) \<in> measure length" by simp
next
  fix a w c rest v p d rest'
  assume "dropWhile (\<lambda>c. \<not> name_end c) a = c # rest" "dropWhile (\<lambda>c. c \<noteq> CHR '','') rest = d # rest'"
  from this [THEN dropWhile_shorter] show "(rest', a) \<in> measure length" by simp
qed simp

declare name_loop.simps [simp del]

definition bolo_name_parse :: "string \<Rightarrow> name_t option" where
  "bolo_name_parse name =
     (if name = [] then Some \<lparr>name_wildcard = False, name_parts = []\<rparr>
      else map_option (\<lambda>(w, ps). \<lparr>name_wildcard = w, name_parts = sort_key part_name ps\<rparr>) (name_loop name))"

section \<open>The array of parts and its order\<close>

text \<open>An unused entry is \<open>None\<close>; \<open>s_sort\<close> here says that the comparison is not above 0.\<close>

fun s_sort :: "part_t option \<Rightarrow> part_t option \<Rightarrow> bool" where
  "s_sort (Some a) (Some b) \<longleftrightarrow> part_name a \<le> part_name b"
| "s_sort _ _ \<longleftrightarrow> True"

fun msort_merge :: "part_t option list \<Rightarrow> part_t option list \<Rightarrow> part_t option list" where
  "msort_merge (a # as) (b # bs) = (if s_sort a b then a # msort_merge as (b # bs) else b # msort_merge (a # as) bs)"
| "msort_merge [] bs = bs"
| "msort_merge as [] = as"

fun msort :: "part_t option list \<Rightarrow> part_t option list" where
  "msort ps = (if length ps \<le> 1 then ps
     else msort_merge (msort (take (length ps div 2) ps)) (msort (drop (length ps div 2) ps)))"

declare msort.simps [simp del]

lemma msort_merge_unused: "msort_merge as (replicate k None) = as @ replicate k None"
proof (induction as)
  case (Cons a as)
  then show ?case by (cases k; cases a) simp_all
qed simp

lemma sort_key_least:
  "\<forall>x \<in> set xs. f b < f x \<Longrightarrow> \<forall>x \<in> set ys. f b \<le> f x \<Longrightarrow> sort_key f (xs @ b # ys) = b # sort_key f (xs @ ys)"
  by (induction xs) (auto simp: insort_is_Cons)

lemma msort_merge_parts:
  assumes "sorted (map part_name as)" "sorted (map part_name bs)"
  shows "msort_merge (map Some as) (map Some bs @ replicate k None) = map Some (sort_key part_name (as @ bs)) @ replicate k None"
  using assms
proof (induction as arbitrary: bs)
  case (Cons a as)
  note outer = Cons
  from Cons.prems(2) show ?case
  proof (induction bs)
    case Nil
    then show ?case using msort_merge_unused [of "map Some (a # as)" k] sort_key_id_if_sorted [OF outer(2)] by simp
  next
    case (Cons b bs)
    show ?case
    proof (cases "part_name a \<le> part_name b")
      case True
      then have "\<forall>x \<in> set (as @ b # bs). part_name a \<le> part_name x" using outer(2) Cons.prems by auto
      then have "sort_key part_name (a # as @ b # bs) = a # sort_key part_name (as @ b # bs)"
        by (simp add: insort_is_Cons)
      then show ?thesis using True outer(1) [of "b # bs"] outer(2) Cons.prems by simp
    next
      case False
      then have "\<forall>x \<in> set (a # as). part_name b < part_name x" using outer(2) by force
      then have "sort_key part_name ((a # as) @ b # bs) = b # sort_key part_name ((a # as) @ bs)"
        using Cons.prems by (intro sort_key_least) auto
      then show ?thesis using False Cons by simp
    qed
  qed
qed (simp add: sort_key_id_if_sorted)

lemma sort_key_halves: "sort_key f (sort_key f xs @ sort_key f ys) = sort_key f (xs @ ys)"
proof (rule properties_for_sort_key)
  have "filter (\<lambda>x. k = f x) (sort_key f zs) = filter (\<lambda>x. k = f x) zs" for k zs
    using sort_key_stable [of f k zs] by (simp add: eq_commute)
  then show "filter (\<lambda>x. f k = f x) (sort_key f (xs @ ys)) = filter (\<lambda>x. f k = f x) (sort_key f xs @ sort_key f ys)" for k
    by simp
qed simp_all

lemma qsort_parts: "msort (map Some ps @ replicate k None) = map Some (sort_key part_name ps) @ replicate k None"
proof (induction "length ps + k" arbitrary: ps k rule: less_induct)
  case less
  let ?ps = "map Some ps @ replicate k None" and ?m = "(length ps + k) div 2"
  show ?case
  proof (cases "length ps + k \<le> 1")
    case True
    then show ?thesis by (cases ps) (auto simp: msort.simps)
  next
    case False
    then have m: "msort ?ps = msort_merge (msort (take ?m ?ps)) (msort (drop ?m ?ps))" by (subst msort.simps) simp
    show ?thesis
    proof (cases "?m \<le> length ps")
      case True
      then have t: "take ?m ?ps = map Some (take ?m ps) @ replicate 0 None" "drop ?m ?ps = map Some (drop ?m ps) @ replicate k None"
        by (simp_all add: take_map drop_map)
      have "msort (take ?m ?ps) = map Some (sort_key part_name (take ?m ps))"
        "msort (drop ?m ?ps) = map Some (sort_key part_name (drop ?m ps)) @ replicate k None"
        unfolding t using less [of "take ?m ps" 0] less [of "drop ?m ps" k] False True by auto
      then show ?thesis by (simp add: m msort_merge_parts sort_key_halves)
    next
      case F: False
      let ?i = "?m - length ps"
      have t: "take ?m ?ps = map Some ps @ replicate ?i None" "drop ?m ?ps = map Some [] @ replicate (k - ?i) None"
        using F by auto
      have "length ps + ?i < length ps + k" "k - ?i < length ps + k" using F by auto
      then have "msort (take ?m ?ps) = map Some (sort_key part_name ps) @ replicate ?i None" "msort (drop ?m ?ps) = replicate (k - ?i) None"
        unfolding t using less [of ps ?i] less [of "[]" "k - ?i"] by auto
      moreover have "?i + (k - ?i) = k" using F by auto
      ultimately show ?thesis by (simp add: m msort_merge_unused flip: replicate_add)
    qed
  qed
qed

text \<open>\<open>bolo_name_copy\<close> copies the pointers of the parts: the copy has the same parts.\<close>

definition bolo_name_copy :: "name_t \<Rightarrow> name_t" where
  "bolo_name_copy n = \<lparr>name_wildcard = name_wildcard n, name_parts = name_parts n\<rparr>"

fun parts_text :: "part_t list \<Rightarrow> string res" where
  "parts_text [] = Inr []"
| "parts_text (p # ps) =
     (case part_value p of
        None \<Rightarrow> Inl NullDeref
      | Some v \<Rightarrow> bind_res (parts_text ps) (\<lambda>t. Inr (part_name p @ ''='' @ v @ '','' @ t)))"

definition bolo_name_string :: "name_t \<Rightarrow> string res" where
  "bolo_name_string n =
     bind_res (parts_text (name_parts n)) (\<lambda>t.
       Inr (butlast (t @ (if name_wildcard n then ''*,'' else []))))"

fun match_loop :: "part_t list \<Rightarrow> part_t list \<Rightarrow> bool \<Rightarrow> int res" where
  "match_loop (x # xs) (y # ys) w =
     (if part_name x = part_name y then
        (if part_wildcard y then match_loop xs ys w
         else case (part_value x, part_value y) of
                (Some u, Some v) \<Rightarrow> if u \<noteq> v then Inr 1 else match_loop xs ys w
              | _ \<Rightarrow> Inl NullDeref)
      else if w then match_loop xs (y # ys) w
      else Inr 1)"
| "match_loop xs ys w =
     (if xs = [] \<and> ys = [] then Inr 0 else if ys = [] \<and> w then Inr 0 else Inr 1)"

definition bolo_name_match :: "name_t \<Rightarrow> name_t \<Rightarrow> int res" where
  "bolo_name_match a b =
     (if name_parts b = [] \<and> name_wildcard b then Inr 0
      else match_loop (name_parts a) (name_parts b) (name_wildcard b))"

fun set_value :: "string \<Rightarrow> string option \<Rightarrow> part_t list \<Rightarrow> part_t list option" where
  "set_value key v [] = None"
| "set_value key v (p # ps) =
     (if part_name p = key then Some (p\<lparr>part_value := v\<rparr> # ps) else map_option (Cons p) (set_value key v ps))"

definition bolo_name_set :: "name_t \<Rightarrow> string \<Rightarrow> string option \<Rightarrow> name_t" where
  "bolo_name_set n key value =
     (let wild = (value = None \<or> value = Some ''*''); v = (if wild then None else value)
      in case set_value key v (name_parts n) of
           Some ps \<Rightarrow> n\<lparr>name_parts := ps\<rparr>
         | None \<Rightarrow> n\<lparr>name_parts := sort_key part_name
             (name_parts n @ [\<lparr>part_name = key, part_value = v, part_wildcard = wild\<rparr>])\<rparr>)"

fun remove_part :: "string \<Rightarrow> part_t list \<Rightarrow> part_t list" where
  "remove_part key [] = []"
| "remove_part key (p # ps) = (if part_name p = key then ps else p # remove_part key ps)"

definition bolo_name_unset :: "name_t \<Rightarrow> string \<Rightarrow> name_t" where
  "bolo_name_unset n key = n\<lparr>name_parts := remove_part key (name_parts n)\<rparr>"

definition bolo_name_concat :: "name_t \<Rightarrow> name_t \<Rightarrow> name_t" where
  "bolo_name_concat a b = foldl (\<lambda>n p. bolo_name_set n (part_name p) (part_value p)) a (name_parts b)"

section \<open>The command\<close>

text \<open>
  \<open>bolo name\<close>: the arguments after the word \<open>name\<close>, the exit code, and the lines
  on standard output and standard error.
\<close>

datatype out_line = Out string | Err string

abbreviation invalid_name :: "string \<Rightarrow> out_line" where
  "invalid_name s \<equiv> Err (s @ '': not a valid qualified name'')"

definition name_match_cmd :: "string \<Rightarrow> string \<Rightarrow> (int \<times> out_line list) res" where
  "name_match_cmd s t =
     (case (bolo_name_parse s, bolo_name_parse t) of
        (Some a, Some b) \<Rightarrow>
          bind_res (bolo_name_match a b) (\<lambda>r. Inr (if r \<noteq> 0 then (2, [Out ''no'']) else (0, [Out ''yes''])))
      | (a, b) \<Rightarrow> Inr (1, (if a = None then [invalid_name s] else []) @ (if b = None then [invalid_name t] else [])))"

fun name_fix_cmd :: "string list \<Rightarrow> out_line list res" where
  "name_fix_cmd [] = Inr []"
| "name_fix_cmd (s # ss) =
     (case bolo_name_parse s of
        None \<Rightarrow> bind_res (name_fix_cmd ss) (\<lambda>ls. Inr (invalid_name s # ls))
      | Some n \<Rightarrow> bind_res (bolo_name_string n) (\<lambda>t. bind_res (name_fix_cmd ss) (\<lambda>ls. Inr (Out t # ls))))"

fun name_concat_cmd :: "name_t \<Rightarrow> string list \<Rightarrow> out_line list res" where
  "name_concat_cmd n [] = bind_res (bolo_name_string n) (\<lambda>t. Inr [Out t])"
| "name_concat_cmd n (s # ss) =
     (case bolo_name_parse s of
        None \<Rightarrow> bind_res (name_concat_cmd n ss) (\<lambda>ls. Inr (invalid_name s # ls))
      | Some m \<Rightarrow> name_concat_cmd (bolo_name_concat n m) ss)"

fun name_set_cmd :: "name_t \<Rightarrow> string list \<Rightarrow> out_line list res" where
  "name_set_cmd n (k # v # kvs) = name_set_cmd (bolo_name_set n k (Some v)) kvs"
| "name_set_cmd n _ = bind_res (bolo_name_string n) (\<lambda>t. Inr [Out t])"

definition name_unset_cmd :: "name_t \<Rightarrow> string list \<Rightarrow> out_line list res" where
  "name_unset_cmd n ks = bind_res (bolo_name_string (foldl bolo_name_unset n ks)) (\<lambda>t. Inr [Out t])"

definition with_name :: "string \<Rightarrow> (name_t \<Rightarrow> out_line list res) \<Rightarrow> (int \<times> out_line list) res" where
  "with_name s f =
     (case bolo_name_parse s of
        None \<Rightarrow> Inr (1, [invalid_name s])
      | Some n \<Rightarrow> bind_res (f n) (\<lambda>ls. Inr (0, ls)))"

definition cmd_name :: "string list \<Rightarrow> (int \<times> out_line list) res" where
  "cmd_name args =
     (case args of
        [] \<Rightarrow> Inr (1, [Err ''USAGE: bolo name <command> [options]''])
      | c # as \<Rightarrow>
          if c = ''match'' then
            (case as of [s, t] \<Rightarrow> name_match_cmd s t | _ \<Rightarrow> Inr (1, [Err ''USAGE: bolo name match <name> <other-name>'']))
          else if c = ''check'' then
            (if as = [] then Inr (1, [Err ''USAGE: bolo name check <name> [<name> ...]''])
             else Inr (0, map (\<lambda>s. Out ((if bolo_name_parse s \<noteq> None then [] else ''in'') @ ''valid'')) as))
          else if c = ''fix'' then
            (if as = [] then Inr (1, [Err ''USAGE: bolo name fix <name> [<name> ...]''])
             else bind_res (name_fix_cmd as) (\<lambda>ls. Inr (0, ls)))
          else if c = ''concat'' then
            (case as of s # t # ts \<Rightarrow> with_name s (\<lambda>n. name_concat_cmd n (t # ts))
             | _ \<Rightarrow> Inr (1, [Err ''USAGE: bolo concat <name> <name> [...]'']))
          else if c = ''set'' then
            (case as of s # k # v # kvs \<Rightarrow>
               if even (length kvs) then with_name s (\<lambda>n. name_set_cmd n (k # v # kvs))
               else Inr (1, [Err ''USAGE: bolo set <name> <key> <value> [ <key> <value> ...]''])
             | _ \<Rightarrow> Inr (1, [Err ''USAGE: bolo set <name> <key> <value> [ <key> <value> ...]'']))
          else if c = ''unset'' then
            (case as of s # k # ks \<Rightarrow> with_name s (\<lambda>n. name_unset_cmd n (k # ks))
             | _ \<Rightarrow> Inr (1, [Err ''USAGE: bolo unset <name> <key> [ <key> ...]'']))
          else Inr (1, [Err (''Unrecognized command '' @ [CHR 0x27] @ c @ [CHR 0x27])]))"

section \<open>Parsing and printing\<close>

text \<open>A part as the parser makes it, and the text of a name.\<close>

definition part_ok :: "part_t \<Rightarrow> bool" where
  "part_ok p \<longleftrightarrow> list_all (\<lambda>c. \<not> name_end c) (part_name p) \<and>
     (case part_value p of None \<Rightarrow> False
      | Some v \<Rightarrow> list_all (\<lambda>c. c \<noteq> CHR '','') v \<and> part_wildcard p = (v = [] \<or> v = ''*''))"

fun render :: "part_t list \<Rightarrow> bool \<Rightarrow> string" where
  "render [] w = (if w then ''*'' else [])"
| "render (p # ps) w = part_name p @ ''='' @ the (part_value p) @
     (if ps = [] \<and> \<not> w then [] else '','' @ render ps w)"

lemma takeWhile_stop: "list_all P xs \<Longrightarrow> \<not> P y \<Longrightarrow> takeWhile P (xs @ y # ys) = xs"
  by (induction xs) auto

lemma dropWhile_stop: "list_all P xs \<Longrightarrow> \<not> P y \<Longrightarrow> dropWhile P (xs @ y # ys) = y # ys"
  by (induction xs) auto

lemma takeWhile_all: "list_all P xs \<Longrightarrow> takeWhile P xs = xs" "list_all P xs \<Longrightarrow> dropWhile P xs = []"
  by (induction xs) auto

lemma name_loop_star: "name_loop ''*'' = Some (True, [])"
  by (subst name_loop.simps) simp

lemma name_loop_last:
  assumes "part_ok p"
  shows "name_loop (part_name p @ ''='' @ the (part_value p)) = Some (False, [p])"
proof -
  obtain v where v: "part_value p = Some v" "list_all (\<lambda>c. c \<noteq> CHR '','') v" "part_wildcard p = (v = [] \<or> v = ''*'')"
    and n: "list_all (\<lambda>c. \<not> name_end c) (part_name p)"
    using assms by (auto simp: part_ok_def split: option.splits)
  show ?thesis
    using v takeWhile_stop [OF n, of "CHR ''=''" v] dropWhile_stop [OF n, of "CHR ''=''" v]
    by (subst name_loop.simps) (simp add: Let_def takeWhile_all)
qed

lemma name_loop_more:
  assumes "part_ok p"
  shows "name_loop (part_name p @ ''='' @ the (part_value p) @ '','' @ rest) =
    map_option (\<lambda>(b, ps). (b, p # ps)) (name_loop rest)"
proof -
  obtain v where v: "part_value p = Some v" "list_all (\<lambda>c. c \<noteq> CHR '','') v" "part_wildcard p = (v = [] \<or> v = ''*'')"
    and n: "list_all (\<lambda>c. \<not> name_end c) (part_name p)"
    using assms by (auto simp: part_ok_def split: option.splits)
  have p: "\<lparr>part_name = part_name p, part_value = Some v, part_wildcard = (v = [] \<or> v = ''*'')\<rparr> = p"
    using v by simp
  show ?thesis
    using v(1,2) takeWhile_stop [OF n, of "CHR ''=''" "v @ '','' @ rest"] dropWhile_stop [OF n, of "CHR ''=''" "v @ '','' @ rest"]
      takeWhile_stop [OF v(2), of "CHR '',''" rest] dropWhile_stop [OF v(2), of "CHR '',''" rest]
    by (subst name_loop.simps) (simp add: Let_def p)
qed

lemma name_loop_render:
  "list_all part_ok ps \<Longrightarrow> ps \<noteq> [] \<or> w \<Longrightarrow> name_loop (render ps w) = Some (w, ps)"
proof (induction ps)
  case Nil
  then show ?case by (simp add: name_loop_star)
next
  case (Cons p ps)
  show ?case
  proof (cases "ps = [] \<and> \<not> w")
    case True
    with Cons.prems show ?thesis using name_loop_last [of p] by simp
  next
    case False
    with Cons show ?thesis using name_loop_more [of p "render ps w"] by auto
  qed
qed

lemma list_all_takeWhile: "list_all P (takeWhile P xs)"
  by (induction xs) auto

lemma name_loop_end:
  assumes d: "dropWhile (\<lambda>c. \<not> name_end c) a = []"
  shows "name_loop a = (if takeWhile (\<lambda>c. \<not> name_end c) a = ''*'' then Some (True, []) else None)"
  unfolding name_loop.simps [of a] Let_def d by (simp only: list.case)

lemma name_loop_comma:
  assumes d: "dropWhile (\<lambda>c. \<not> name_end c) a = CHR '','' # rest"
  shows "name_loop a = (if takeWhile (\<lambda>c. \<not> name_end c) a = ''*''
    then map_option (\<lambda>(_, ps). (True, ps)) (name_loop rest) else None)"
  unfolding name_loop.simps [of a] Let_def d by (simp only: list.case simp_thms if_True)

lemma name_loop_pair:
  assumes d: "dropWhile (\<lambda>c. \<not> name_end c) a = c # rest" and c: "c \<noteq> CHR '',''"
    and v: "v = takeWhile (\<lambda>c. c \<noteq> CHR '','') rest"
    and p: "p = \<lparr>part_name = takeWhile (\<lambda>c. \<not> name_end c) a, part_value = Some v,
      part_wildcard = (v = [] \<or> v = ''*'')\<rparr>"
  shows "name_loop a = (case dropWhile (\<lambda>c. c \<noteq> CHR '','') rest of [] \<Rightarrow> Some (False, [p])
    | _ # rest \<Rightarrow> map_option (\<lambda>(b, ps). (b, p # ps)) (name_loop rest))"
  unfolding name_loop.simps [of a] Let_def d p v by (simp only: list.case c if_False)

lemma name_loop_ok: "name_loop a = Some (w, ps) \<Longrightarrow> list_all part_ok ps \<and> (ps \<noteq> [] \<or> w)"
proof (induction "length a" arbitrary: a w ps rule: less_induct)
  case less
  show ?case
  proof (cases "dropWhile (\<lambda>c. \<not> name_end c) a")
    case Nil
    with less.prems name_loop_end [OF Nil] show ?thesis by (simp split: if_splits)
  next
    case a: (Cons c rest)
    note short = dropWhile_shorter [OF a]
    show ?thesis
    proof (cases "c = CHR '',''")
      case True
      then obtain b where "name_loop rest = Some (b, ps)" "w"
        using less.prems name_loop_comma [OF a [unfolded True]] by (auto split: if_splits)
      with less.hyps [OF short] show ?thesis by blast
    next
      case False
      define v where "v = takeWhile (\<lambda>c. c \<noteq> CHR '','') rest"
      define p where "p = \<lparr>part_name = takeWhile (\<lambda>c. \<not> name_end c) a, part_value = Some v,
        part_wildcard = (v = [] \<or> v = ''*'')\<rparr>"
      have ok: "part_ok p"
        using list_all_takeWhile [of "\<lambda>c. c \<noteq> CHR '',''" rest] list_all_takeWhile [of "\<lambda>c. \<not> name_end c" a]
        by (simp add: part_ok_def p_def v_def)
      note u = name_loop_pair [OF a False v_def p_def]
      show ?thesis
      proof (cases "dropWhile (\<lambda>c. c \<noteq> CHR '','') rest")
        case Nil
        have "w = False" "ps = [p]" using less.prems unfolding u Nil by simp_all
        with ok show ?thesis by simp
      next
        case r: (Cons d rest')
        obtain qs where q: "name_loop rest' = Some (w, qs)" "ps = p # qs"
          using less.prems unfolding u r by auto
        have "length rest' < length a" using dropWhile_shorter [OF r] short by simp
        from less.hyps [OF this q(1)] q(2) ok show ?thesis by simp
      qed
    qed
  qed
qed

lemma sort_key_Nil_iff [simp]: "sort_key f xs = [] \<longleftrightarrow> xs = []"
  using length_sort [of f xs] by (simp flip: length_0_conv)

lemma parts_text_ok:
  "list_all part_ok ps \<Longrightarrow> parts_text ps = Inr (concat (map (\<lambda>p. part_name p @ ''='' @ the (part_value p) @ '','') ps))"
  by (induction ps) (auto simp: part_ok_def split: option.splits)

lemma render_text:
  "ps \<noteq> [] \<or> w \<Longrightarrow> butlast (concat (map (\<lambda>p. part_name p @ ''='' @ the (part_value p) @ '','') ps) @
    (if w then ''*,'' else [])) = render ps w"
proof (induction ps)
  case (Cons p ps)
  then show ?case by (cases "ps = [] \<and> \<not> w") (auto simp: butlast_append)
qed simp

text \<open>
  C20: a text that parses as a qualified name is printed in a form that
  parses as the same name: sorting and printing are idempotent and no part, value
  or wildcard is lost.
\<close>

theorem name_canonical:
  assumes "bolo_name_parse s = Some q"
  shows "\<exists>t. bolo_name_string q = Inr t \<and> bolo_name_parse t = Some q"
proof (cases "s = []")
  case True
  with assms have "q = \<lparr>name_wildcard = False, name_parts = []\<rparr>" by (simp add: bolo_name_parse_def)
  then have "bolo_name_string q = Inr []" by (simp add: bolo_name_string_def)
  with True assms show ?thesis by blast
next
  case False
  then obtain w ps where l: "name_loop s = Some (w, ps)"
    and q: "q = \<lparr>name_wildcard = w, name_parts = sort_key part_name ps\<rparr>"
    using assms by (auto simp: bolo_name_parse_def)
  let ?ps = "sort_key part_name ps"
  have ok: "list_all part_ok ?ps" "?ps \<noteq> [] \<or> w"
    using name_loop_ok [OF l] by (auto simp: list_all_iff)
  have "bolo_name_string q = Inr (render ?ps w)"
    using parts_text_ok [OF ok(1)] render_text [OF ok(2)] by (simp add: bolo_name_string_def q)
  moreover have "render ?ps w \<noteq> []" using ok(2) by (cases ?ps) auto
  moreover have "sort_key part_name ?ps = ?ps" by (simp add: sort_key_id_if_sorted)
  ultimately have "bolo_name_parse (render ?ps w) = Some q"
    using name_loop_render [OF ok] by (simp add: bolo_name_parse_def q)
  with \<open>bolo_name_string q = Inr (render ?ps w)\<close> show ?thesis by blast
qed

theorem name_canonical_witness:
  "\<exists>t. bolo_name_string \<lparr>name_wildcard = True, name_parts =
      [\<lparr>part_name = ''a'', part_value = Some ''x'', part_wildcard = False\<rparr>]\<rparr> = Inr t \<and>
    bolo_name_parse t = Some \<lparr>name_wildcard = True, name_parts =
      [\<lparr>part_name = ''a'', part_value = Some ''x'', part_wildcard = False\<rparr>]\<rparr>"
  by (rule name_canonical [of "''*,a=x''"]) (simp add: bolo_name_parse_def name_loop.simps)

section \<open>Matching\<close>

text \<open>
  What a match promises: every part of the pattern has a part of the same key with
  the same value (any value under a wildcard), and without a trailing \<open>*\<close> the name
  has no other part.
\<close>

definition part_covers :: "part_t list \<Rightarrow> part_t \<Rightarrow> bool" where
  "part_covers xs y = list_ex (\<lambda>x. part_name x = part_name y \<and> (part_wildcard y \<or> part_value x = part_value y)) xs"

definition name_covers :: "name_t \<Rightarrow> name_t \<Rightarrow> bool" where
  "name_covers a b \<longleftrightarrow> list_all (part_covers (name_parts a)) (name_parts b) \<and>
     (name_wildcard b \<or> list_all (\<lambda>x. part_name x \<in> part_name ` set (name_parts b)) (name_parts a))"

abbreviation part_sorted :: "part_t list \<Rightarrow> bool" where
  "part_sorted \<equiv> sorted_wrt (\<lambda>x y. part_name x < part_name y)"

lemma part_sorted_iff: "part_sorted ps \<longleftrightarrow> sorted (map part_name ps) \<and> distinct (map part_name ps)"
  by (simp add: strict_sorted_iff flip: sorted_wrt_map)

lemma part_covers_simps [simp]:
  "\<not> part_covers [] y"
  "part_covers (x # xs) y \<longleftrightarrow>
     part_name x = part_name y \<and> (part_wildcard y \<or> part_value x = part_value y) \<or> part_covers xs y"
  by (simp_all add: part_covers_def)

lemma part_coversD: "part_covers xs y \<Longrightarrow> part_name y \<in> part_name ` set xs"
  unfolding part_covers_def list_ex_iff by (metis image_eqI)

lemma part_ok_value: "part_ok p \<Longrightarrow> part_value p \<noteq> None"
  by (auto simp: part_ok_def split: option.splits)

lemma match_loop_spec:
  assumes "part_sorted xs" "part_sorted ys" "list_all (\<lambda>p. part_value p \<noteq> None) (xs @ ys)"
  shows "match_loop xs ys w = Inr (if list_all (part_covers xs) ys \<and>
    (w \<or> list_all (\<lambda>x. part_name x \<in> part_name ` set ys) xs) then 0 else 1)"
  using assms
proof (induction xs ys w rule: match_loop.induct)
  case (1 x xs y ys w)
  have xs: "list_all (\<lambda>z. part_name x \<noteq> part_name z) xs" and ys: "list_all (\<lambda>z. part_name y \<noteq> part_name z) ys"
    using 1(4,5) by (auto simp: list_all_iff)
  consider (eq) "part_name x = part_name y" | (skip) "part_name x \<noteq> part_name y" "w" | (stop) "part_name x \<noteq> part_name y" "\<not> w"
    by blast
  then show ?case
  proof cases
    case eq
    have nc: "\<not> part_covers xs y" using xs eq part_coversD by (force simp: list_all_iff)
    have "list_all (part_covers (x # xs)) ys = list_all (part_covers xs) ys"
      using ys eq by (auto simp: list_all_iff)
    with nc eq have cover: "list_all (part_covers (x # xs)) (y # ys) \<longleftrightarrow>
        (part_wildcard y \<or> part_value x = part_value y) \<and> list_all (part_covers xs) ys"
      by (simp only: list.pred_inject part_covers_simps) blast
    have names: "list_all (\<lambda>z. part_name z \<in> part_name ` set (y # ys)) (x # xs) =
        list_all (\<lambda>z. part_name z \<in> part_name ` set ys) xs"
      using xs eq by (fastforce simp: list_all_iff)
    show ?thesis unfolding cover names using 1(1,2,4-6) eq by (auto split: option.splits)
  next
    case skip
    with 1(3-6) have IH: "match_loop xs (y # ys) w = Inr (if list_all (part_covers xs) (y # ys) then 0 else 1)"
      by simp
    have cover: "list_all (part_covers (x # xs)) (y # ys) = list_all (part_covers xs) (y # ys)"
    proof
      assume l: "list_all (part_covers (x # xs)) (y # ys)"
      with skip have "part_covers xs y" by simp
      from part_coversD [OF this] obtain z where "z \<in> set xs" "part_name z = part_name y" by auto
      with 1(4) have "part_name x < part_name y" by auto
      with 1(5) have "list_all (\<lambda>z. part_name x \<noteq> part_name z) (y # ys)" by (auto simp: list_all_iff)
      with l show "list_all (part_covers xs) (y # ys)" by (auto simp: list_all_iff)
    qed (auto simp: list_all_iff)
    show ?thesis unfolding cover using IH skip by simp
  next
    case stop
    have "\<not> (list_all (part_covers (x # xs)) (y # ys) \<and>
        list_all (\<lambda>x. part_name x \<in> part_name ` set (y # ys)) (x # xs))"
    proof
      assume a: "list_all (part_covers (x # xs)) (y # ys) \<and>
        list_all (\<lambda>x. part_name x \<in> part_name ` set (y # ys)) (x # xs)"
      with stop have "part_covers xs y" "part_name x \<in> part_name ` set ys" by auto
      with part_coversD [OF this(1)] 1(4,5) have "part_name x < part_name y" "part_name y < part_name x" by auto
      then show False by simp
    qed
    with stop show ?thesis by (simp del: part_covers_simps)
  qed
qed (auto simp: list_all_iff)

text \<open>What \<open>bolo_name_parse\<close> makes: parts in key order, each with a value.\<close>

lemma parse_parts:
  assumes "bolo_name_parse s = Some q"
  shows "list_all part_ok (name_parts q)" "sorted (map part_name (name_parts q))"
proof -
  have "list_all part_ok (name_parts q) \<and> sorted (map part_name (name_parts q))"
  proof (cases "s = []")
    case True
    with assms show ?thesis by (auto simp: bolo_name_parse_def)
  next
    case False
    then obtain w ps where l: "name_loop s = Some (w, ps)" and q: "name_parts q = sort_key part_name ps"
      using assms by (auto simp: bolo_name_parse_def)
    from name_loop_ok [OF l] show ?thesis by (simp add: q list_all_iff)
  qed
  then show "list_all part_ok (name_parts q)" "sorted (map part_name (name_parts q))" by simp_all
qed

text \<open>
  C21: on two names without repeated keys \<open>bolo_name_match\<close>, which walks
  both sorted lists at once, returns 0 exactly when the pattern covers the name, and 1
  otherwise; it never reads a missing value.
\<close>

theorem name_match_spec:
  assumes "bolo_name_parse s = Some a" "bolo_name_parse t = Some b"
    and "distinct (map part_name (name_parts a))" "distinct (map part_name (name_parts b))"
  shows "bolo_name_match a b = Inr (if name_covers a b then 0 else 1)"
proof -
  have "part_sorted (name_parts a)" "part_sorted (name_parts b)"
    using assms(3,4) parse_parts(2) [OF assms(1)] parse_parts(2) [OF assms(2)] by (simp_all add: part_sorted_iff)
  moreover have "list_all (\<lambda>p. part_value p \<noteq> None) (name_parts a @ name_parts b)"
    using parse_parts(1) [OF assms(1)] parse_parts(1) [OF assms(2)] by (auto simp: list_all_iff dest: part_ok_value)
  ultimately show ?thesis
    by (auto simp: bolo_name_match_def name_covers_def match_loop_spec)
qed

theorem name_match_spec_witness:
  "bolo_name_match
     \<lparr>name_wildcard = False, name_parts = [\<lparr>part_name = ''a'', part_value = Some ''x'', part_wildcard = False\<rparr>,
        \<lparr>part_name = ''b'', part_value = Some ''y'', part_wildcard = False\<rparr>]\<rparr>
     \<lparr>name_wildcard = True, name_parts = [\<lparr>part_name = ''b'', part_value = Some ''*'', part_wildcard = True\<rparr>]\<rparr> = Inr 0"
  by (subst name_match_spec [of "''b=y,a=x''" _ "''b=*,*''"])
    (simp_all add: bolo_name_parse_def name_loop.simps name_covers_def)

section \<open>Updating\<close>

definition name_get :: "name_t \<Rightarrow> string \<Rightarrow> string option option" where
  "name_get n key = map_option part_value (find (\<lambda>p. part_name p = key) (name_parts n))"

definition name_sorted :: "name_t \<Rightarrow> bool" where
  "name_sorted n \<longleftrightarrow> part_sorted (name_parts n)"

lemma set_value_None: "set_value key v ps = None \<longleftrightarrow> key \<notin> part_name ` set ps"
  by (induction ps) auto

lemma set_value_names: "set_value key v ps = Some qs \<Longrightarrow> map part_name qs = map part_name ps"
  by (induction ps arbitrary: qs) (auto split: if_splits)

lemma set_value_find:
  "set_value key v ps = Some qs \<Longrightarrow> map_option part_value (find (\<lambda>p. part_name p = k) qs) =
     (if k = key then Some v else map_option part_value (find (\<lambda>p. part_name p = k) ps))"
  by (induction ps arbitrary: qs) (auto split: if_splits)

lemma find_distinct:
  "distinct (map part_name ps) \<Longrightarrow> p \<in> set ps \<Longrightarrow> find (\<lambda>q. part_name q = part_name p) ps = Some p"
  by (induction ps) auto

lemma find_name_cong:
  assumes "distinct (map part_name ps)" "distinct (map part_name qs)" "set ps = set qs"
  shows "find (\<lambda>p. part_name p = k) ps = find (\<lambda>p. part_name p = k) qs"
proof (cases "find (\<lambda>p. part_name p = k) ps")
  case None
  with assms(3) have "find (\<lambda>p. part_name p = k) qs = None" by (simp add: find_None_iff)
  with None show ?thesis by simp
next
  case (Some p)
  then have "p \<in> set ps" "part_name p = k" by (auto simp: find_Some_iff)
  with assms find_distinct [of qs p] Some show ?thesis by simp
qed

lemma find_name_None: "find (\<lambda>p. part_name p = k) ps = None \<longleftrightarrow> k \<notin> part_name ` set ps"
  by (auto simp: find_None_iff image_iff)

lemma remove_part_find:
  "distinct (map part_name ps) \<Longrightarrow> find (\<lambda>p. part_name p = k) (remove_part key ps) =
     (if k = key then None else find (\<lambda>p. part_name p = k) ps)"
proof (induction ps)
  case (Cons a ps)
  then have "k = part_name a \<Longrightarrow> find (\<lambda>p. part_name p = k) ps = None" by (simp add: find_name_None)
  with Cons show ?case by auto
qed simp

lemma remove_part_sorted: "part_sorted ps \<Longrightarrow> part_sorted (remove_part key ps) \<and> set (remove_part key ps) \<subseteq> set ps"
  by (induction ps) auto

lemma set_sorted_new:
  assumes "part_sorted ps" "part_name p \<notin> part_name ` set ps"
  shows "part_sorted (sort_key part_name (ps @ [p]))"
proof -
  have "set (sort_key part_name (ps @ [p])) = insert p (set ps)" by simp
  moreover have "distinct (map part_name (sort_key part_name (ps @ [p])))"
    using assms by (auto simp: part_sorted_iff distinct_map)
  ultimately show ?thesis by (simp add: part_sorted_iff)
qed

text \<open>
  C22: on a name with sorted, distinct keys \<open>bolo_name_set\<close> gives its key the
  value (none for \<open>*\<close>) and \<open>bolo_name_unset\<close> removes its key; both leave every
  other key alone and keep the keys sorted and distinct.
\<close>

theorem name_update:
  assumes "name_sorted n"
  shows "name_get (bolo_name_set n key value) k =
      (if k = key then Some (if value = Some ''*'' then None else value) else name_get n k) \<and>
    name_get (bolo_name_unset n key) k = (if k = key then None else name_get n k) \<and>
    name_sorted (bolo_name_set n key value) \<and> name_sorted (bolo_name_unset n key)"
proof -
  note ps = assms [unfolded name_sorted_def]
  define v where "v = (if value = None \<or> value = Some ''*'' then None else value)"
  let ?p = "\<lparr>part_name = key, part_value = v, part_wildcard = (value = None \<or> value = Some ''*'')\<rparr>"
  have "name_get (bolo_name_set n key value) k = (if k = key then Some v else name_get n k) \<and>
    name_sorted (bolo_name_set n key value)"
  proof (cases "set_value key v (name_parts n)")
    case None
    then have key: "key \<notin> part_name ` set (name_parts n)" by (simp add: set_value_None)
    have s: "bolo_name_set n key value = n\<lparr>name_parts := sort_key part_name (name_parts n @ [?p])\<rparr>"
      using None by (simp add: bolo_name_set_def v_def Let_def)
    have sorted: "part_sorted (sort_key part_name (name_parts n @ [?p]))" by (rule set_sorted_new [OF ps]) (simp add: key)
    have "find (\<lambda>p. part_name p = k) (sort_key part_name (name_parts n @ [?p])) =
        find (\<lambda>p. part_name p = k) (name_parts n @ [?p])"
      using sorted ps key by (intro find_name_cong) (auto simp: part_sorted_iff)
    moreover have "find (\<lambda>p. part_name p = key) (name_parts n) = None" using key by (simp add: find_name_None)
    ultimately show ?thesis using sorted
      by (auto simp: s name_get_def name_sorted_def find_snoc split: option.splits)
  next
    case (Some qs)
    then have "bolo_name_set n key value = n\<lparr>name_parts := qs\<rparr>"
      by (simp add: bolo_name_set_def v_def Let_def)
    with ps set_value_find [OF Some] set_value_names [OF Some] show ?thesis
      by (simp add: name_get_def name_sorted_def part_sorted_iff)
  qed
  moreover have "name_get (bolo_name_unset n key) k = (if k = key then None else name_get n k) \<and> name_sorted (bolo_name_unset n key)"
    using ps remove_part_find [of "name_parts n" k key] remove_part_sorted [OF ps, of key]
    by (simp add: name_get_def bolo_name_unset_def name_sorted_def part_sorted_iff)
  ultimately show ?thesis by (auto simp: v_def)
qed

theorem name_update_witness:
  "name_get (bolo_name_set \<lparr>name_wildcard = False, name_parts =
      [\<lparr>part_name = ''b'', part_value = Some ''y'', part_wildcard = False\<rparr>]\<rparr> ''a'' (Some ''x'')) ''a'' = Some (Some ''x'')"
  using name_update [of "\<lparr>name_wildcard = False, name_parts =
      [\<lparr>part_name = ''b'', part_value = Some ''y'', part_wildcard = False\<rparr>]\<rparr>" "''a''" "Some ''x''" "''a''"]
  by (simp add: name_sorted_def)

lemma parts_text_missing: "\<exists>p \<in> set ps. part_value p = None \<Longrightarrow> parts_text ps = Inl NullDeref"
proof (induction ps)
  case (Cons p ps)
  then show ?case by (cases "part_value p") auto
qed simp

lemma set_value_missing: "set_value key None ps = Some qs \<Longrightarrow> \<exists>p \<in> set qs. part_value p = None"
  by (induction ps arbitrary: qs) (auto split: if_splits)

text \<open>
  Note: \<open>bolo_name_set\<close> with the value \<open>*\<close> stores a null pointer, which
  \<open>bolo_name_string\<close> then passes to \<open>strlen\<close>: whatever the name, printing the result
  faults.
\<close>

theorem name_star_fault: "bolo_name_string (bolo_name_set n key (Some ''*'')) = Inl NullDeref"
proof -
  have "\<exists>p \<in> set (name_parts (bolo_name_set n key (Some ''*''))). part_value p = None"
    by (auto simp: bolo_name_set_def Let_def dest: set_value_missing split: option.splits)
  then show ?thesis by (simp add: bolo_name_string_def parts_text_missing)
qed

end
