(* ===== verification/Bolo_Data.thy ===== *)
theory Bolo_Data
  imports Bolo_Prelude
begin

text \<open>
  The data model of the aggregator (\<open>src/src/bolo.h\<close>) and the operations on
  samples, counters and rates and the four lookups of \<open>src/src/data.c\<close>.

  A \<open>type_t *\<close> or \<open>window_t *\<close> held by a state, a counter, a sample, a rate or
  a matching rule is modelled by the value it points to: a type or window is not
  written any more once an object that refers to it exists.
\<close>

section \<open>Records of \<open>bolo.h\<close>\<close>

abbreviation (input) OK :: byte where "OK \<equiv> 0"
abbreviation (input) WARNING :: byte where "WARNING \<equiv> 1"
abbreviation (input) CRITICAL :: byte where "CRITICAL \<equiv> 2"
abbreviation (input) UNKNOWN :: byte where "UNKNOWN \<equiv> 3"
abbreviation (input) PENDING :: byte where "PENDING \<equiv> 4"

record type_t =
  type_name :: string
  freshness :: "16 word"
  type_status :: byte
  type_summary :: "string option"

record window_t =
  window_name :: "string option"
  window_time :: "32 word"

record state_t =
  state_type :: type_t
  state_name :: string
  state_last_seen :: "32 word"
  state_expiry :: "32 word"
  state_status :: byte
  state_summary :: string
  state_stale :: byte
  state_ignore :: byte

record counter_t =
  counter_window :: window_t
  counter_name :: string
  counter_last_seen :: "32 word"
  counter_value :: "64 word"
  counter_ignore :: byte

record sample_t =
  sample_window :: window_t
  sample_name :: string
  sample_last_seen :: "32 word"
  sample_n :: "64 word"
  sample_min :: real
  sample_max :: real
  sample_sum :: real
  sample_mean :: real
  sample_mean' :: real
  sample_var :: real
  sample_var' :: real
  sample_ignore :: byte

record rate_t =
  rate_window :: window_t
  rate_name :: string
  rate_first_seen :: "32 word"
  rate_last_seen :: "32 word"
  rate_first :: "64 word"
  rate_last :: "64 word"
  rate_ignore :: byte

record re_state_t =
  re_state_type :: type_t
  re_state_re :: string

record re_window_t =
  re_window :: window_t
  re_re :: string

record event_t =
  event_timestamp :: "32 word"
  event_name :: string
  event_extra :: string

record db_t =
  states :: "(string, state_t) fmap"
  counters :: "(string, counter_t) fmap"
  samples :: "(string, sample_t) fmap"
  rates :: "(string, rate_t) fmap"
  events :: "event_t list"
  events_count :: "32 word"
  state_matches :: "re_state_t list"
  counter_matches :: "re_window_t list"
  sample_matches :: "re_window_t list"
  rate_matches :: "re_window_t list"
  types :: "(string, type_t) fmap"
  windows :: "(string, window_t) fmap"
  anon_windows :: "window_t list"

definition empty_db :: db_t where
  "empty_db = \<lparr>states = fmempty, counters = fmempty, samples = fmempty, rates = fmempty, events = [],
     events_count = 0, state_matches = [], counter_matches = [], sample_matches = [], rate_matches = [],
     types = fmempty, windows = fmempty, anon_windows = []\<rparr>"

record config_t =
  c_listener :: "string option"
  c_controller :: "string option"
  c_broadcast :: "string option"
  c_beacon :: "string option"
  c_nsca_port :: "16 word"
  c_log_level :: "string option"
  c_log_facility :: "string option"
  c_pidfile :: "string option"
  c_runas_user :: "string option"
  c_runas_group :: "string option"
  c_savefile :: "string option"
  c_keysfile :: "string option"
  c_save_size :: "32 word"
  c_interval :: "32 word"
  c_events_max :: "32 word"
  c_events_keep :: "32 word"
  c_grace_period :: "32 word"

record interval_t =
  i_tick :: "16 word"
  i_freshness :: "16 word"
  i_sweep :: "16 word"
  i_savestate :: "16 word"

text \<open>A key that was deleted stays in the table with a null value, here \<open>None\<close>.\<close>

record server_t =
  s_db :: db_t
  s_keys :: "(string, string option) fmap"
  s_config :: config_t
  s_interval :: interval_t

text \<open>
  What a handler of the kernel sends and writes: PDUs on the broadcast and beacon
  sockets, the reply to a request, the save file (its bytes and its size), the
  flush of the save file, and the keys file.
\<close>

datatype effect =
    Broadcast pdu
  | Beacon pdu
  | Reply pdu
  | SaveDb string string nat
  | SyncDb string
  | SaveKeys string string

section \<open>Samples, counters and rates\<close>

definition sample_reset :: "sample_t \<Rightarrow> sample_t" where
  "sample_reset s = s\<lparr>sample_last_seen := 0, sample_min := 0, sample_max := 0, sample_sum := 0,
     sample_n := 0, sample_mean := 0, sample_mean' := 0, sample_var := 0, sample_var' := 0\<rparr>"

definition sample_data :: "sample_t \<Rightarrow> real \<Rightarrow> sample_t" where
  "sample_data s v =
     (let s1 = (if sample_n s = 0 then s\<lparr>sample_min := v, sample_max := v\<rparr>
                else s\<lparr>sample_min := (if v < sample_min s then v else sample_min s),
                       sample_max := (if v > sample_max s then v else sample_max s)\<rparr>);
          n = sample_n s1 + 1;
          mean0 = sample_mean s1;
          mean = mean0 + (v - mean0) / real (unat n);
          var0 = sample_var s1;
          var = (real (unat (n - 1)) * var0 + (v - mean0) * (v - mean)) / real (unat n)
      in s1\<lparr>sample_sum := sample_sum s1 + v, sample_n := n, sample_mean' := mean0,
            sample_mean := mean, sample_var' := var0, sample_var := var\<rparr>)"

definition counter_reset :: "counter_t \<Rightarrow> counter_t" where
  "counter_reset c = c\<lparr>counter_last_seen := 0, counter_value := 0\<rparr>"

definition rate_reset :: "rate_t \<Rightarrow> rate_t" where
  "rate_reset r = r\<lparr>rate_first_seen := 0, rate_last_seen := 0, rate_first := 0, rate_last := 0\<rparr>"

definition rate_data :: "rate_t \<Rightarrow> 64 word \<Rightarrow> rate_t" where
  "rate_data r v =
     (let r1 = r\<lparr>rate_last := v\<rparr>
      in if rate_last_seen r1 = 0 then r1\<lparr>rate_first := v\<rparr> else r1)"

definition rate_diff :: "rate_t \<Rightarrow> 64 word" where
  "rate_diff r =
     (if rate_first r \<le> rate_last r then rate_last r - rate_first r
      else if rate_first r < 0xffff then 0xffff - rate_first r + rate_last r
      else 0xffffffff - rate_first r + rate_last r)"

text \<open>
  \<open>diff * 1.0 / (last_seen - first_seen) * span\<close>: the difference of the two
  times is an \<open>int\<close>; when it is zero the quotient is no real number.
\<close>

definition rate_calc :: "rate_t \<Rightarrow> 32 word \<Rightarrow> dval" where
  "rate_calc r secs =
     (if rate_last_seen r = 0 then Finite 0
      else let d = sint (rate_last_seen r - rate_first_seen r)
           in if d = 0 then (if rate_diff r = 0 then NotANumber else Infinite)
              else Finite (real (unat (rate_diff r)) / real_of_int d * real_of_int (sint secs)))"

section \<open>Lookups\<close>

text \<open>
  The entry of that name, or a new one made by the first rule whose pattern
  matches the name. The second component is the database after the call.
\<close>

definition new_state :: "env \<Rightarrow> re_state_t \<Rightarrow> string \<Rightarrow> state_t" where
  "new_state E re name = \<lparr>state_type = re_state_type re, state_name = name, state_last_seen = 0,
     state_expiry = ucast (freshness (re_state_type re)) + time_s E, state_status = PENDING,
     state_summary = ''(state is pending results)'', state_stale = 0, state_ignore = 0\<rparr>"

definition find_state :: "env \<Rightarrow> db_t \<Rightarrow> string \<Rightarrow> state_t option \<times> db_t" where
  "find_state E db name =
     (case fmlookup (states db) name of
        Some x \<Rightarrow> (Some x, db)
      | None \<Rightarrow>
          (case find (\<lambda>re. pcre_exec E (re_state_re re) name = 0) (state_matches db) of
             None \<Rightarrow> (None, db)
           | Some re \<Rightarrow>
               let x = new_state E re name
               in (Some x, db\<lparr>states := fmupd name x (states db)\<rparr>)))"

definition new_counter :: "re_window_t \<Rightarrow> string \<Rightarrow> counter_t" where
  "new_counter re name = \<lparr>counter_window = re_window re, counter_name = name,
     counter_last_seen = 0, counter_value = 0, counter_ignore = 0\<rparr>"

definition find_counter :: "env \<Rightarrow> db_t \<Rightarrow> string \<Rightarrow> counter_t option \<times> db_t" where
  "find_counter E db name =
     (case fmlookup (counters db) name of
        Some x \<Rightarrow> (Some x, db)
      | None \<Rightarrow>
          (case find (\<lambda>re. pcre_exec E (re_re re) name = 0) (counter_matches db) of
             None \<Rightarrow> (None, db)
           | Some re \<Rightarrow>
               let x = new_counter re name
               in (Some x, db\<lparr>counters := fmupd name x (counters db)\<rparr>)))"

definition new_sample :: "re_window_t \<Rightarrow> string \<Rightarrow> sample_t" where
  "new_sample re name = \<lparr>sample_window = re_window re, sample_name = name,
     sample_last_seen = 0, sample_n = 0, sample_min = 0, sample_max = 0, sample_sum = 0,
     sample_mean = 0, sample_mean' = 0, sample_var = 0, sample_var' = 0, sample_ignore = 0\<rparr>"

definition find_sample :: "env \<Rightarrow> db_t \<Rightarrow> string \<Rightarrow> sample_t option \<times> db_t" where
  "find_sample E db name =
     (case fmlookup (samples db) name of
        Some x \<Rightarrow> (Some x, db)
      | None \<Rightarrow>
          (case find (\<lambda>re. pcre_exec E (re_re re) name = 0) (sample_matches db) of
             None \<Rightarrow> (None, db)
           | Some re \<Rightarrow>
               let x = new_sample re name
               in (Some x, db\<lparr>samples := fmupd name x (samples db)\<rparr>)))"

definition new_rate :: "re_window_t \<Rightarrow> string \<Rightarrow> rate_t" where
  "new_rate re name = \<lparr>rate_window = re_window re, rate_name = name, rate_first_seen = 0,
     rate_last_seen = 0, rate_first = 0, rate_last = 0, rate_ignore = 0\<rparr>"

definition find_rate :: "env \<Rightarrow> db_t \<Rightarrow> string \<Rightarrow> rate_t option \<times> db_t" where
  "find_rate E db name =
     (case fmlookup (rates db) name of
        Some x \<Rightarrow> (Some x, db)
      | None \<Rightarrow>
          (case find (\<lambda>re. pcre_exec E (re_re re) name = 0) (rate_matches db) of
             None \<Rightarrow> (None, db)
           | Some re \<Rightarrow>
               let x = new_rate re name
               in (Some x, db\<lparr>rates := fmupd name x (rates db)\<rparr>)))"

section \<open>The contract of the lookups\<close>

text \<open>
  The four lookups keep one contract: a table of entries, an ordered list of
  rules with a pattern each, and the entry a rule makes for a name. The laws say
  what a lookup returns on each of its three paths; the lemmas are what the
  handlers rely on.
\<close>

locale rule_table =
  fixes table :: "db_t \<Rightarrow> (string, 'v) fmap"
    and put :: "(string, 'v) fmap \<Rightarrow> db_t \<Rightarrow> db_t"
    and rules :: "db_t \<Rightarrow> 'r list"
    and pattern :: "'r \<Rightarrow> string"
    and fresh :: "env \<Rightarrow> 'r \<Rightarrow> string \<Rightarrow> 'v"
    and lookup :: "env \<Rightarrow> db_t \<Rightarrow> string \<Rightarrow> 'v option \<times> db_t"
  assumes lookup_known: "fmlookup (table db) n = Some x \<Longrightarrow> lookup E db n = (Some x, db)"
    and lookup_none: "fmlookup (table db) n = None \<Longrightarrow>
      find (\<lambda>r. pcre_exec E (pattern r) n = 0) (rules db) = None \<Longrightarrow> lookup E db n = (None, db)"
    and lookup_new: "fmlookup (table db) n = None \<Longrightarrow>
      find (\<lambda>r. pcre_exec E (pattern r) n = 0) (rules db) = Some r \<Longrightarrow>
      lookup E db n = (Some (fresh E r n), put (fmupd n (fresh E r n) (table db)) db)"
    and table_put: "table (put t db) = t"
    and put_table: "put (table db) db = db"
    and put_put: "put t (put t' db) = put t db"
    and rules_put: "rules (put t db) = rules db"
begin

lemma lookup_cases:
  obtains (known) x where "fmlookup (table db) n = Some x" "lookup E db n = (Some x, db)"
  | (none) "fmlookup (table db) n = None" "lookup E db n = (None, db)"
      "\<And>r. r \<in> set (rules db) \<Longrightarrow> pcre_exec E (pattern r) n \<noteq> 0"
  | (new) r where "fmlookup (table db) n = None" "r \<in> set (rules db)"
      "pcre_exec E (pattern r) n = 0"
      "lookup E db n = (Some (fresh E r n), put (fmupd n (fresh E r n) (table db)) db)"
proof (cases "fmlookup (table db) n")
  case (Some x)
  then show ?thesis using known lookup_known by blast
next
  case None
  show ?thesis
  proof (cases "find (\<lambda>r. pcre_exec E (pattern r) n = 0) (rules db)")
    case f: None
    then have "\<And>r. r \<in> set (rules db) \<Longrightarrow> pcre_exec E (pattern r) n \<noteq> 0"
      by (auto simp: find_None_iff)
    with None f show ?thesis by (intro none lookup_none)
  next
    case (Some r)
    then have "r \<in> set (rules db)" and "pcre_exec E (pattern r) n = 0"
      by (auto simp: find_Some_iff)
    with None Some show ?thesis using new lookup_new by blast
  qed
qed

lemma lookup_frame:
  assumes "lookup E db n = (r, db')"
  obtains t where "db' = put t db" and "fmlookup t n = r"
    and "\<And>m. m \<noteq> n \<Longrightarrow> fmlookup t m = fmlookup (table db) m"
  using assms
proof (cases rule: lookup_cases [of db n E])
  case (known x)
  with assms that [of "table db"] show ?thesis by (auto simp: put_table)
next
  case none
  with assms that [of "table db"] show ?thesis by (auto simp: put_table)
next
  case (new q)
  with assms that [of "fmupd n (fresh E q n) (table db)"] show ?thesis by auto
qed

lemma lookup_rules: "lookup E db n = (r, db') \<Longrightarrow> rules db' = rules db"
  by (elim lookup_frame) (simp add: rules_put)

lemma lookup_stored: "lookup E db n = (Some x, db') \<Longrightarrow> fmlookup (table db') n = Some x"
  by (elim lookup_frame) (simp add: table_put)

lemma lookup_again: "lookup E db n = (Some x, db') \<Longrightarrow> lookup E' db' n = (Some x, db')"
  by (intro lookup_known lookup_stored)

lemma lookup_None_unchanged: "lookup E db n = (None, db') \<Longrightarrow> db' = db"
  by (cases rule: lookup_cases [of db n E]) auto

lemma lookup_invariant:
  assumes "lookup E db n = (r, db')"
    and "\<And>k v. fmlookup (table db) k = Some v \<Longrightarrow> ok k v"
    and "\<And>q. q \<in> set (rules db) \<Longrightarrow> ok n (fresh E q n)"
  shows "fmlookup (table db') k = Some v \<Longrightarrow> ok k v" and "r = Some x \<Longrightarrow> ok n x"
proof -
  have "(\<forall>k v. fmlookup (table db') k = Some v \<longrightarrow> ok k v) \<and> (\<forall>x. r = Some x \<longrightarrow> ok n x)"
    using assms by (cases rule: lookup_cases [of db n E]) (auto simp: table_put split: if_splits)
  then show "fmlookup (table db') k = Some v \<Longrightarrow> ok k v" and "r = Some x \<Longrightarrow> ok n x"
    by blast+
qed

end

interpretation state_rules: rule_table states "\<lambda>t db. db\<lparr>states := t\<rparr>" state_matches re_state_re
  new_state find_state
  by unfold_locales (auto simp: find_state_def Let_def)

interpretation counter_rules: rule_table counters "\<lambda>t db. db\<lparr>counters := t\<rparr>" counter_matches re_re
  "\<lambda>_. new_counter" find_counter
  by unfold_locales (auto simp: find_counter_def Let_def)

interpretation sample_rules: rule_table samples "\<lambda>t db. db\<lparr>samples := t\<rparr>" sample_matches re_re
  "\<lambda>_. new_sample" find_sample
  by unfold_locales (auto simp: find_sample_def Let_def)

interpretation rate_rules: rule_table rates "\<lambda>t db. db\<lparr>rates := t\<rparr>" rate_matches re_re
  "\<lambda>_. new_rate" find_rate
  by unfold_locales (auto simp: find_rate_def Let_def)

lemma uint64_less_iff: "(a :: 64 word) < b \<longleftrightarrow> uint a < uint b" "a \<le> b \<longleftrightarrow> uint a \<le> uint b"
  by (simp_all add: word_less_alt word_le_def)

text \<open>
  The difference a rate is computed from. An increasing pair gives the
  exact difference. A decreasing pair is treated as one that wrapped at 65535
  when the first value is below that, and at \<open>2^32 - 1\<close> otherwise (modulo
  \<open>2^64\<close> when the first value is larger still); the counter widths the code
  names, 32 and 64 bits, are not the ones it uses.
\<close>

lemma rate_diff_cases:
  assumes "f = uint (rate_first r)" and "l = uint (rate_last r)"
  shows "uint (rate_diff r) =
    (if f \<le> l then l - f
     else if f < 65535 then 65535 - f + l
     else if f < 2 ^ 32 then 2 ^ 32 - 1 - f + l
     else (2 ^ 32 - 1 - f + l) mod 2 ^ 64)"
proof -
  have b: "0 \<le> f" "f < 2 ^ 64" "0 \<le> l" "l < 2 ^ 64"
    using assms uint_lt2p [of "rate_first r"] uint_lt2p [of "rate_last r"] by auto
  have d: "uint (c - rate_first r + rate_last r) = (uint c - f + l) mod 2 ^ 64" for c
    by (simp add: uint_word_ariths assms mod_simps)
  have s: "uint (rate_last r - rate_first r) = (l - f) mod 2 ^ 64"
    by (simp add: uint_word_ariths assms)
  show ?thesis
    using b unfolding rate_diff_def uint64_less_iff assms [symmetric]
    by (auto simp: d s)
qed
section \<open>Samples: the running statistics\<close>

definition sample_ok :: "sample_t \<Rightarrow> real list \<Rightarrow> bool" where
  "sample_ok s vs \<longleftrightarrow> sample_n s = of_nat (length vs) \<and> sample_sum s = sum_list vs \<and>
     (vs \<noteq> [] \<longrightarrow> sample_min s = Min (set vs) \<and> sample_max s = Max (set vs)) \<and>
     real (length vs) * sample_mean s = sum_list vs \<and>
     real (length vs) * sample_var s =
       (\<Sum>v\<leftarrow>vs. v\<^sup>2) - real (length vs) * (sample_mean s)\<^sup>2"

lemma sample_reset_ok: "sample_ok (sample_reset s) []"
  by (simp add: sample_ok_def sample_reset_def)

lemma welford_step:
  fixes n m m' v w q S :: real
  assumes n: "0 \<le> n" and S: "n * m = S" and w: "n * w = q - n * m\<^sup>2"
    and m': "m' = m + (v - m) / (n + 1)"
  shows "(n + 1) * m' = S + v"
    and "(n + 1) * ((n * w + (v - m) * (v - m')) / (n + 1)) = q + v\<^sup>2 - (n + 1) * m'\<^sup>2"
proof -
  have n1: "n + 1 \<noteq> 0" using n by linarith
  have e: "(n + 1) * m' = n * m + v"
    using n1 by (simp add: m' field_simps)
  then show "(n + 1) * m' = S + v" using S by simp
  have "(n + 1) * ((n * w + (v - m) * (v - m')) / (n + 1)) = n * w + (v - m) * (v - m')"
    using n1 by simp
  also have "\<dots> = q - n * m\<^sup>2 + (v - m) * (v - m')" using w by simp
  also have "\<dots> = q + v\<^sup>2 - (n + 1) * m'\<^sup>2"
    using e by algebra
  finally show "(n + 1) * ((n * w + (v - m) * (v - m')) / (n + 1)) = q + v\<^sup>2 - (n + 1) * m'\<^sup>2" .
qed

lemma sample_data_ok:
  assumes "sample_ok s vs" and "Suc (length vs) < 2 ^ 64"
  shows "sample_ok (sample_data s v) (vs @ [v])"
proof -
  let ?n = "real (length vs)"
  let ?s = "sample_data s v"
  from assms have n: "sample_n s = of_nat (length vs)" and sum: "sample_sum s = sum_list vs"
    and m: "?n * sample_mean s = sum_list vs"
    and w: "?n * sample_var s = (\<Sum>v\<leftarrow>vs. v\<^sup>2) - ?n * (sample_mean s)\<^sup>2"
    by (auto simp: sample_ok_def)
  have us: "unat (of_nat k :: 64 word) = k" if "k < 2 ^ 64" for k :: nat
    using that by (subst unat_of_nat) simp
  have u: "real (unat (of_nat (length vs) + 1 :: 64 word)) = ?n + 1"
    using us [of "Suc (length vs)"] assms(2) by (simp add: add.commute)
  have u': "unat (of_nat (length vs) :: 64 word) = length vs"
    using us [of "length vs"] assms(2) by simp
  have zero: "sample_n s = 0 \<longleftrightarrow> vs = []"
  proof
    assume "sample_n s = 0"
    with n u' show "vs = []" by simp
  qed (simp add: n)
  have mean: "sample_mean ?s = sample_mean s + (v - sample_mean s) / (?n + 1)"
    using n u zero by (cases "vs = []") (simp_all add: sample_data_def Let_def)
  have var: "sample_var ?s =
      (?n * sample_var s + (v - sample_mean s) * (v - sample_mean ?s)) / (?n + 1)"
    using n u u' zero by (cases "vs = []") (simp_all add: sample_data_def Let_def)
  have mm: "sample_min ?s = (if vs = [] then v else min v (sample_min s))"
      "sample_max ?s = (if vs = [] then v else max v (sample_max s))"
    using zero by (auto simp: sample_data_def Let_def min_def max_def)
  note step = welford_step [OF _ m w mean, folded var]
  have "sample_n ?s = of_nat (length (vs @ [v]))" and "sample_sum ?s = sum_list (vs @ [v])"
    by (simp_all add: sample_data_def Let_def n sum)
  moreover have "sample_min ?s = Min (set (vs @ [v]))" "sample_max ?s = Max (set (vs @ [v]))"
    using assms(1) mm by (simp_all add: sample_ok_def)
  moreover have "real (length (vs @ [v])) * sample_mean ?s = sum_list (vs @ [v])"
    using step(1) by (simp add: add.commute)
  moreover have "real (length (vs @ [v])) * sample_var ?s =
      (\<Sum>v\<leftarrow>vs @ [v]. v\<^sup>2) - real (length (vs @ [v])) * (sample_mean ?s)\<^sup>2"
    using step(2) by (simp add: add.commute)
  ultimately show ?thesis by (simp add: sample_ok_def)
qed

lemma sample_run_ok:
  "sample_ok s us \<Longrightarrow> length us + length vs < 2 ^ 64 \<Longrightarrow> sample_ok (foldl sample_data s vs) (us @ vs)"
proof (induction vs arbitrary: s us)
  case (Cons v vs)
  then have "sample_ok (sample_data s v) (us @ [v])" by (intro sample_data_ok) auto
  from Cons.IH [OF this] Cons.prems show ?case by simp
qed simp

lemma sum_sq_dev:
  assumes "real (length vs) * m = sum_list vs"
  shows "(\<Sum>v\<leftarrow>vs. (v - m)\<^sup>2) = (\<Sum>v\<leftarrow>vs. v\<^sup>2) - real (length vs) * m\<^sup>2"
proof -
  have "(\<Sum>v\<leftarrow>vs. (v - m)\<^sup>2) = (\<Sum>v\<leftarrow>vs. v\<^sup>2) - 2 * m * sum_list vs + real (length vs) * m\<^sup>2"
    by (induction vs) (simp_all add: power2_eq_square algebra_simps)
  also have "\<dots> = (\<Sum>v\<leftarrow>vs. v\<^sup>2) - real (length vs) * m\<^sup>2"
    by (simp add: assms [symmetric] power2_eq_square algebra_simps)
  finally show ?thesis .
qed

text \<open>
  C5: after a reset and any sequence of submissions a sample holds their
  number, sum, minimum, maximum, mean and (population) variance.
\<close>

theorem sample_statistics:
  assumes "vs \<noteq> []" and "length vs < 2 ^ 64"
    and "s' = foldl sample_data (sample_reset s) vs"
    and "m = sum_list vs / real (length vs)"
  shows "unat (sample_n s') = length vs \<and> sample_sum s' = sum_list vs \<and>
    sample_min s' = Min (set vs) \<and> sample_max s' = Max (set vs) \<and> sample_mean s' = m \<and>
    sample_var s' = (\<Sum>v\<leftarrow>vs. (v - m)\<^sup>2) / real (length vs)"
proof -
  have ok: "sample_ok s' vs"
    using sample_run_ok [OF sample_reset_ok, of vs s] assms by simp
  have l: "real (length vs) \<noteq> 0" using assms(1) by simp
  from ok have mean: "sample_mean s' = m"
    using l by (simp add: sample_ok_def assms(4) field_simps)
  moreover have "sample_var s' = (\<Sum>v\<leftarrow>vs. (v - m)\<^sup>2) / real (length vs)"
    using ok l sum_sq_dev [of vs m] mean by (simp add: sample_ok_def field_simps)
  moreover have "unat (sample_n s') = length vs"
    using ok assms(2) by (simp add: sample_ok_def unat_of_nat)
  ultimately show ?thesis using ok assms(1) by (simp add: sample_ok_def)
qed

theorem sample_statistics_witness:
  "let s' = foldl sample_data (sample_reset (new_sample \<lparr>re_window = \<lparr>window_name = None, window_time = 60\<rparr>,
      re_re = ''x''\<rparr> ''x'')) [2, 4, 9]
   in sample_min s' = 2 \<and> sample_max s' = 9 \<and> sample_mean s' = 5 \<and> sample_var s' = 26 / 3"
  using sample_statistics [of "[2, 4, 9]" _ "new_sample \<lparr>re_window = \<lparr>window_name = None, window_time = 60\<rparr>,
      re_re = ''x''\<rparr> ''x''" 5, OF _ _ refl]
  by (simp add: Let_def)

end
