(* ===== verification/Bolo_Events.thy ===== *)
theory Bolo_Events
  imports Bolo_Data
begin

text \<open>
  Events (\<open>src/src/core.c\<close>): their broadcast, the buffer that keeps a number of
  them or those of a span of time, and the text of a request for events.
\<close>

section \<open>Events\<close>

definition broadcast_event :: "event_t \<Rightarrow> effect" where
  "broadcast_event ev = Broadcast [''EVENT'', show_int (sint (event_timestamp ev)), event_name ev, event_extra ev]"

text \<open>
  The event buffer. Taking the head of an empty list yields a pointer that is
  no event; using it is a fault.
\<close>

abbreviation (input) EVENTS_KEEP_NUMBER :: "32 word" where "EVENTS_KEEP_NUMBER \<equiv> 0"
abbreviation (input) EVENTS_KEEP_TIME :: "32 word" where "EVENTS_KEEP_TIME \<equiv> 1"

fun drop_number :: "32 word \<Rightarrow> event_t list \<Rightarrow> 32 word \<Rightarrow> (event_t list \<times> 32 word) res" where
  "drop_number mx [] n = (if sint n > sint mx then Inl OutOfBounds else Inr ([], n))"
| "drop_number mx (e # es) n = (if sint n > sint mx then drop_number mx es (n - 1) else Inr (e # es, n))"

fun drop_time :: "32 word \<Rightarrow> event_t list \<Rightarrow> 32 word \<Rightarrow> (event_t list \<times> 32 word) res" where
  "drop_time oldest [] n = Inl OutOfBounds"
| "drop_time oldest (e # es) n =
     (if sint (event_timestamp e) > sint oldest then Inr (e # es, n) else drop_time oldest es (n - 1))"

definition buffer_event :: "db_t \<Rightarrow> event_t \<Rightarrow> 32 word \<Rightarrow> 32 word \<Rightarrow> db_t res" where
  "buffer_event d ev mx keep =
     (if sint mx > 0 then
        let es = events d @ [ev]; n = events_count d + 1
        in bind_res (if keep = EVENTS_KEEP_NUMBER then drop_number mx es n
                     else drop_time (event_timestamp ev - mx) es n)
             (\<lambda>(es, n). Inr (d\<lparr>events := es, events_count := n\<rparr>))
      else Inr d)"

definition dump_head :: string where
  "dump_head = ''---'' @ [CHR 10] @ ''# generated by bolo'' @ [CHR 10]"

definition event_entry :: "event_t \<Rightarrow> string" where
  "event_entry ev = ''- name:  '' @ event_name ev @ [CHR 10] @
     ''  when:  '' @ show_int (sint (event_timestamp ev)) @ [CHR 10] @
     ''  extra: '' @ event_extra ev @ [CHR 10]"

definition events_text :: "32 word \<Rightarrow> event_t list \<Rightarrow> string" where
  "events_text since evs = dump_head @
     concat (map event_entry (filter (\<lambda>ev. \<not> sint (event_timestamp ev) < sint since) evs))"

section \<open>What the buffer keeps\<close>

text \<open>The count of buffered events agrees with the buffer, which is shorter than \<open>2^31 - 1\<close>.\<close>

definition events_ok :: "db_t \<Rightarrow> bool" where
  "events_ok d \<longleftrightarrow> sint (events_count d) = int (length (events d)) \<and> length (events d) < 2 ^ 31 - 1"

lemma drop_number_eq:
  assumes "sint n = int (length es)" and "0 < sint mx"
  shows "\<exists>n'. drop_number mx es n = Inr (drop (length es - nat (sint mx)) es, n') \<and>
    sint n' = int (length (drop (length es - nat (sint mx)) es))"
  using assms(1)
proof (induction es arbitrary: n)
  case Nil
  then show ?case using assms(2) by simp
next
  case (Cons e es)
  show ?case
  proof (cases "sint n > sint mx")
    case True
    have "sint n < 2 ^ 31" using sint_lt [of n] by simp
    then have "sint (n - 1) = int (length es)"
      using Cons.prems by (subst sint_diff_small) auto
    moreover have "length (e # es) - nat (sint mx) = Suc (length es - nat (sint mx))"
      using True Cons.prems assms(2) by auto
    ultimately show ?thesis using True Cons.IH [of "n - 1"] by simp
  next
    case False
    then have "length (e # es) - nat (sint mx) = 0" using Cons.prems by auto
    with False Cons.prems show ?thesis by simp
  qed
qed

text \<open>
  C13: when events are kept by number, the buffer holds the newest
  \<open>events_max\<close> of the events it had and the new one, in the order in which they
  came; the count stays the length of the buffer.
\<close>

theorem event_buffer_number:
  assumes "events_ok d" and "0 < sint mx" and "es = events d @ [ev]"
  shows "\<exists>d'. buffer_event d ev mx EVENTS_KEEP_NUMBER = Inr d' \<and>
    events d' = drop (length es - nat (sint mx)) es \<and>
    sint (events_count d') = int (length (events d')) \<and> int (length (events d')) \<le> sint mx"
proof -
  have "sint (events_count d + 1) = int (length es)"
    using assms(1,3) by (subst sint_add_small) (auto simp: events_ok_def)
  from drop_number_eq [OF this assms(2)] obtain n'
    where n': "drop_number mx es (events_count d + 1) = Inr (drop (length es - nat (sint mx)) es, n')"
      "sint n' = int (length (drop (length es - nat (sint mx)) es))" by blast
  then have "buffer_event d ev mx EVENTS_KEEP_NUMBER =
      Inr (d\<lparr>events := drop (length es - nat (sint mx)) es, events_count := n'\<rparr>)"
    using assms(2) by (simp add: buffer_event_def Let_def assms(3) [symmetric])
  with n' assms(2) show ?thesis by auto
qed

lemma drop_time_eq:
  assumes "\<exists>e \<in> set es. sint (event_timestamp e) > sint oldest"
  shows "drop_time oldest es n = Inr (dropWhile (\<lambda>e. \<not> sint (event_timestamp e) > sint oldest) es,
      n - of_nat (length (takeWhile (\<lambda>e. \<not> sint (event_timestamp e) > sint oldest) es)))"
  using assms
proof (induction es arbitrary: n)
  case (Cons e es)
  then show ?case
    using Cons.IH [of "n - 1"] by (cases "sint (event_timestamp e) > sint oldest") (auto simp: diff_diff_eq)
qed simp

lemma drop_time_none:
  "\<forall>e \<in> set es. \<not> sint (event_timestamp e) > sint oldest \<Longrightarrow> drop_time oldest es n = Inl OutOfBounds"
  by (induction es arbitrary: n) auto

text \<open>
  Note: when events are kept by time, the buffer drops events from its old
  end up to the first one that is less than \<open>events_max\<close> seconds older than the
  new event; the new event is always kept.
\<close>

theorem event_buffer_time:
  assumes "0 < sint mx" and "keep \<noteq> EVENTS_KEEP_NUMBER" and "es = events d @ [ev]"
    and "- (2 ^ 31) \<le> sint (event_timestamp ev) - sint mx"
  shows "\<exists>d'. buffer_event d ev mx keep = Inr d' \<and> events d' \<noteq> [] \<and> last (events d') = ev \<and>
    events d' = dropWhile (\<lambda>e. sint (event_timestamp e) \<le> sint (event_timestamp ev) - sint mx) es \<and>
    events_count d' = events_count d + 1 + of_nat (length (events d')) - of_nat (length es)"
proof -
  let ?o = "event_timestamp ev - mx"
  let ?P = "\<lambda>e. \<not> sint (event_timestamp e) > sint ?o"
  have o: "sint ?o = sint (event_timestamp ev) - sint mx"
    using assms(1,4) sint_lt [of "event_timestamp ev"] by (intro sint_diff_small) auto
  have ex: "\<exists>e \<in> set es. sint (event_timestamp e) > sint ?o" using assms(1,3) o by auto
  have ne: "dropWhile ?P es \<noteq> []" using ex by (simp add: dropWhile_eq_Nil_conv)
  have "last (dropWhile ?P es) = ev"
    using assms(1,3) o by (simp add: dropWhile_append3)
  moreover have l: "length es = length (takeWhile ?P es) + length (dropWhile ?P es)"
    by (metis length_append takeWhile_dropWhile_id)
  ultimately show ?thesis
    using assms(1,2) ne o drop_time_eq [OF ex, of "events_count d + 1"]
    by (simp add: buffer_event_def Let_def assms(3) [symmetric] not_less)
qed

text \<open>
  Note: when events are kept by time and the timestamp of a submitted
  event is so small that subtracting \<open>events_max\<close> wraps around, every buffered
  event counts as too old; the buffer is emptied and the code goes on to read an
  event from the empty list.
\<close>

theorem event_buffer_wrap:
  assumes "0 < sint mx" and "keep \<noteq> EVENTS_KEEP_NUMBER"
    and "sint (event_timestamp ev) - sint mx < - (2 ^ 31)"
    and "\<forall>e \<in> set (events d). sint (event_timestamp e) \<le> sint (event_timestamp ev) - sint mx + 2 ^ 32"
  shows "buffer_event d ev mx keep = Inl OutOfBounds"
proof -
  let ?o = "event_timestamp ev - mx"
  let ?i = "sint (event_timestamp ev) - sint mx"
  have r: "- (2 ^ 31) \<le> ?i + 2 ^ 32" "?i + 2 ^ 32 < 2 ^ 31"
    using assms(1,3) sint_lt [of mx] sint_ge [of "event_timestamp ev"] by auto
  have "signed_take_bit 31 (?i + 2 ^ 32) = signed_take_bit 31 ?i"
    by (simp add: signed_take_bit_eq_iff_take_bit_eq take_bit_eq_mod)
  then have o: "sint ?o = ?i + 2 ^ 32"
    using r by (simp add: sint_word_diff signed_take_bit_int_eq_self)
  have "sint (event_timestamp ev) \<le> ?i + 2 ^ 32" using sint_lt [of mx] by simp
  with assms(4) o have "\<forall>e \<in> set (events d @ [ev]). \<not> sint (event_timestamp e) > sint ?o" by auto
  from drop_time_none [OF this] assms(1,2) show ?thesis by (simp add: buffer_event_def Let_def)
qed


definition event_at :: "32 word \<Rightarrow> event_t" where
  "event_at t = \<lparr>event_timestamp = t, event_name = ''e'', event_extra = ''x''\<rparr>"

definition events_db :: "event_t list \<Rightarrow> db_t" where
  "events_db es = empty_db\<lparr>events := es, events_count := of_nat (length es)\<rparr>"

theorem event_buffer_number_witness:
  "\<exists>d'. buffer_event (events_db [event_at 1, event_at 2]) (event_at 3) 2 EVENTS_KEEP_NUMBER = Inr d' \<and>
    events d' = [event_at 2, event_at 3]"
  using event_buffer_number [of "events_db [event_at 1, event_at 2]" 2 "[event_at 1, event_at 2, event_at 3]" "event_at 3"]
  by (auto simp: events_ok_def events_db_def)

theorem event_buffer_time_witness:
  "\<exists>d'. buffer_event (events_db [event_at 10, event_at 95]) (event_at 100) 60 EVENTS_KEEP_TIME = Inr d' \<and>
    events d' = [event_at 95, event_at 100]"
  using event_buffer_time [of 60 EVENTS_KEEP_TIME "[event_at 10, event_at 95, event_at 100]"
      "events_db [event_at 10, event_at 95]" "event_at 100"]
  by (auto simp: events_db_def event_at_def)

theorem event_buffer_wrap_witness:
  "buffer_event (events_db [event_at 10]) (event_at 2147483648) 60 EVENTS_KEEP_TIME = Inl OutOfBounds"
  by (rule event_buffer_wrap) (simp_all add: events_db_def event_at_def)

end
