(* ===== verification/Bolo_Config.thy ===== *)
theory Bolo_Config
  imports Bolo_Events
begin

text \<open>
  The configuration file (\<open>src/src/config.c\<close>): the lexer \<open>lex\<close> and the reader
  \<open>configure\<close>, which fills the tables of the server.

  The arrays \<open>value\<close> and \<open>buffer\<close> of the parser start as zeros and keep what earlier
  tokens left in them, which the code can read again. Such an array is the list of
  its characters up to some point, with zeros after it; a pointer into it is an
  index. Reading behind the last element of \<open>buffer\<close> is a fault. The array \<open>raw\<close>
  is only read up to the terminator that \<open>fgets\<close> wrote and is not kept. Messages to
  the log are left out.
\<close>

section \<open>Tokens and the parser\<close>

abbreviation (input) LINE_BUF_SIZE :: nat where "LINE_BUF_SIZE \<equiv> 8192"

datatype token =
    T_NONE
  | T_KEYWORD_CONTROLLER | T_KEYWORD_LISTENER | T_KEYWORD_LOG | T_KEYWORD_SAVEFILE | T_KEYWORD_DUMPFILES
  | T_KEYWORD_TYPE | T_KEYWORD_FRESHNESS | T_KEYWORD_STATE | T_KEYWORD_USE | T_KEYWORD_PIDFILE
  | T_KEYWORD_USER | T_KEYWORD_GROUP | T_KEYWORD_BROADCAST | T_KEYWORD_WINDOW | T_KEYWORD_COUNTER
  | T_KEYWORD_SAMPLE | T_KEYWORD_NSCAPORT | T_KEYWORD_KEYSFILE | T_KEYWORD_MAXEVENTS | T_KEYWORD_RATE
  | T_KEYWORD_GRACE_PERIOD | T_KEYWORD_BEACON | T_KEYWORD_SWEEP | T_KEYWORD_SAVE_SIZE | T_KEYWORD_SAVE_INTERVAL
  | T_OPEN_BRACE | T_CLOSE_BRACE | T_STRING | T_NUMBER | T_TYPENAME | T_WINDOWNAME | T_MATCH | T_TIME

record parser_t =
  p_io :: string
  p_eof :: bool
  p_line :: nat
  p_token :: token
  p_value :: string
  p_buffer :: string

section \<open>Character arrays\<close>

text \<open>Reading an element, the end of a run of characters, copying, and \<open>memcpy\<close> to the start of an array.\<close>

definition ch :: "string \<Rightarrow> nat \<Rightarrow> char" where
  "ch m i = (if i < length m then m ! i else NUL)"

definition run_end :: "(char \<Rightarrow> bool) \<Rightarrow> string \<Rightarrow> nat \<Rightarrow> nat" where
  "run_end P m i = i + length (takeWhile (\<lambda>c. c \<noteq> NUL \<and> P c) (drop i m))"

definition bytes :: "string \<Rightarrow> nat \<Rightarrow> nat \<Rightarrow> string" where
  "bytes m i n = map (ch m) [i..<i + n]"

section \<open>The lexer\<close>

definition skip_blank :: "string \<Rightarrow> string" where
  "skip_blank raw =
     (let a = dropWhile isspace (cstr raw);
          a = (if at_char a = CHR ''#'' then dropWhile (\<lambda>c. c \<noteq> CHR 0x0A) a else a)
      in dropWhile isspace a)"

text \<open>
  The part after the label \<open>getline\<close>, up to the copy into the buffer; \<open>False\<close> at the end
  of the file. The stream knows that it is at its end once a read met it: on a last
  line without a newline, or when nothing is left.
\<close>

function get_line :: "parser_t \<Rightarrow> bool \<times> parser_t" where
  "get_line p =
     (if p_io p = [] then (False, p\<lparr>p_eof := True\<rparr>)
      else
        let (raw, rest) = fgets (8191) (p_io p);
            q = p\<lparr>p_io := rest, p_line := p_line p + 1,
              p_eof := p_eof p \<or> length raw < 8191 \<and> last raw \<noteq> CHR 0x0A\<rparr>;
            a = skip_blank raw
        in if a = [] then get_line q else (True, q\<lparr>p_buffer := overlay (a @ [NUL]) (p_buffer q)\<rparr>))"
  by pat_completeness auto

lemma fgets_line_buf: "p \<noteq> [] \<Longrightarrow> fgets 8191 p = (raw, rest) \<Longrightarrow> length rest < length p"
  using fgets_shorter [of p 8190] by simp

termination get_line
  by (relation "measure (length \<circ> p_io)") (auto dest: fgets_line_buf [OF _ sym])

declare get_line.simps [simp del]

text \<open>\<open>KEYWORD\<close>\<close>

definition keyword_table :: "(string \<times> token) list" where
  "keyword_table =
     [(''listener'', T_KEYWORD_LISTENER), (''controller'', T_KEYWORD_CONTROLLER), (''broadcast'', T_KEYWORD_BROADCAST),
      (''nsca.port'', T_KEYWORD_NSCAPORT), (''user'', T_KEYWORD_USER), (''group'', T_KEYWORD_GROUP),
      (''pidfile'', T_KEYWORD_PIDFILE), (''log'', T_KEYWORD_LOG), (''savefile'', T_KEYWORD_SAVEFILE),
      (''keysfile'', T_KEYWORD_KEYSFILE), (''beacon'', T_KEYWORD_BEACON), (''sweep'', T_KEYWORD_SWEEP),
      (''dumpfiles'', T_KEYWORD_DUMPFILES), (''type'', T_KEYWORD_TYPE), (''window'', T_KEYWORD_WINDOW),
      (''freshness'', T_KEYWORD_FRESHNESS), (''state'', T_KEYWORD_STATE), (''counter'', T_KEYWORD_COUNTER),
      (''sample'', T_KEYWORD_SAMPLE), (''rate'', T_KEYWORD_RATE), (''use'', T_KEYWORD_USE),
      (''max.events'', T_KEYWORD_MAXEVENTS), (''grace.period'', T_KEYWORD_GRACE_PERIOD),
      (''save.size'', T_KEYWORD_SAVE_SIZE), (''save.interval'', T_KEYWORD_SAVE_INTERVAL)]"

definition keyword :: "string \<Rightarrow> token" where
  "keyword w = (case map_of keyword_table w of None \<Rightarrow> T_NONE | Some t \<Rightarrow> t)"

text \<open>
  What every token ends with: skip white space from \<open>b\<close> on and move the rest of the
  line to the start of the buffer.
\<close>

definition accept :: "parser_t \<Rightarrow> token \<Rightarrow> string \<Rightarrow> string \<Rightarrow> nat \<Rightarrow> (bool \<times> parser_t) res" where
  "accept p t v m b =
     (if b \<ge> LINE_BUF_SIZE then Inl OutOfBounds
      else Inr (True, p\<lparr>p_token := t, p_value := v,
             p_buffer := overlay (cstr (drop (run_end isspace m b) m) @ [NUL]) m\<rparr>))"

text \<open>The loop over a pattern, from the character after the first slash.\<close>

function pattern_end :: "string \<Rightarrow> nat \<Rightarrow> nat" where
  "pattern_end m b =
     (if ch m b = NUL \<or> isspace (ch m b) \<or> ch m b = CHR ''/'' then b
      else pattern_end m (if ch m b = CHR 0x5C then b + 2 else b + 1))"
  by pat_completeness auto
termination
  by (relation "measure (\<lambda>(m, b). length m - b)") (auto simp: ch_def split: if_splits)

declare pattern_end.simps [simp del]

text \<open>The loop over a string literal: the characters it copies and where it stops.\<close>

function literal :: "string \<Rightarrow> nat \<Rightarrow> string \<times> nat" where
  "literal m b =
     (if ch m b = NUL \<or> ch m b = CHR 0x22 \<or> ch m b = CHR 0x0D \<or> ch m b = CHR 0x0A then ([], b)
      else let b = (if ch m b = CHR 0x5C then b + 1 else b); (s, e) = literal m (b + 1) in (ch m b # s, e))"
  by pat_completeness auto
termination
  by (relation "measure (\<lambda>(m, b). length m - b)") (auto simp: ch_def split: if_splits)

declare literal.simps [simp del]

definition lex_fail :: "parser_t \<Rightarrow> (bool \<times> parser_t) res" where
  "lex_fail p = Inr (False, p)"

definition at_end :: "string \<Rightarrow> nat \<Rightarrow> bool" where
  "at_end m b \<longleftrightarrow> ch m b = NUL \<or> isspace (ch m b)"

definition name_char :: "char \<Rightarrow> bool" where
  "name_char c \<longleftrightarrow> isalnum c \<or> c = CHR ''-'' \<or> c = CHR ''_''"

definition lex_literal :: "parser_t \<Rightarrow> nat \<Rightarrow> (bool \<times> parser_t) res" where
  "lex_literal p b =
     (let m = p_buffer p in
      if ch m b = CHR 0x22 then
        let (s, e) = literal m (b + 1); v = overlay (s @ [NUL]) (p_value p)
        in accept p T_STRING v m (if ch m e = CHR 0x22 then e + 1 else e)
      else lex_fail p)"

text \<open>A name behind a sigil; \<open>a\<close> is the start of the token, to which the code goes back.\<close>

definition lex_name :: "char \<Rightarrow> token \<Rightarrow> (parser_t \<Rightarrow> nat \<Rightarrow> (bool \<times> parser_t) res) \<Rightarrow>
    parser_t \<Rightarrow> nat \<Rightarrow> nat \<Rightarrow> (bool \<times> parser_t) res" where
  "lex_name sigil t k p a b =
     (let m = p_buffer p in
      if ch m b = sigil then
        let e = run_end name_char m (b + 1)
        in if at_end m e then
             let m' = m[e := NUL] in accept p t (overlay (bytes m' 0 (e + 1)) (p_value p)) m' (e + 1)
           else k p a
      else k p b)"

definition lex_names :: "parser_t \<Rightarrow> nat \<Rightarrow> nat \<Rightarrow> (bool \<times> parser_t) res" where
  "lex_names p a b =
     lex_name (CHR '':'') T_TYPENAME (\<lambda>p b. lex_name (CHR ''@'') T_WINDOWNAME lex_literal p a b) p a b"

definition lex_word :: "parser_t \<Rightarrow> nat \<Rightarrow> nat \<Rightarrow> (bool \<times> parser_t) res" where
  "lex_word p a b =
     (let m = p_buffer p in
      if isalnum (ch m b) \<or> ch m b = CHR ''/'' then
        let e = run_end (\<lambda>c. isalnum c \<or> ispunct c) m (b + 1)
        in if at_end m e then
             let m' = m[e := NUL]; t = keyword (cstr (drop a m'))
             in if t = T_NONE then accept p T_STRING (overlay (bytes m' 0 (e + 1)) (p_value p)) m' (e + 1)
                else accept p t (p_value p) m' (e + 1)
           else lex_names p a a
      else lex_names p a b)"

definition lex_pattern :: "parser_t \<Rightarrow> nat \<Rightarrow> nat \<Rightarrow> (bool \<times> parser_t) res" where
  "lex_pattern p a b =
     (let m = p_buffer p in
      if ch m b = CHR ''m'' then
        if ch m (b + 1) = CHR ''/'' then
          let s = b + 2; e = pattern_end m s
          in if e \<ge> LINE_BUF_SIZE then Inl OutOfBounds
             else if ch m e \<noteq> CHR ''/'' then lex_fail p
             else let m' = m[e := NUL] in accept p T_MATCH (overlay (bytes m' s (e + 1 - s)) (p_value p)) m' (e + 1)
        else lex_word p a a
      else lex_word p a b)"

definition time_unit :: "char \<Rightarrow> 32 word" where
  "time_unit c = (if c = CHR ''d'' then 86400 else if c = CHR ''h'' then 3600
     else if c = CHR ''m'' then 60 else if c = CHR ''s'' then 1 else 0)"

definition lex_digits :: "parser_t \<Rightarrow> nat \<Rightarrow> (bool \<times> parser_t) res" where
  "lex_digits p a =
     (let m = p_buffer p in
      if isdigit (ch m a) then
        let e = run_end isdigit m a; mult = time_unit (ch m e)
        in if at_end m e then accept p T_NUMBER (overlay (bytes m 0 e) (p_value p)) m e
           else if mult \<noteq> 0 then
             let m' = m[e := NUL]; n = show_int (sint (atoi (cstr m') * mult))
             in accept p T_TIME (overlay (n @ [NUL]) (p_value p)) m' e
           else lex_pattern p a e
      else lex_pattern p a a)"

definition lex_token :: "parser_t \<Rightarrow> (bool \<times> parser_t) res" where
  "lex_token p =
     (let m = p_buffer p; a = run_end isspace m 0 in
      if ch m a = CHR ''{'' then accept p T_OPEN_BRACE (p_value p) m (a + 1)
      else if ch m a = CHR ''}'' then accept p T_CLOSE_BRACE (p_value p) m (a + 1)
      else lex_digits p a)"

definition start_token :: "parser_t \<Rightarrow> parser_t" where
  "start_token p = p\<lparr>p_token := T_NONE, p_value := overlay [NUL] (p_value p)\<rparr>"

lemma get_line_shorter: "get_line p = (True, q) \<Longrightarrow> length (p_io q) < length (p_io p)"
proof (induction p rule: get_line.induct)
  case (1 p)
  from 1(2) have io: "p_io p \<noteq> []" by (auto simp: get_line.simps [of p])
  obtain raw rest where f: "fgets 8191 (p_io p) = (raw, rest)" by (cases "fgets 8191 (p_io p)")
  note IH = 1(1) [OF io refl f [symmetric] refl refl]
  from 1(2) io f fgets_line_buf [OF io f] show ?case
    by (auto simp: get_line.simps [of p] Let_def split: if_splits dest!: IH)
qed

function lex :: "parser_t \<Rightarrow> (bool \<times> parser_t) res" where
  "lex p =
     (if ch (p_buffer p) 0 = NUL then
        (case get_line p of (False, q) \<Rightarrow> Inr (False, q) | (True, q) \<Rightarrow> lex q)
      else let p = start_token p in
        if ch (p_buffer p) (run_end isspace (p_buffer p) 0) = CHR ''#'' then
          (case get_line p of (False, q) \<Rightarrow> Inr (False, q) | (True, q) \<Rightarrow> lex q)
        else lex_token p)"
  by pat_completeness auto
termination
  by (relation "measure (length \<circ> p_io)") (auto dest!: get_line_shorter [OF sym] simp: start_token_def)

declare lex.simps [simp del]

section \<open>Directives\<close>

text \<open>
  The local variables of \<open>configure\<close> that outlive a directive. A directive returns
  whether the loop goes on (\<open>False\<close> is \<open>goto bail\<close>), the parser and these variables.
\<close>

record conf_t =
  cf_server :: server_t
  cf_default_type :: "string option"
  cf_default_win :: "string option"

type_synonym cstep = "(bool \<times> parser_t \<times> conf_t) res"

abbreviation cf_db :: "conf_t \<Rightarrow> db_t" where "cf_db c \<equiv> s_db (cf_server c)"

definition tok_value :: "parser_t \<Rightarrow> string" where
  "tok_value p = cstr (p_value p)"

definition bail :: "parser_t \<Rightarrow> conf_t \<Rightarrow> cstep" where
  "bail p c = Inr (False, p, c)"

definition go_on :: "parser_t \<Rightarrow> conf_t \<Rightarrow> cstep" where
  "go_on p c = Inr (True, p, c)"

definition NEXT :: "parser_t \<Rightarrow> conf_t \<Rightarrow> (parser_t \<Rightarrow> cstep) \<Rightarrow> cstep" where
  "NEXT p c k = bind_res (lex p) (\<lambda>(ok, q). if ok then k q else bail q c)"

definition upd_db :: "(db_t \<Rightarrow> db_t) \<Rightarrow> conf_t \<Rightarrow> conf_t" where
  "upd_db f c = c\<lparr>cf_server := (cf_server c)\<lparr>s_db := f (cf_db c)\<rparr>\<rparr>"

definition upd_config :: "(config_t \<Rightarrow> config_t) \<Rightarrow> conf_t \<Rightarrow> conf_t" where
  "upd_config f c = c\<lparr>cf_server := (cf_server c)\<lparr>s_config := f (s_config (cf_server c))\<rparr>\<rparr>"

definition upd_interval :: "(interval_t \<Rightarrow> interval_t) \<Rightarrow> conf_t \<Rightarrow> conf_t" where
  "upd_interval f c = c\<lparr>cf_server := (cf_server c)\<lparr>s_interval := f (s_interval (cf_server c))\<rparr>\<rparr>"

definition SERVER_STRING :: "(string option \<Rightarrow> config_t \<Rightarrow> config_t) \<Rightarrow> parser_t \<Rightarrow> conf_t \<Rightarrow> cstep" where
  "SERVER_STRING f p c = NEXT p c (\<lambda>q.
     if p_token q \<noteq> T_STRING then bail q c else go_on q (upd_config (f (Some (tok_value q))) c))"

definition number_directive :: "(32 word \<Rightarrow> conf_t \<Rightarrow> conf_t) \<Rightarrow> parser_t \<Rightarrow> conf_t \<Rightarrow> cstep" where
  "number_directive f p c = NEXT p c (\<lambda>q.
     if p_token q \<noteq> T_NUMBER then bail q c else go_on q (f (atoi (tok_value q)) c))"

definition max_events_directive :: "parser_t \<Rightarrow> conf_t \<Rightarrow> cstep" where
  "max_events_directive p c = NEXT p c (\<lambda>q.
     if p_token q = T_NUMBER \<or> p_token q = T_TIME then
       go_on q (upd_config (\<lambda>f. f\<lparr>c_events_keep := (if p_token q = T_NUMBER then EVENTS_KEEP_NUMBER else EVENTS_KEEP_TIME),
         c_events_max := atoi (tok_value q)\<rparr>) c)
     else bail q c)"

definition log_directive :: "parser_t \<Rightarrow> conf_t \<Rightarrow> cstep" where
  "log_directive p c =
     bind_res (SERVER_STRING (\<lambda>v f. f\<lparr>c_log_level := v\<rparr>) p c) (\<lambda>(ok, q, c').
       if ok then SERVER_STRING (\<lambda>v f. f\<lparr>c_log_facility := v\<rparr>) q c' else bail q c')"

definition use_directive :: "parser_t \<Rightarrow> conf_t \<Rightarrow> cstep" where
  "use_directive p c = NEXT p c (\<lambda>q.
     if p_token q = T_TYPENAME then go_on q (c\<lparr>cf_default_type := Some (tok_value q)\<rparr>)
     else if p_token q = T_WINDOWNAME then go_on q (c\<lparr>cf_default_win := Some (tok_value q)\<rparr>)
     else bail q c)"

definition window_directive :: "parser_t \<Rightarrow> conf_t \<Rightarrow> cstep" where
  "window_directive p c = NEXT p c (\<lambda>q.
     if p_token q \<noteq> T_WINDOWNAME then bail q c
     else let name = tok_value q; w = \<lparr>window_name = Some name, window_time = 0\<rparr>;
              put = (\<lambda>w. upd_db (\<lambda>d. d\<lparr>windows := fmupd name w (windows d)\<rparr>))
          in NEXT q (put w c) (\<lambda>q.
               if p_token q \<noteq> T_NUMBER then bail q (put w c)
               else go_on q (put (w\<lparr>window_time := atoi (tok_value q)\<rparr>) c)))"

text \<open>
  The window of a metric: a named one, an anonymous one, or the default. The token
  after it is the one the declaration goes on with.
\<close>

definition pick_window :: "parser_t \<Rightarrow> conf_t \<Rightarrow> (parser_t \<Rightarrow> conf_t \<Rightarrow> window_t option \<Rightarrow> cstep) \<Rightarrow> cstep" where
  "pick_window p c k = NEXT p c (\<lambda>q.
     if p_token q = T_WINDOWNAME then
       let w = fmlookup (windows (cf_db c)) (tok_value q) in NEXT q c (\<lambda>q. k q c w)
     else if p_token q = T_NUMBER then
       let w = \<lparr>window_name = None, window_time = atoi (tok_value q)\<rparr>;
           c = upd_db (\<lambda>d. d\<lparr>anon_windows := anon_windows d @ [w]\<rparr>) c
       in NEXT q c (\<lambda>q. k q c (Some w))
     else k q c (case cf_default_win c of None \<Rightarrow> None | Some n \<Rightarrow> fmlookup (windows (cf_db c)) n))"

text \<open>
  The declaration of a metric: a name makes an entry, a pattern that compiles makes a
  rule.
\<close>

definition metric_directive :: "env \<Rightarrow> (string \<Rightarrow> window_t \<Rightarrow> db_t \<Rightarrow> db_t) \<Rightarrow> (re_window_t \<Rightarrow> db_t \<Rightarrow> db_t) \<Rightarrow>
    parser_t \<Rightarrow> conf_t \<Rightarrow> cstep" where
  "metric_directive E entry rule p c = pick_window p c (\<lambda>q c win.
     if p_token q = T_STRING then
       (case win of None \<Rightarrow> bail q c | Some w \<Rightarrow> go_on q (upd_db (entry (tok_value q) w) c))
     else if p_token q = T_MATCH then
       (case win of None \<Rightarrow> bail q c
        | Some w \<Rightarrow> if pcre_compile E (tok_value q) \<noteq> None then bail q c
                   else go_on q (upd_db (rule \<lparr>re_window = w, re_re = tok_value q\<rparr>) c))
     else bail q c)"

definition counter_entry :: "string \<Rightarrow> window_t \<Rightarrow> db_t \<Rightarrow> db_t" where
  "counter_entry n w d = d\<lparr>counters := fmupd n \<lparr>counter_window = w, counter_name = n, counter_last_seen = 0,
     counter_value = 0, counter_ignore = 0\<rparr> (counters d)\<rparr>"

definition sample_entry :: "string \<Rightarrow> window_t \<Rightarrow> db_t \<Rightarrow> db_t" where
  "sample_entry n w d = d\<lparr>samples := fmupd n \<lparr>sample_window = w, sample_name = n, sample_last_seen = 0,
     sample_n = 0, sample_min = 0, sample_max = 0, sample_sum = 0, sample_mean = 0, sample_mean' = 0,
     sample_var = 0, sample_var' = 0, sample_ignore = 0\<rparr> (samples d)\<rparr>"

definition rate_entry :: "string \<Rightarrow> window_t \<Rightarrow> db_t \<Rightarrow> db_t" where
  "rate_entry n w d = d\<lparr>rates := fmupd n \<lparr>rate_window = w, rate_name = n, rate_first_seen = 0,
     rate_last_seen = 0, rate_first = 0, rate_last = 0, rate_ignore = 0\<rparr> (rates d)\<rparr>"

definition counter_directive :: "env \<Rightarrow> parser_t \<Rightarrow> conf_t \<Rightarrow> cstep" where
  "counter_directive E = metric_directive E counter_entry (\<lambda>r d. d\<lparr>counter_matches := counter_matches d @ [r]\<rparr>)"

definition sample_directive :: "env \<Rightarrow> parser_t \<Rightarrow> conf_t \<Rightarrow> cstep" where
  "sample_directive E = metric_directive E sample_entry (\<lambda>r d. d\<lparr>sample_matches := sample_matches d @ [r]\<rparr>)"

definition rate_directive :: "env \<Rightarrow> parser_t \<Rightarrow> conf_t \<Rightarrow> cstep" where
  "rate_directive E = metric_directive E rate_entry (\<lambda>r d. d\<lparr>rate_matches := rate_matches d @ [r]\<rparr>)"

definition declare_state :: "env \<Rightarrow> type_t option \<Rightarrow> parser_t \<Rightarrow> conf_t \<Rightarrow> cstep" where
  "declare_state E type p c =
     (let name = tok_value p in
      if p_token p = T_STRING then
        (case type of None \<Rightarrow> bail p c
         | Some t \<Rightarrow> go_on p (upd_db (\<lambda>d. d\<lparr>states := fmupd name
             \<lparr>state_type = t, state_name = name, state_last_seen = 0, state_expiry = ucast (freshness t) + time_s E,
              state_status = PENDING, state_summary = ''(state is pending results)'', state_stale = 0,
              state_ignore = 0\<rparr> (states d)\<rparr>) c))
      else if p_token p = T_MATCH then
        (case type of None \<Rightarrow> bail p c
         | Some t \<Rightarrow> if pcre_compile E name \<noteq> None then bail p c
             else go_on p (upd_db (\<lambda>d. d\<lparr>state_matches := state_matches d @ [\<lparr>re_state_type = t, re_state_re = name\<rparr>]\<rparr>) c))
      else bail p c)"

definition state_directive :: "env \<Rightarrow> parser_t \<Rightarrow> conf_t \<Rightarrow> cstep" where
  "state_directive E p c = NEXT p c (\<lambda>q.
     if p_token q = T_TYPENAME then
       let t = fmlookup (types (cf_db c)) (tok_value q) in NEXT q c (\<lambda>q. declare_state E t q c)
     else declare_state E (case cf_default_type c of None \<Rightarrow> None | Some n \<Rightarrow> fmlookup (types (cf_db c)) n) q c)"

section \<open>Types\<close>

definition default_summary :: "16 word \<Rightarrow> string" where
  "default_summary w =
     (let f = uint w; msg = (\<lambda>n unit one. ''No results received for more than '' @ show_int n @ unit @ (if one then [] else ''s''))
      in if f \<ge> 3600 then msg (f div 3600) '' hour'' (f < 7200)
         else if f \<ge> 60 then msg (f div 60) '' minute'' (f < 120)
         else msg f '' second'' (f = 1))"

definition put_type :: "type_t \<Rightarrow> conf_t \<Rightarrow> conf_t" where
  "put_type t = upd_db (\<lambda>d. d\<lparr>types := fmupd (type_name t) t (types d)\<rparr>)"

text \<open>
  One attribute of a type, after its first token; the changes to the type are
  written to the table it is already in.
\<close>

definition type_attribute :: "type_t \<Rightarrow> parser_t \<Rightarrow> conf_t \<Rightarrow> (bool \<times> parser_t \<times> conf_t \<times> type_t) res" where
  "type_attribute t p c =
     (let next = (\<lambda>t k. bind_res (lex p) (\<lambda>(ok, q). if ok then k q else Inr (False, q, put_type t c, t)))
      in if p_token p = T_KEYWORD_FRESHNESS then
           next t (\<lambda>q. if p_token q \<noteq> T_NUMBER then Inr (False, q, put_type t c, t)
             else let t = t\<lparr>freshness := ucast (atoi (tok_value q))\<rparr> in Inr (True, q, put_type t c, t))
         else if p_token p = T_STRING then
           (case map_of [(''warning'', WARNING), (''critical'', CRITICAL), (''unknown'', UNKNOWN)] (tok_value p) of
              None \<Rightarrow> Inr (False, p, put_type t c, t)
            | Some s \<Rightarrow> let t = t\<lparr>type_status := s\<rparr> in
                next t (\<lambda>q. if p_token q \<noteq> T_STRING then Inr (False, q, put_type t c, t)
                  else let t = t\<lparr>type_summary := Some (tok_value q)\<rparr> in Inr (True, q, put_type t c, t)))
         else Inr (False, p, put_type t c, t))"

text \<open>
  The loop up to the closing brace. A file whose last line has no newline can make
  the lexer return the same tokens for ever, so the loops take fuel; \<open>None\<close> is no
  result yet.
\<close>

fun type_loop :: "nat \<Rightarrow> type_t \<Rightarrow> parser_t \<Rightarrow> conf_t \<Rightarrow> (bool \<times> parser_t \<times> conf_t \<times> type_t) res option" where
  "type_loop 0 t p c = None"
| "type_loop (Suc n) t p c =
     (case lex p of
        Inl e \<Rightarrow> Some (Inl e)
      | Inr (ok, q) \<Rightarrow>
          if \<not> ok then Some (Inr (False, q, c, t))
          else if p_token q = T_CLOSE_BRACE then Some (Inr (True, q, c, t))
          else case type_attribute t q c of
                 Inl e \<Rightarrow> Some (Inl e)
               | Inr (ok, q, c, t) \<Rightarrow> if ok then type_loop n t q c else Some (Inr (False, q, c, t)))"

definition type_end :: "bool \<times> parser_t \<times> conf_t \<times> type_t \<Rightarrow> bool \<times> parser_t \<times> conf_t" where
  "type_end = (\<lambda>(ok, q, c, t).
     (ok, q, if ok \<and> type_summary t = None then put_type (t\<lparr>type_summary := Some (default_summary (freshness t))\<rparr>) c else c))"

definition type_directive :: "nat \<Rightarrow> parser_t \<Rightarrow> conf_t \<Rightarrow> cstep option" where
  "type_directive n p c =
     (case lex p of
        Inl e \<Rightarrow> Some (Inl e)
      | Inr (ok, q) \<Rightarrow>
          if \<not> ok \<or> p_token q \<noteq> T_TYPENAME then Some (bail q c)
          else let t = \<lparr>type_name = tok_value q, freshness = 300, type_status = WARNING, type_summary = None\<rparr>;
                   c = put_type t c
               in case lex q of
                    Inl e \<Rightarrow> Some (Inl e)
                  | Inr (ok, q) \<Rightarrow>
                      if \<not> ok \<or> p_token q \<noteq> T_OPEN_BRACE then Some (bail q c)
                      else map_option (\<lambda>r. bind_res r (\<lambda>x. Inr (type_end x))) (type_loop n t q c))"

section \<open>The reader\<close>

definition directive :: "env \<Rightarrow> parser_t \<Rightarrow> conf_t \<Rightarrow> cstep" where
  "directive E p c =
     (case p_token p of
        T_KEYWORD_LISTENER \<Rightarrow> SERVER_STRING (\<lambda>v f. f\<lparr>c_listener := v\<rparr>) p c
      | T_KEYWORD_CONTROLLER \<Rightarrow> SERVER_STRING (\<lambda>v f. f\<lparr>c_controller := v\<rparr>) p c
      | T_KEYWORD_BROADCAST \<Rightarrow> SERVER_STRING (\<lambda>v f. f\<lparr>c_broadcast := v\<rparr>) p c
      | T_KEYWORD_USER \<Rightarrow> SERVER_STRING (\<lambda>v f. f\<lparr>c_runas_user := v\<rparr>) p c
      | T_KEYWORD_GROUP \<Rightarrow> SERVER_STRING (\<lambda>v f. f\<lparr>c_runas_group := v\<rparr>) p c
      | T_KEYWORD_PIDFILE \<Rightarrow> SERVER_STRING (\<lambda>v f. f\<lparr>c_pidfile := v\<rparr>) p c
      | T_KEYWORD_SAVEFILE \<Rightarrow> SERVER_STRING (\<lambda>v f. f\<lparr>c_savefile := v\<rparr>) p c
      | T_KEYWORD_KEYSFILE \<Rightarrow> SERVER_STRING (\<lambda>v f. f\<lparr>c_keysfile := v\<rparr>) p c
      | T_KEYWORD_BEACON \<Rightarrow> SERVER_STRING (\<lambda>v f. f\<lparr>c_beacon := v\<rparr>) p c
      | T_KEYWORD_DUMPFILES \<Rightarrow> go_on p c
      | T_KEYWORD_GRACE_PERIOD \<Rightarrow>
          NEXT p c (\<lambda>q. go_on q (upd_config (\<lambda>f. f\<lparr>c_grace_period := atoi (tok_value q)\<rparr>) c))
      | T_KEYWORD_MAXEVENTS \<Rightarrow> max_events_directive p c
      | T_KEYWORD_SWEEP \<Rightarrow> number_directive (\<lambda>n. upd_interval (\<lambda>i. i\<lparr>i_sweep := ucast n\<rparr>)) p c
      | T_KEYWORD_SAVE_SIZE \<Rightarrow> number_directive (\<lambda>n. upd_config (\<lambda>f. f\<lparr>c_save_size := n\<rparr>)) p c
      | T_KEYWORD_SAVE_INTERVAL \<Rightarrow> number_directive (\<lambda>n. upd_interval (\<lambda>i. i\<lparr>i_savestate := ucast n\<rparr>)) p c
      | T_KEYWORD_NSCAPORT \<Rightarrow> number_directive (\<lambda>n. upd_config (\<lambda>f. f\<lparr>c_nsca_port := ucast (n AND 0xffff)\<rparr>)) p c
      | T_KEYWORD_LOG \<Rightarrow> log_directive p c
      | T_KEYWORD_USE \<Rightarrow> use_directive p c
      | T_KEYWORD_WINDOW \<Rightarrow> window_directive p c
      | T_KEYWORD_STATE \<Rightarrow> state_directive E p c
      | T_KEYWORD_COUNTER \<Rightarrow> counter_directive E p c
      | T_KEYWORD_SAMPLE \<Rightarrow> sample_directive E p c
      | T_KEYWORD_RATE \<Rightarrow> rate_directive E p c
      | _ \<Rightarrow> bail p c)"

fun config_loop :: "nat \<Rightarrow> env \<Rightarrow> parser_t \<Rightarrow> conf_t \<Rightarrow> cstep option" where
  "config_loop 0 E p c = None"
| "config_loop (Suc n) E p c =
     (case lex p of
        Inl e \<Rightarrow> Some (Inl e)
      | Inr (ok, q) \<Rightarrow>
          if \<not> ok then Some (Inr (p_eof q, q, c))
          else case (if p_token q = T_KEYWORD_TYPE then type_directive n q c else Some (directive E q c)) of
                 None \<Rightarrow> None
               | Some (Inl e) \<Rightarrow> Some (Inl e)
               | Some (Inr (ok, q, c)) \<Rightarrow> if ok then config_loop n E q c else Some (bail q c))"

definition fresh_parser :: "string \<Rightarrow> parser_t" where
  "fresh_parser text = \<lparr>p_io = text, p_eof = False, p_line = 0, p_token = T_NONE, p_value = [], p_buffer = []\<rparr>"

definition clear_db :: "server_t \<Rightarrow> server_t" where
  "clear_db s = s\<lparr>s_db := empty_db\<lparr>events_count := events_count (s_db s)\<rparr>\<rparr>"

definition configure :: "nat \<Rightarrow> env \<Rightarrow> string \<Rightarrow> server_t \<Rightarrow> (int \<times> server_t) res option" where
  "configure fuel E path s =
     (let s = clear_db s in
      if \<not> sys_ok E Sys_fopen path then Some (Inr (- 1, s))
      else map_option (\<lambda>r. bind_res r (\<lambda>(ok, q, c). Inr (if ok then 0 else 1, cf_server c)))
             (config_loop fuel E (fresh_parser (file_data E path))
               \<lparr>cf_server = s, cf_default_type = None, cf_default_win = None\<rparr>))"

text \<open>\<open>deconfigure\<close> frees every table and string of the server; the memory it leaves is not read again.\<close>

definition deconfigure :: "server_t \<Rightarrow> server_t" where
  "deconfigure s = s\<lparr>s_db := (empty_db\<lparr>events := events (s_db s), events_count := events_count (s_db s)\<rparr>), s_keys := fmempty,
     s_config := (s_config s)\<lparr>c_listener := None, c_controller := None, c_broadcast := None, c_pidfile := None,
       c_runas_user := None, c_runas_group := None, c_savefile := None, c_keysfile := None, c_beacon := None,
       c_log_level := None, c_log_facility := None\<rparr>\<rparr>"

end
