(* ===== verification/Bolo_Binf.thy ===== *)
theory Bolo_Binf
  imports Bolo_Data
begin

text \<open>
  The save file of the aggregator (\<open>src/src/binf.c\<close>): a header, one record per
  state, counter, sample, event and rate, and a trailer of two zero bytes, in a
  file of \<open>save.size\<close> megabytes that is mapped into memory.
\<close>

section \<open>Network byte order\<close>

text \<open>
  The byte swaps on 16 and 32 bits are those of \<open>arpa/inet.h\<close>; \<open>htonll\<close> and
  \<open>ntohll\<close> are the file's own.
\<close>

definition htons :: "16 word \<Rightarrow> 16 word" where
  "htons w = push_bit 8 w OR drop_bit 8 w"

definition htonl :: "32 word \<Rightarrow> 32 word" where
  "htonl w = ucast (htons (ucast (drop_bit 16 w))) OR push_bit 16 (ucast (htons (ucast w)))"

definition htonll :: "64 word \<Rightarrow> 64 word" where
  "htonll x =
     (let h0 = ucast x :: 32 word; h1 = ucast (drop_bit 32 x) :: 32 word;
          n0 = htonl h1; n1 = htonl h0
      in ucast n0 OR push_bit 32 (ucast n1))"

definition ntohll :: "64 word \<Rightarrow> 64 word" where
  "ntohll x =
     (let n0 = ucast x :: 32 word; n1 = ucast (drop_bit 32 x) :: 32 word;
          h0 = htonl n1; h1 = htonl n0
      in ucast h0 OR push_bit 32 (ucast h1))"

text \<open>A double converted to \<open>uint32_t\<close>: defined for values above -1 and below \<open>2^32\<close>.\<close>

definition double_u32 :: "real \<Rightarrow> 32 word res" where
  "double_u32 x = (if - 1 < x \<and> x < 2 ^ 32 then Inr (word_of_int (if x < 0 then 0 else \<lfloor>x\<rfloor>)) else Inl BadConversion)"

section \<open>Records\<close>

datatype payload =
  P_state state_t | P_counter counter_t | P_sample sample_t | P_event event_t | P_rate rate_t

fun record_type :: "payload \<Rightarrow> 8 word" where
  "record_type (P_state _) = 1"
| "record_type (P_counter _) = 2"
| "record_type (P_sample _) = 3"
| "record_type (P_event _) = 4"
| "record_type (P_rate _) = 5"

text \<open>The \<open>record.len\<close> of a payload, a \<open>uint16_t\<close>: the sizes are added modulo \<open>2^16\<close>.\<close>

fun record_len :: "payload \<Rightarrow> 16 word" where
  "record_len (P_state s) = of_nat (4 + 7 + (length (state_name s) + 1) + (length (state_summary s) + 1))"
| "record_len (P_counter c) = of_nat (4 + 13 + (length (counter_name c) + 1))"
| "record_len (P_sample s) = of_nat (4 + 69 + (length (sample_name s) + 1))"
| "record_len (P_event e) = of_nat (4 + 4 + (length (event_name e) + 1) + (length (event_extra e) + 1))"
| "record_len (P_rate r) = of_nat (4 + 25 + (length (rate_name r) + 1))"

definition htonl_double :: "env \<Rightarrow> real \<Rightarrow> string res" where
  "htonl_double E x = bind_res (double_u32 x) (\<lambda>u. Inr (enc_double E (real (unat (htonl u)))))"

fun record_body :: "env \<Rightarrow> payload \<Rightarrow> string res" where
  "record_body E (P_state s) =
     Inr (mem32 (htonl (state_last_seen s)) @
          map char_byte [state_status s, state_stale s, state_ignore s] @
          state_name s @ [NUL] @ state_summary s @ [NUL])"
| "record_body E (P_counter c) =
     Inr (mem32 (htonl (counter_last_seen c)) @ mem64 (htonll (counter_value c)) @
          [char_byte (counter_ignore c)] @ counter_name c @ [NUL])"
| "record_body E (P_sample s) =
     bind_res (htonl_double E (sample_min s)) (\<lambda>mn.
     bind_res (htonl_double E (sample_max s)) (\<lambda>mx.
     bind_res (htonl_double E (sample_sum s)) (\<lambda>sm.
     bind_res (htonl_double E (sample_mean s)) (\<lambda>me.
     bind_res (htonl_double E (sample_mean' s)) (\<lambda>me'.
     bind_res (htonl_double E (sample_var s)) (\<lambda>va.
     bind_res (htonl_double E (sample_var' s)) (\<lambda>va'.
     Inr (mem32 (htonl (sample_last_seen s)) @ mem64 (htonll (sample_n s)) @
          mn @ mx @ sm @ me @ me' @ va @ va' @ [char_byte (sample_ignore s)] @
          sample_name s @ [NUL]))))))))"
| "record_body E (P_event e) =
     Inr (mem32 (htonl (event_timestamp e)) @ event_name e @ [NUL] @ event_extra e @ [NUL])"
| "record_body E (P_rate r) =
     Inr (mem32 (htonl (rate_first_seen r)) @ mem32 (htonl (rate_last_seen r)) @
          mem64 (htonll (rate_first r)) @ mem64 (htonll (rate_last r)) @
          [char_byte (rate_ignore r)] @ rate_name r @ [NUL])"

text \<open>
  Copying into the mapped area, of which the first bytes are already written: a
  copy past the end of the area faults. The code does not check.
\<close>

definition put_bytes :: "nat \<Rightarrow> string \<Rightarrow> string \<Rightarrow> string res" where
  "put_bytes cap mem bs = (if length mem + length bs \<le> cap then Inr (mem @ bs) else Inl OutOfBounds)"

definition s_write_record :: "env \<Rightarrow> nat \<Rightarrow> string \<Rightarrow> payload \<Rightarrow> string res" where
  "s_write_record E cap mem p =
     bind_res (put_bytes cap mem (mem16 (htons (record_len p)) @ mem16 (htons (ucast (record_type p))))) (\<lambda>mem.
     bind_res (record_body E p) (\<lambda>body. put_bytes cap mem body))"

fun write_records :: "env \<Rightarrow> nat \<Rightarrow> string \<Rightarrow> payload list \<Rightarrow> string res" where
  "write_records E cap mem [] = Inr mem"
| "write_records E cap mem (p # ps) =
     bind_res (s_write_record E cap mem p) (\<lambda>mem. write_records E cap mem ps)"

section \<open>Writing the database\<close>

definition table_entries :: "env \<Rightarrow> hash_name \<Rightarrow> (string, 'v) fmap \<Rightarrow> 'v list" where
  "table_entries E h m = List.map_filter (fmlookup m) (hash_order E h (fmdom m))"

text \<open>The payloads in the order of the loops of \<open>binf_write\<close>.\<close>

definition db_payloads :: "env \<Rightarrow> db_t \<Rightarrow> payload list" where
  "db_payloads E db =
     map P_state (table_entries E H_states (states db)) @
     map P_counter (table_entries E H_counters (counters db)) @
     map P_sample (table_entries E H_samples (samples db)) @
     map P_event (events db) @
     map P_rate (table_entries E H_rates (rates db))"

definition map_size :: "32 word \<Rightarrow> int" where
  "map_size db_size = sint (db_size * 1024 * 1024)"

definition header_bytes :: "env \<Rightarrow> 32 word \<Rightarrow> string" where
  "header_bytes E n = ''BOLO'' @ mem16 (htons 1) @ mem16 0 @ mem32 (htonl (time_s E)) @ mem32 (htonl n)"

text \<open>
  The result is the return code and, when the file was opened, the bytes stored
  at its start; the rest of its size is zeros.
\<close>

definition binf_write :: "env \<Rightarrow> db_t \<Rightarrow> string \<Rightarrow> 32 word \<Rightarrow> (int \<times> (string \<times> nat) option) res" where
  "binf_write E db file db_size =
     (if \<not> sys_ok E Sys_open file then Inr (- 1, None)
      else let ps = db_payloads E db; size = map_size db_size in
        if \<not> (sys_ok E Sys_lseek file \<and> 0 \<le> size) then Inr (- 1, Some ([], 0))
        else if \<not> sys_ok E Sys_ftruncate file then Inr (- 1, Some ([], 0))
        else if \<not> (sys_ok E Sys_mmap file \<and> size \<noteq> 0) then Inr (- 1, Some ([], nat size))
        else
          bind_res (put_bytes (nat size) [] (header_bytes E (of_nat (length ps)))) (\<lambda>mem.
          bind_res (write_records E (nat size) mem ps) (\<lambda>mem.
          bind_res (put_bytes (nat size) mem [NUL, NUL]) (\<lambda>mem.
          Inr (0, Some (mem, nat size))))))"

section \<open>Reading it back\<close>

text \<open>
  \<open>get_bytes content mapped off n\<close>: \<open>n\<close> bytes at \<open>off\<close> of a mapping of which \<open>mapped\<close>
  bytes can be read; past the end of the file they are zero.
\<close>

definition get_bytes :: "string \<Rightarrow> nat \<Rightarrow> nat \<Rightarrow> nat \<Rightarrow> string res" where
  "get_bytes content mapped off n =
     (if off + n \<le> mapped then Inr (take n (drop off content @ replicate n NUL)) else Inl OutOfBounds)"

definition ntohl_double :: "env \<Rightarrow> string \<Rightarrow> real res" where
  "ntohl_double E bs = bind_res (double_u32 (dec_double E bs)) (\<lambda>u. Inr (real (unat (htonl u))))"

text \<open>
  The strings after the fixed part of a record: the copy of \<open>want\<close> bytes with a
  terminator added, and the check \<open>p - buf + 1 == want\<close> on the position \<open>p\<close>
  behind the first terminator. \<open>None\<close> is the return code 1.
\<close>

definition read_strings :: "string \<Rightarrow> nat \<Rightarrow> nat \<Rightarrow> 16 word \<Rightarrow> nat \<Rightarrow> (string \<times> nat) res" where
  "read_strings content mapped off len fixed =
     (if unat len < 4 + fixed then Inl OutOfBounds
      else let want = unat len - 4 - fixed
           in bind_res (get_bytes content mapped off want) (\<lambda>bs. Inr (bs @ [NUL], want)))"

definition two_strings :: "string \<Rightarrow> nat \<Rightarrow> (string \<times> string) option res" where
  "two_strings buf want =
     (let name = cstr buf; p = length name + 1
      in if p + 1 = want then Inr None
         else if length buf \<le> p then Inl OutOfBounds
         else Inr (Some (name, cstr (drop p buf))))"

definition blank_state :: state_t where
  "blank_state = \<lparr>state_type = \<lparr>type_name = [], freshness = 0, type_status = 0, type_summary = None\<rparr>,
     state_name = [], state_last_seen = 0, state_expiry = 0, state_status = 0, state_summary = [],
     state_stale = 0, state_ignore = 0\<rparr>"

definition null_window :: window_t where
  "null_window = \<lparr>window_name = None, window_time = 0\<rparr>"

definition s_read_state :: "string \<Rightarrow> nat \<Rightarrow> nat \<Rightarrow> 16 word \<Rightarrow> (nat \<times> payload option) res" where
  "s_read_state content mapped off len =
     bind_res (get_bytes content mapped off 7) (\<lambda>b.
     bind_res (read_strings content mapped (off + 7) len 7) (\<lambda>(buf, want).
     bind_res (two_strings buf want) (\<lambda>r.
     Inr (off + 7 + want, map_option (\<lambda>(name, summary). P_state (blank_state
       \<lparr>state_last_seen := htonl (get32 b), state_status := byte_char (b ! 4),
        state_stale := byte_char (b ! 5), state_ignore := byte_char (b ! 6),
        state_name := name, state_summary := summary\<rparr>)) r))))"

definition s_read_counter :: "string \<Rightarrow> nat \<Rightarrow> nat \<Rightarrow> 16 word \<Rightarrow> (nat \<times> payload option) res" where
  "s_read_counter content mapped off len =
     bind_res (get_bytes content mapped off 13) (\<lambda>b.
     bind_res (read_strings content mapped (off + 13) len 13) (\<lambda>(buf, want).
     Inr (off + 13 + want, Some (P_counter \<lparr>counter_window = null_window, counter_name = cstr buf,
       counter_last_seen = htonl (get32 b), counter_value = ntohll (get64 (drop 4 b)),
       counter_ignore = byte_char (b ! 12)\<rparr>))))"

definition s_read_sample :: "env \<Rightarrow> string \<Rightarrow> nat \<Rightarrow> nat \<Rightarrow> 16 word \<Rightarrow> (nat \<times> payload option) res" where
  "s_read_sample E content mapped off len =
     bind_res (get_bytes content mapped off 69) (\<lambda>b.
     bind_res (ntohl_double E (take 8 (drop 12 b))) (\<lambda>mn.
     bind_res (ntohl_double E (take 8 (drop 20 b))) (\<lambda>mx.
     bind_res (ntohl_double E (take 8 (drop 28 b))) (\<lambda>sm.
     bind_res (ntohl_double E (take 8 (drop 36 b))) (\<lambda>me.
     bind_res (ntohl_double E (take 8 (drop 44 b))) (\<lambda>me'.
     bind_res (ntohl_double E (take 8 (drop 52 b))) (\<lambda>va.
     bind_res (ntohl_double E (take 8 (drop 60 b))) (\<lambda>va'.
     bind_res (read_strings content mapped (off + 69) len 69) (\<lambda>(buf, want).
     Inr (off + 69 + want, Some (P_sample \<lparr>sample_window = null_window, sample_name = cstr buf,
       sample_last_seen = htonl (get32 b), sample_n = ntohll (get64 (drop 4 b)),
       sample_min = mn, sample_max = mx, sample_sum = sm, sample_mean = me, sample_mean' = me',
       sample_var = va, sample_var' = va', sample_ignore = byte_char (b ! 68)\<rparr>)))))))))))"

definition s_read_event :: "string \<Rightarrow> nat \<Rightarrow> nat \<Rightarrow> 16 word \<Rightarrow> (nat \<times> payload option) res" where
  "s_read_event content mapped off len =
     bind_res (get_bytes content mapped off 4) (\<lambda>b.
     bind_res (read_strings content mapped (off + 4) len 4) (\<lambda>(buf, want).
     bind_res (two_strings buf want) (\<lambda>r.
     Inr (off + 4 + want, map_option (\<lambda>(name, extra). P_event \<lparr>event_timestamp = htonl (get32 b),
       event_name = name, event_extra = extra\<rparr>) r))))"

definition s_read_rate :: "string \<Rightarrow> nat \<Rightarrow> nat \<Rightarrow> 16 word \<Rightarrow> (nat \<times> payload option) res" where
  "s_read_rate content mapped off len =
     bind_res (get_bytes content mapped off 25) (\<lambda>b.
     bind_res (read_strings content mapped (off + 25) len 25) (\<lambda>(buf, want).
     Inr (off + 25 + want,
       if length (cstr buf) + 2 = want then None
       else Some (P_rate \<lparr>rate_window = null_window, rate_name = cstr buf,
         rate_first_seen = htonl (get32 b), rate_last_seen = htonl (get32 (drop 4 b)),
         rate_first = ntohll (get64 (drop 8 b)), rate_last = ntohll (get64 (drop 16 b)),
         rate_ignore = byte_char (b ! 24)\<rparr>))))"

definition s_read_record :: "env \<Rightarrow> string \<Rightarrow> nat \<Rightarrow> nat \<Rightarrow> (nat \<times> payload option) res" where
  "s_read_record E content mapped off =
     bind_res (get_bytes content mapped off 4) (\<lambda>b.
     let len = htons (get16 b); t = htons (get16 (drop 2 b)) AND 0x000f
     in if t = 1 then s_read_state content mapped (off + 4) len
        else if t = 2 then s_read_counter content mapped (off + 4) len
        else if t = 3 then s_read_sample E content mapped (off + 4) len
        else if t = 4 then s_read_event content mapped (off + 4) len
        else if t = 5 then s_read_rate content mapped (off + 4) len
        else Inr (off + 4, None))"

text \<open>
  What \<open>binf_read\<close> does with one record that was read: the fields of the saved
  object are copied into the object the lookup finds; a saved object that the
  configuration does not know is dropped.
\<close>

definition merge_state :: "state_t \<Rightarrow> state_t \<Rightarrow> state_t" where
  "merge_state f p = f\<lparr>state_summary := state_summary p, state_last_seen := state_last_seen p,
     state_status := state_status p, state_stale := state_stale p, state_ignore := state_ignore p\<rparr>"

definition merge_counter :: "counter_t \<Rightarrow> counter_t \<Rightarrow> counter_t" where
  "merge_counter f p = f\<lparr>counter_last_seen := counter_last_seen p,
     counter_value := counter_value p, counter_ignore := counter_ignore p\<rparr>"

definition merge_sample :: "sample_t \<Rightarrow> sample_t \<Rightarrow> sample_t" where
  "merge_sample f p = f\<lparr>sample_last_seen := sample_last_seen p, sample_n := sample_n p,
     sample_min := sample_min p, sample_max := sample_max p, sample_sum := sample_sum p,
     sample_mean := sample_mean p, sample_mean' := sample_mean' p,
     sample_var := sample_var p, sample_var' := sample_var' p, sample_ignore := sample_ignore p\<rparr>"

definition merge_rate :: "rate_t \<Rightarrow> rate_t \<Rightarrow> rate_t" where
  "merge_rate f p = f\<lparr>rate_first_seen := rate_first_seen p, rate_last_seen := rate_last_seen p,
     rate_first := rate_first p, rate_last := rate_last p, rate_ignore := rate_ignore p\<rparr>"

fun restore :: "env \<Rightarrow> db_t \<Rightarrow> payload \<Rightarrow> db_t" where
  "restore E db (P_state p) =
     (case find_state E db (state_name p) of
        (Some f, db) \<Rightarrow> db\<lparr>states := fmupd (state_name p) (merge_state f p) (states db)\<rparr>
      | (None, db) \<Rightarrow> db)"
| "restore E db (P_counter p) =
     (case find_counter E db (counter_name p) of
        (Some f, db) \<Rightarrow> db\<lparr>counters := fmupd (counter_name p) (merge_counter f p) (counters db)\<rparr>
      | (None, db) \<Rightarrow> db)"
| "restore E db (P_sample p) =
     (case find_sample E db (sample_name p) of
        (Some f, db) \<Rightarrow> db\<lparr>samples := fmupd (sample_name p) (merge_sample f p) (samples db)\<rparr>
      | (None, db) \<Rightarrow> db)"
| "restore E db (P_event p) = db\<lparr>events := events db @ [p]\<rparr>"
| "restore E db (P_rate p) =
     (case find_rate E db (rate_name p) of
        (Some f, db) \<Rightarrow> db\<lparr>rates := fmupd (rate_name p) (merge_rate f p) (rates db)\<rparr>
      | (None, db) \<Rightarrow> db)"

fun read_records :: "env \<Rightarrow> string \<Rightarrow> nat \<Rightarrow> nat \<Rightarrow> nat \<Rightarrow> db_t \<Rightarrow> (nat option \<times> db_t) res" where
  "read_records E content mapped 0 off db = Inr (Some off, db)"
| "read_records E content mapped (Suc n) off db =
     bind_res (s_read_record E content mapped off) (\<lambda>(off, r).
       case r of
         None \<Rightarrow> Inr (None, db)
       | Some p \<Rightarrow> read_records E content mapped n off (restore E db p))"

definition page_round :: "env \<Rightarrow> nat \<Rightarrow> nat" where
  "page_round E n = (n + page_size E - 1) div page_size E * page_size E"

definition binf_read :: "env \<Rightarrow> db_t \<Rightarrow> string \<Rightarrow> 32 word \<Rightarrow> (int \<times> db_t) res" where
  "binf_read E db file db_size =
     (if \<not> sys_ok E Sys_open file then Inr (- 1, db)
      else let size = map_size db_size; content = file_data E file;
               mapped = min (nat size) (page_round E (length content)) in
        if \<not> (sys_ok E Sys_mmap file \<and> 0 < size) then Inr (- 1, db)
        else
          bind_res (get_bytes content mapped 0 16) (\<lambda>h.
          if take 4 h \<noteq> ''BOLO'' then Inr (- 1, db)
          else if htons (get16 (drop 4 h)) \<noteq> 1 then Inr (- 1, db)
          else
            bind_res (read_records E content mapped (unat (htonl (get32 (drop 12 h)))) 16 db) (\<lambda>(r, db).
            case r of
              None \<Rightarrow> Inr (- 1, db)
            | Some off \<Rightarrow>
                bind_res (get_bytes content mapped off 2) (\<lambda>t.
                if t \<noteq> [NUL, NUL] then Inr (1, db) else Inr (0, db)))))"

definition binf_sync :: "env \<Rightarrow> string \<Rightarrow> 32 word \<Rightarrow> int" where
  "binf_sync E file db_size =
     (if \<not> sys_ok E Sys_open file then - 1
      else if \<not> (sys_ok E Sys_mmap file \<and> 0 < map_size db_size) then - 1
      else if \<not> sys_ok E Sys_msync file then - 1
      else 0)"

section \<open>The codecs are inverse\<close>

lemma low_half:
  "ucast (ucast (a :: 16 word) OR push_bit 16 (ucast (b :: 16 word)) :: 32 word) = a"
  "ucast (ucast (c :: 32 word) OR push_bit 32 (ucast (d :: 32 word)) :: 64 word) = c"
  by (auto simp: bit_simps intro!: bit_word_eqI)

lemma bit_beyond: "\<not> bit (a :: 16 word) (16 + n)" "\<not> bit (c :: 32 word) (32 + n)"
  by (auto dest: bit_imp_le_length)

lemma high_half:
  "ucast (drop_bit 16 (ucast (a :: 16 word) OR push_bit 16 (ucast (b :: 16 word)) :: 32 word)) = b"
  "ucast (drop_bit 32 (ucast (c :: 32 word) OR push_bit 32 (ucast (d :: 32 word)) :: 64 word)) = d"
  by (auto simp: bit_simps bit_beyond intro!: bit_word_eqI)

lemma htons_htons [simp, codec]: "htons (htons w) = w"
  by (auto simp: htons_def bit_simps intro!: bit_word_eqI)

lemma htonl_htonl [simp, codec]: "htonl (htonl w) = w"
  unfolding htonl_def
  by (simp only: low_half high_half htons_htons halves)

lemma ntohll_htonll [simp, codec]: "ntohll (htonll w) = w"
  by (simp only: ntohll_def htonll_def Let_def low_half high_half htonl_htonl halves)

section \<open>Round trip of one record\<close>

lemma get_bytes_at:
  assumes "drop off content = bs @ rest" and "length bs = n" and "off + n \<le> mapped"
  shows "get_bytes content mapped off n = Inr bs"
  using assms by (simp add: get_bytes_def)

lemma drop_at:
  assumes "drop off content = bs @ rest" and "length bs = n"
  shows "drop (off + n) content = rest"
proof -
  have "drop (off + n) content = drop n (drop off content)" by (simp add: add.commute)
  with assms show ?thesis by simp
qed

lemma read_strings_at:
  assumes "drop off content = bs @ rest" and "unat len = 4 + fixed + length bs"
    and "off + length bs \<le> mapped"
  shows "read_strings content mapped off len fixed = Inr (bs @ [NUL], length bs)"
  using assms by (simp add: read_strings_def get_bytes_at)

lemma two_strings_ok:
  assumes "cstring a" and "cstring b" and "b \<noteq> []"
  shows "two_strings ((a @ [NUL] @ b @ [NUL]) @ [NUL]) (length (a @ [NUL] @ b @ [NUL])) = Inr (Some (a, b))"
  using assms by (simp add: two_strings_def Let_def)

lemma two_strings_empty:
  assumes "cstring a"
  shows "two_strings ((a @ [NUL] @ [] @ [NUL]) @ [NUL]) (length (a @ [NUL] @ [] @ [NUL])) = Inr None"
  using assms by (simp add: two_strings_def Let_def)

definition double_repr :: "env \<Rightarrow> env \<Rightarrow> bool" where
  "double_repr W R \<longleftrightarrow> (\<forall>u :: 32 word. length (enc_double W (real (unat u))) = 8 \<and>
     dec_double R (enc_double W (real (unat u))) = real (unat u))"

definition saved_double :: "real \<Rightarrow> real" where
  "saved_double x = (if x < 0 then 0 else real_of_int \<lfloor>x\<rfloor>)"

lemma double_u32_unat: "double_u32 (real (unat (u :: 32 word))) = Inr u"
proof -
  have "unat u < 2 ^ 32" using unsigned_less [of u, where 'a = nat] by simp
  then have "real (unat u) < 2 ^ 32"
    by (metis of_nat_less_iff of_nat_numeral of_nat_power)
  moreover have "(word_of_int (int (unat u)) :: 32 word) = u" by simp
  ultimately show ?thesis by (simp add: double_u32_def)
qed

lemma double_u32_saved:
  assumes "double_u32 x = Inr u"
  shows "real (unat u) = saved_double x"
proof -
  from assms have r: "- 1 < x" "x < 2 ^ 32"
    and u: "u = word_of_int (if x < 0 then 0 else \<lfloor>x\<rfloor>)"
    by (auto simp: double_u32_def split: if_splits)
  show ?thesis
  proof (cases "x < 0")
    case True
    with u show ?thesis by (simp add: saved_double_def)
  next
    case False
    have "0 \<le> \<lfloor>x\<rfloor>" "\<lfloor>x\<rfloor> < 2 ^ 32" using False r by (auto simp: floor_less_iff)
    then have "uint u = \<lfloor>x\<rfloor>"
      using False u by (simp add: uint_word_of_int)
    then have "int (unat u) = \<lfloor>x\<rfloor>" by simp
    then have "real (unat u) = real_of_int \<lfloor>x\<rfloor>" by linarith
    with False show ?thesis by (simp add: saved_double_def)
  qed
qed

lemma double_roundtrip:
  assumes "double_repr W R" and "htonl_double W x = Inr bs"
  shows "length bs = 8" and "ntohl_double R bs = Inr (saved_double x)"
proof -
  from assms(2) obtain u where u: "double_u32 x = Inr u" and bs: "bs = enc_double W (real (unat (htonl u)))"
    by (auto simp: htonl_double_def bind_res_Inr_iff)
  from assms(1) bs show "length bs = 8" by (simp add: double_repr_def)
  have "dec_double R bs = real (unat (htonl u))"
    using assms(1) bs by (simp add: double_repr_def)
  then show "ntohl_double R bs = Inr (saved_double x)"
    using double_u32_saved [OF u] by (simp add: ntohl_double_def double_u32_unat)
qed

lemma s_read_state_at:
  assumes d: "drop off content = mem32 (htonl ls) @ map char_byte [st, sl, ig] @ (name @ [NUL] @ summary @ [NUL]) @ rest"
    and c: "cstring name" "cstring summary" "summary \<noteq> []"
    and len: "unat len = 4 + 7 + length (name @ [NUL] @ summary @ [NUL])"
    and m: "off + 7 + length (name @ [NUL] @ summary @ [NUL]) \<le> mapped"
  shows "s_read_state content mapped off len = Inr (off + 7 + length (name @ [NUL] @ summary @ [NUL]),
    Some (P_state (blank_state\<lparr>state_last_seen := ls, state_status := st, state_stale := sl,
      state_ignore := ig, state_name := name, state_summary := summary\<rparr>)))"
proof -
  let ?h = "mem32 (htonl ls) @ map char_byte [st, sl, ig]"
  have h: "get_bytes content mapped off 7 = Inr ?h"
    using d m by (intro get_bytes_at [where rest = "(name @ [NUL] @ summary @ [NUL]) @ rest"]) auto
  have "drop (off + 7) content = (name @ [NUL] @ summary @ [NUL]) @ rest"
    using d by (intro drop_at [where bs = ?h]) auto
  then have "read_strings content mapped (off + 7) len 7 =
      Inr ((name @ [NUL] @ summary @ [NUL]) @ [NUL], length (name @ [NUL] @ summary @ [NUL]))"
    using len m by (intro read_strings_at) auto
  moreover have "?h ! 4 = char_byte st" "?h ! 5 = char_byte sl" "?h ! 6 = char_byte ig"
    by (simp_all add: nth_append)
  ultimately show ?thesis
    using h two_strings_ok [OF c] by (simp add: s_read_state_def)
qed

lemma s_read_counter_at:
  assumes d: "drop off content = mem32 (htonl ls) @ mem64 (htonll v) @ [char_byte ig] @ (name @ [NUL]) @ rest"
    and c: "cstring name"
    and len: "unat len = 4 + 13 + length (name @ [NUL])"
    and m: "off + 13 + length (name @ [NUL]) \<le> mapped"
  shows "s_read_counter content mapped off len = Inr (off + 13 + length (name @ [NUL]),
    Some (P_counter \<lparr>counter_window = null_window, counter_name = name, counter_last_seen = ls,
      counter_value = v, counter_ignore = ig\<rparr>))"
proof -
  let ?h = "mem32 (htonl ls) @ mem64 (htonll v) @ [char_byte ig]"
  have h: "get_bytes content mapped off 13 = Inr ?h"
    using d m by (intro get_bytes_at [where rest = "(name @ [NUL]) @ rest"]) auto
  have "drop (off + 13) content = (name @ [NUL]) @ rest"
    using d by (intro drop_at [where bs = ?h]) auto
  then have "read_strings content mapped (off + 13) len 13 =
      Inr ((name @ [NUL]) @ [NUL], length (name @ [NUL]))"
    using len m by (intro read_strings_at) auto
  moreover have "?h ! 12 = char_byte ig" "drop 4 ?h = mem64 (htonll v) @ [char_byte ig]"
    by (simp_all add: nth_append)
  ultimately show ?thesis
    using h c by (simp add: s_read_counter_def)
qed

lemma s_read_event_at:
  assumes d: "drop off content = mem32 (htonl ts) @ (name @ [NUL] @ extra @ [NUL]) @ rest"
    and c: "cstring name" "cstring extra"
    and len: "unat len = 4 + 4 + length (name @ [NUL] @ extra @ [NUL])"
    and m: "off + 4 + length (name @ [NUL] @ extra @ [NUL]) \<le> mapped"
  shows "s_read_event content mapped off len = Inr (off + 4 + length (name @ [NUL] @ extra @ [NUL]),
    if extra = [] then None
    else Some (P_event \<lparr>event_timestamp = ts, event_name = name, event_extra = extra\<rparr>))"
proof -
  let ?h = "mem32 (htonl ts)"
  have h: "get_bytes content mapped off 4 = Inr ?h"
    using d m by (intro get_bytes_at [where rest = "(name @ [NUL] @ extra @ [NUL]) @ rest"]) auto
  have "drop (off + 4) content = (name @ [NUL] @ extra @ [NUL]) @ rest"
    using d by (intro drop_at [where bs = ?h]) auto
  then have s: "read_strings content mapped (off + 4) len 4 =
      Inr ((name @ [NUL] @ extra @ [NUL]) @ [NUL], length (name @ [NUL] @ extra @ [NUL]))"
    using len m by (intro read_strings_at) auto
  have g: "get32 ?h = htonl ts" using get32_mem32 [of _ "[]"] by simp
  show ?thesis
  proof (cases "extra = []")
    case True
    with h s g two_strings_empty [OF c(1)] show ?thesis
      by (simp add: s_read_event_def)
  next
    case False
    with h s g two_strings_ok [OF c False] show ?thesis
      by (simp add: s_read_event_def)
  qed
qed

lemma s_read_rate_at:
  assumes d: "drop off content = mem32 (htonl fs) @ mem32 (htonl ls) @ mem64 (htonll f) @ mem64 (htonll l) @
      [char_byte ig] @ (name @ [NUL]) @ rest"
    and c: "cstring name"
    and len: "unat len = 4 + 25 + length (name @ [NUL])"
    and m: "off + 25 + length (name @ [NUL]) \<le> mapped"
  shows "s_read_rate content mapped off len = Inr (off + 25 + length (name @ [NUL]),
    Some (P_rate \<lparr>rate_window = null_window, rate_name = name, rate_first_seen = fs,
      rate_last_seen = ls, rate_first = f, rate_last = l, rate_ignore = ig\<rparr>))"
proof -
  let ?h = "mem32 (htonl fs) @ mem32 (htonl ls) @ mem64 (htonll f) @ mem64 (htonll l) @ [char_byte ig]"
  have h: "get_bytes content mapped off 25 = Inr ?h"
    using d m by (intro get_bytes_at [where rest = "(name @ [NUL]) @ rest"]) auto
  have "drop (off + 25) content = (name @ [NUL]) @ rest"
    using d by (intro drop_at [where bs = ?h]) auto
  then have "read_strings content mapped (off + 25) len 25 =
      Inr ((name @ [NUL]) @ [NUL], length (name @ [NUL]))"
    using len m by (intro read_strings_at) auto
  moreover have "?h ! 24 = char_byte ig"
    "drop 4 ?h = mem32 (htonl ls) @ mem64 (htonll f) @ mem64 (htonll l) @ [char_byte ig]"
    "drop 8 ?h = mem64 (htonll f) @ mem64 (htonll l) @ [char_byte ig]"
    "drop 16 ?h = mem64 (htonll l) @ [char_byte ig]"
    by (simp_all add: nth_append)
  ultimately show ?thesis
    using h c by (simp add: s_read_rate_def)
qed

lemma s_read_sample_at:
  assumes r: "double_repr W E"
    and v: "htonl_double W mn = Inr b1" "htonl_double W mx = Inr b2" "htonl_double W sm = Inr b3"
      "htonl_double W me = Inr b4" "htonl_double W me' = Inr b5" "htonl_double W va = Inr b6"
      "htonl_double W va' = Inr b7"
    and d: "drop off content = mem32 (htonl ls) @ mem64 (htonll n) @ b1 @ b2 @ b3 @ b4 @ b5 @ b6 @ b7 @
      [char_byte ig] @ (name @ [NUL]) @ rest"
    and c: "cstring name"
    and len: "unat len = 4 + 69 + length (name @ [NUL])"
    and m: "off + 69 + length (name @ [NUL]) \<le> mapped"
  shows "s_read_sample E content mapped off len = Inr (off + 69 + length (name @ [NUL]),
    Some (P_sample \<lparr>sample_window = null_window, sample_name = name, sample_last_seen = ls,
      sample_n = n, sample_min = saved_double mn, sample_max = saved_double mx,
      sample_sum = saved_double sm, sample_mean = saved_double me, sample_mean' = saved_double me',
      sample_var = saved_double va, sample_var' = saved_double va', sample_ignore = ig\<rparr>))"
proof -
  let ?h = "mem32 (htonl ls) @ mem64 (htonll n) @ b1 @ b2 @ b3 @ b4 @ b5 @ b6 @ b7 @ [char_byte ig]"
  note len8 [simp] = v [THEN double_roundtrip(1) [OF r]]
  have h: "get_bytes content mapped off 69 = Inr ?h"
    using d m by (intro get_bytes_at [where rest = "(name @ [NUL]) @ rest"]) auto
  have "drop (off + 69) content = (name @ [NUL]) @ rest"
    using d by (intro drop_at [where bs = ?h]) auto
  then have s: "read_strings content mapped (off + 69) len 69 =
      Inr ((name @ [NUL]) @ [NUL], length (name @ [NUL]))"
    using len m by (intro read_strings_at) auto
  have f: "?h ! 68 = char_byte ig"
    "drop 4 ?h = mem64 (htonll n) @ b1 @ b2 @ b3 @ b4 @ b5 @ b6 @ b7 @ [char_byte ig]"
    "take 8 (drop 12 ?h) = b1" "take 8 (drop 20 ?h) = b2" "take 8 (drop 28 ?h) = b3"
    "take 8 (drop 36 ?h) = b4" "take 8 (drop 44 ?h) = b5" "take 8 (drop 52 ?h) = b6"
    "take 8 (drop 60 ?h) = b7"
    by (simp_all add: nth_append)
  show ?thesis
    unfolding s_read_sample_def h bind_res_simps f v [THEN double_roundtrip(2) [OF r]] s
    using c by simp
qed

definition record_header :: "payload \<Rightarrow> string" where
  "record_header p = mem16 (htons (record_len p)) @ mem16 (htons (ucast (record_type p)))"

fun saved :: "payload \<Rightarrow> payload" where
  "saved (P_state s) = P_state (blank_state\<lparr>state_last_seen := state_last_seen s,
     state_status := state_status s, state_stale := state_stale s, state_ignore := state_ignore s,
     state_name := state_name s, state_summary := state_summary s\<rparr>)"
| "saved (P_counter c) = P_counter (c\<lparr>counter_window := null_window\<rparr>)"
| "saved (P_sample s) = P_sample (s\<lparr>sample_window := null_window,
     sample_min := saved_double (sample_min s), sample_max := saved_double (sample_max s),
     sample_sum := saved_double (sample_sum s), sample_mean := saved_double (sample_mean s),
     sample_mean' := saved_double (sample_mean' s), sample_var := saved_double (sample_var s),
     sample_var' := saved_double (sample_var' s)\<rparr>)"
| "saved (P_event e) = P_event e"
| "saved (P_rate r) = P_rate (r\<lparr>rate_window := null_window\<rparr>)"

fun payload_ok :: "payload \<Rightarrow> bool" where
  "payload_ok (P_state s) \<longleftrightarrow> cstring (state_name s) \<and> cstring (state_summary s) \<and>
     state_summary s \<noteq> [] \<and> length (state_name s) + length (state_summary s) + 13 < 2 ^ 16"
| "payload_ok (P_counter c) \<longleftrightarrow> cstring (counter_name c) \<and> length (counter_name c) + 18 < 2 ^ 16"
| "payload_ok (P_sample s) \<longleftrightarrow> cstring (sample_name s) \<and> length (sample_name s) + 74 < 2 ^ 16"
| "payload_ok (P_event e) \<longleftrightarrow> cstring (event_name e) \<and> cstring (event_extra e) \<and>
     event_extra e \<noteq> [] \<and> length (event_name e) + length (event_extra e) + 10 < 2 ^ 16"
| "payload_ok (P_rate r) \<longleftrightarrow> cstring (rate_name r) \<and> length (rate_name r) + 30 < 2 ^ 16"

lemma s_write_record_Inr:
  "s_write_record E cap mem p = Inr mem' \<longleftrightarrow>
    (\<exists>b. record_body E p = Inr b \<and> mem' = mem @ record_header p @ b \<and> length mem' \<le> cap)"
  by (auto simp: s_write_record_def record_header_def put_bytes_def bind_res_Inr_iff split: if_splits)

lemma unat16: "n < 2 ^ 16 \<Longrightarrow> unat (of_nat n :: 16 word) = n"
  by (subst unat_of_nat) simp

lemma unat_record_len:
  "payload_ok (P_state s) \<Longrightarrow> unat (record_len (P_state s)) =
     4 + 7 + length (state_name s @ [NUL] @ state_summary s @ [NUL])"
  "payload_ok (P_counter c) \<Longrightarrow> unat (record_len (P_counter c)) = 4 + 13 + length (counter_name c @ [NUL])"
  "payload_ok (P_sample m) \<Longrightarrow> unat (record_len (P_sample m)) = 4 + 69 + length (sample_name m @ [NUL])"
  "payload_ok (P_event e) \<Longrightarrow> unat (record_len (P_event e)) =
     4 + 4 + length (event_name e @ [NUL] @ event_extra e @ [NUL])"
  "payload_ok (P_rate r) \<Longrightarrow> unat (record_len (P_rate r)) = 4 + 25 + length (rate_name r @ [NUL])"
  by (simp only: record_len.simps, subst unat16; simp)+

lemma s_read_record_dispatch:
  assumes "drop off content = record_header p @ rest" and "off + 4 \<le> mapped"
  shows "s_read_record E content mapped off =
    (case p of
       P_state _ \<Rightarrow> s_read_state content mapped (off + 4) (record_len p)
     | P_counter _ \<Rightarrow> s_read_counter content mapped (off + 4) (record_len p)
     | P_sample _ \<Rightarrow> s_read_sample E content mapped (off + 4) (record_len p)
     | P_event _ \<Rightarrow> s_read_event content mapped (off + 4) (record_len p)
     | P_rate _ \<Rightarrow> s_read_rate content mapped (off + 4) (record_len p))"
    and "drop (off + 4) content = rest"
proof -
  have h: "get_bytes content mapped off 4 = Inr (record_header p)"
    using assms by (intro get_bytes_at) (auto simp: record_header_def)
  have g: "htons (get16 (record_header p)) = record_len p"
    "htons (get16 (drop 2 (record_header p))) = ucast (record_type p)"
    using get16_mem16 [of _ "[]"] by (simp_all add: record_header_def)
  show "s_read_record E content mapped off =
    (case p of
       P_state _ \<Rightarrow> s_read_state content mapped (off + 4) (record_len p)
     | P_counter _ \<Rightarrow> s_read_counter content mapped (off + 4) (record_len p)
     | P_sample _ \<Rightarrow> s_read_sample E content mapped (off + 4) (record_len p)
     | P_event _ \<Rightarrow> s_read_event content mapped (off + 4) (record_len p)
     | P_rate _ \<Rightarrow> s_read_rate content mapped (off + 4) (record_len p))"
    unfolding s_read_record_def h bind_res_simps Let_def g
    by (cases p) simp_all
  show "drop (off + 4) content = rest"
    using assms(1) by (intro drop_at) (auto simp: record_header_def)
qed

lemma record_roundtrip:
  assumes ok: "payload_ok p" and repr: "double_repr W E"
    and w: "s_write_record W cap mem p = Inr mem'"
    and d: "drop (length mem) content = drop (length mem) mem' @ rest"
    and m: "length mem' \<le> mapped"
  shows "s_read_record E content mapped (length mem) = Inr (length mem', Some (saved p))"
proof -
  from w obtain b where b: "record_body W p = Inr b" and mem': "mem' = mem @ record_header p @ b"
    by (auto simp: s_write_record_Inr)
  have l: "length (record_header p) = 4" by (simp add: record_header_def)
  have "drop (length mem) content = record_header p @ (b @ rest)"
    using d mem' by simp
  note disp = s_read_record_dispatch [OF this]
  have r: "s_read_record E content mapped (length mem) =
    (case p of
       P_state _ \<Rightarrow> s_read_state content mapped (length mem + 4) (record_len p)
     | P_counter _ \<Rightarrow> s_read_counter content mapped (length mem + 4) (record_len p)
     | P_sample _ \<Rightarrow> s_read_sample E content mapped (length mem + 4) (record_len p)
     | P_event _ \<Rightarrow> s_read_event content mapped (length mem + 4) (record_len p)
     | P_rate _ \<Rightarrow> s_read_rate content mapped (length mem + 4) (record_len p))"
    and db: "drop (length mem + 4) content = b @ rest"
    using m mem' l by (auto intro!: disp)
  have mb: "length mem + 4 + length b \<le> mapped" "length mem' = length mem + 4 + length b"
    using m mem' l by auto
  show ?thesis
  proof (cases p)
    case (P_state s)
    with b db have "drop (length mem + 4) content = mem32 (htonl (state_last_seen s)) @
        map char_byte [state_status s, state_stale s, state_ignore s] @
        (state_name s @ [NUL] @ state_summary s @ [NUL]) @ rest" by auto
    from s_read_state_at [OF this] P_state ok b mb r show ?thesis
      by (auto simp: unat_record_len simp del: record_len.simps)
  next
    case (P_counter c)
    with b db have "drop (length mem + 4) content = mem32 (htonl (counter_last_seen c)) @
        mem64 (htonll (counter_value c)) @ [char_byte (counter_ignore c)] @
        (counter_name c @ [NUL]) @ rest" by auto
    from s_read_counter_at [OF this] P_counter ok b mb r show ?thesis
      by (auto simp: unat_record_len simp del: record_len.simps)
  next
    case (P_event e)
    with b db have "drop (length mem + 4) content = mem32 (htonl (event_timestamp e)) @
        (event_name e @ [NUL] @ event_extra e @ [NUL]) @ rest" by auto
    from s_read_event_at [OF this] P_event ok b mb r show ?thesis
      by (auto simp: unat_record_len simp del: record_len.simps)
  next
    case (P_rate x)
    with b db have "drop (length mem + 4) content = mem32 (htonl (rate_first_seen x)) @
        mem32 (htonl (rate_last_seen x)) @ mem64 (htonll (rate_first x)) @
        mem64 (htonll (rate_last x)) @ [char_byte (rate_ignore x)] @ (rate_name x @ [NUL]) @ rest"
      by auto
    from s_read_rate_at [OF this] P_rate ok b mb r show ?thesis
      by (auto simp: unat_record_len simp del: record_len.simps)
  next
    case (P_sample s)
    with b obtain b1 b2 b3 b4 b5 b6 b7 where
      v: "htonl_double W (sample_min s) = Inr b1" "htonl_double W (sample_max s) = Inr b2"
        "htonl_double W (sample_sum s) = Inr b3" "htonl_double W (sample_mean s) = Inr b4"
        "htonl_double W (sample_mean' s) = Inr b5" "htonl_double W (sample_var s) = Inr b6"
        "htonl_double W (sample_var' s) = Inr b7"
      and bb: "b = mem32 (htonl (sample_last_seen s)) @ mem64 (htonll (sample_n s)) @
        b1 @ b2 @ b3 @ b4 @ b5 @ b6 @ b7 @ [char_byte (sample_ignore s)] @ (sample_name s @ [NUL])"
      by (auto simp: bind_res_Inr_iff)
    note len8 = v [THEN double_roundtrip(1) [OF repr]]
    from bb db have "drop (length mem + 4) content = mem32 (htonl (sample_last_seen s)) @
        mem64 (htonll (sample_n s)) @ b1 @ b2 @ b3 @ b4 @ b5 @ b6 @ b7 @
        [char_byte (sample_ignore s)] @ (sample_name s @ [NUL]) @ rest" by simp
    from s_read_sample_at [OF repr v this] P_sample ok bb mb r len8 show ?thesis
      by (auto simp: unat_record_len simp del: record_len.simps)
  qed
qed

end
