(* ===== verification/Bolo_Restart.thy ===== *)
theory Bolo_Restart
  imports Bolo_Binf
begin

text \<open>
  Saving the database and reading the file in a new process: the round trip of
  the whole file, what of the database a restart restores, when the records fit
  into the file, and a record that is written but refused when it is read.
\<close>

section \<open>Round trip of the whole file\<close>

lemma records_roundtrip:
  assumes "double_repr W R" and "\<forall>p \<in> set ps. payload_ok p"
    and "write_records W cap mem ps = Inr mem'"
    and "drop (length mem) content = drop (length mem) mem' @ rest" and "length mem' \<le> mapped"
  shows "length mem \<le> length mem' \<and> take (length mem) mem' = mem \<and>
    read_records R content mapped (length ps) (length mem) db =
      Inr (Some (length mem'), foldl (restore R) db (map saved ps))"
  using assms
proof (induction ps arbitrary: mem db)
  case Nil
  then show ?case by simp
next
  case (Cons p ps)
  from Cons.prems(3) obtain mem1 where w: "s_write_record W cap mem p = Inr mem1"
    and ws: "write_records W cap mem1 ps = Inr mem'"
    by (auto simp: bind_res_Inr_iff)
  from w obtain x where mem1: "mem1 = mem @ x"
    by (auto simp: s_write_record_Inr)
  have grow: "\<exists>y. mem' = mem1 @ y"
    using ws
  proof (induction ps arbitrary: mem1)
    case (Cons q qs)
    then show ?case by (fastforce simp: bind_res_Inr_iff s_write_record_Inr)
  qed simp
  then obtain y where y: "mem' = mem1 @ y" ..
  have d: "drop (length mem) content = x @ y @ rest"
    using Cons.prems(4) mem1 y by simp
  have "s_read_record R content mapped (length mem) = Inr (length mem1, Some (saved p))"
    using Cons.prems d mem1 y
    by (intro record_roundtrip [OF _ Cons.prems(1) w, where rest = "y @ rest"]) auto
  moreover have "drop (length mem1) content = drop (length mem1) mem' @ rest"
    using drop_at [OF d refl] mem1 y by simp
  ultimately show ?case
    using Cons.IH [OF Cons.prems(1) _ ws _ Cons.prems(5), of "restore R db (saved p)"]
      Cons.prems(2) mem1 y by auto
qed

lemma page_round_ge: "0 < page_size E \<Longrightarrow> n \<le> page_round E n"
proof -
  assume p: "0 < page_size E"
  have "n + page_size E - 1 = (n + page_size E - 1) div page_size E * page_size E +
      (n + page_size E - 1) mod page_size E"
    by simp
  moreover have "(n + page_size E - 1) mod page_size E < page_size E"
    using p by simp
  ultimately show ?thesis
    unfolding page_round_def using p by linarith
qed

lemma binf_roundtrip:
  assumes w: "binf_write W db file sz = Inr (0, Some (data, cap))"
    and f: "file_data R file = data @ replicate (cap - length data) NUL"
    and sys: "sys_ok R Sys_open file" "sys_ok R Sys_mmap file" "0 < page_size R"
    and ok: "\<forall>p \<in> set (db_payloads W db). payload_ok p"
    and n: "length (db_payloads W db) < 2 ^ 32"
    and repr: "double_repr W R"
  shows "binf_read R db0 file sz = Inr (0, foldl (restore R) db0 (map saved (db_payloads W db)))"
proof -
  let ?ps = "db_payloads W db" and ?h = "header_bytes W (of_nat (length (db_payloads W db)))"
  from w obtain mem where cap: "cap = nat (map_size sz)" "0 < map_size sz"
    and wr: "write_records W cap ?h ?ps = Inr mem"
    and data: "data = mem @ [NUL, NUL]" and fits: "length data \<le> cap"
    by (auto simp: binf_write_def Let_def put_bytes_def bind_res_Inr_iff split: if_splits)
  define rest where "rest = [NUL, NUL] @ replicate (cap - length data) NUL"
  let ?c = "file_data R file"
  have c: "?c = mem @ rest" using f data by (simp add: rest_def)
  have lc: "length ?c = cap" using f fits by simp
  define mapped where "mapped = min (nat (map_size sz)) (page_round R (length ?c))"
  have m: "length data \<le> mapped"
    using page_round_ge [OF sys(3), of cap] fits cap lc by (simp add: mapped_def)
  have lh: "length ?h = 16" by (simp add: header_bytes_def)
  have grow: "length ?h \<le> length mem \<and> take (length ?h) mem = ?h"
    and rd: "read_records R ?c mapped (length ?ps) (length ?h) db0 =
      Inr (Some (length mem), foldl (restore R) db0 (map saved ?ps))"
    using records_roundtrip [OF repr ok wr, of ?c rest mapped db0] c m data
      records_roundtrip [OF repr ok wr, of "mem" "[]" "length mem" db0]
    by auto
  have "get_bytes ?c mapped 0 16 = Inr ?h"
  proof (rule get_bytes_at)
    show "drop 0 ?c = ?h @ (drop 16 mem @ rest)"
      using c grow lh by (metis append_assoc append_take_drop_id drop0)
  qed (use m lh data grow in auto)
  moreover have "get_bytes ?c mapped (length mem) 2 = Inr [NUL, NUL]"
  proof (rule get_bytes_at)
    show "drop (length mem) ?c = [NUL, NUL] @ replicate (cap - length data) NUL"
      using c by (simp add: rest_def)
  qed (use m data in auto)
  moreover have "take 4 ?h = ''BOLO''" "htons (get16 (drop 4 ?h)) = 1"
    "htonl (get32 (drop 12 ?h)) = of_nat (length ?ps)"
    using get32_mem32 [of _ "[]"] by (simp_all add: header_bytes_def)
  moreover have "unat (of_nat (length ?ps) :: 32 word) = length ?ps"
    using n by (subst unat_of_nat) simp
  ultimately show ?thesis
    using sys cap rd lh c [symmetric]
    by (simp add: binf_read_def Let_def mapped_def [symmetric])
qed

section \<open>What a restart restores\<close>

lemma find_frames [frames]:
  "find_state E db n = (r, db') \<Longrightarrow> counters db' = counters db \<and> samples db' = samples db \<and>
     rates db' = rates db \<and> events db' = events db"
  "find_counter E db n = (r', db') \<Longrightarrow> states db' = states db \<and> samples db' = samples db \<and>
     rates db' = rates db \<and> events db' = events db"
  "find_sample E db n = (r'', db') \<Longrightarrow> states db' = states db \<and> counters db' = counters db \<and>
     rates db' = rates db \<and> events db' = events db"
  "find_rate E db n = (r3, db') \<Longrightarrow> states db' = states db \<and> counters db' = counters db \<and>
     samples db' = samples db \<and> events db' = events db"
  by (auto simp: find_state_def find_counter_def find_sample_def find_rate_def Let_def split: option.splits)

fun state_part where "state_part (P_state s) = Some s" | "state_part _ = None"
fun counter_part where "counter_part (P_counter c) = Some c" | "counter_part _ = None"
fun sample_part where "sample_part (P_sample s) = Some s" | "sample_part _ = None"
fun rate_part where "rate_part (P_rate r) = Some r" | "rate_part _ = None"
fun event_part where "event_part (P_event e) = Some e" | "event_part _ = None"

lemma restore_frames [frames]:
  "state_part p = None \<Longrightarrow> states (restore E db p) = states db"
  "counter_part p = None \<Longrightarrow> counters (restore E db p) = counters db"
  "sample_part p = None \<Longrightarrow> samples (restore E db p) = samples db"
  "rate_part p = None \<Longrightarrow> rates (restore E db p) = rates db"
  "event_part p = None \<Longrightarrow> events (restore E db p) = events db"
  by (cases p; auto dest: find_frames split: prod.splits option.splits)+

lemma map_filter_append: "List.map_filter f (xs @ ys) = List.map_filter f xs @ List.map_filter f ys"
  by (simp add: List.map_filter_def)

lemma map_filter_map: "List.map_filter f (map g xs) = List.map_filter (\<lambda>x. f (g x)) xs"
  by (simp add: List.map_filter_def o_def filter_map)

lemma map_filter_const:
  "List.map_filter (\<lambda>x. None) xs = []" "List.map_filter (\<lambda>x. Some (g x)) xs = map g xs"
  by (simp_all add: List.map_filter_def)

lemmas parts = db_payloads_def map_filter_append map_filter_map map_filter_const

lemma table_entries_keys:
  assumes "visits_all E" and "\<And>n v. fmlookup t n = Some v \<Longrightarrow> key v = n"
  shows "distinct (map key (table_entries E h t))"
    and "fmlookup t n = Some v \<Longrightarrow> v \<in> set (table_entries E h t)"
proof -
  have s: "set (hash_order E h (fmdom t)) = fset (fmdom t)" and d: "distinct (hash_order E h (fmdom t))"
    using visits_allD [OF assms(1)] by auto
  have "map key (List.map_filter (fmlookup t) ks) = ks" if "set ks \<subseteq> fset (fmdom t)" for ks
    using that
  proof (induction ks)
    case (Cons k ks)
    then obtain v where "fmlookup t k = Some v" by (auto simp: fmlookup_dom'_iff)
    with Cons assms(2) show ?case by (simp add: map_filter_simps)
  qed (simp add: map_filter_simps)
  then show "distinct (map key (table_entries E h t))"
    using s d by (simp add: table_entries_def)
  show "v \<in> set (table_entries E h t)" if v: "fmlookup t n = Some v"
  proof -
    from v have "n \<in> set (hash_order E h (fmdom t))" unfolding s by (rule fmdomI)
    with v show ?thesis by (force simp: table_entries_def List.map_filter_def)
  qed
qed

text \<open>
  A table of the database that records of the save file are merged into: the
  entry a payload carries for it, its name, and what of it overwrites the entry
  the lookup finds.
\<close>

locale restorable = rule_table table put rules pattern fresh lookup
  for table :: "db_t \<Rightarrow> (string, 'v) fmap" and put and rules :: "db_t \<Rightarrow> 'r list" and pattern and fresh
    and lookup +
  fixes part :: "payload \<Rightarrow> 'v option" and key :: "'v \<Rightarrow> string" and merge :: "'v \<Rightarrow> 'v \<Rightarrow> 'v"
  assumes restore_part: "part p = Some q \<Longrightarrow> restore E db p =
      (case lookup E db (key q) of
         (Some f, db) \<Rightarrow> put (fmupd (key q) (merge f q) (table db)) db | (None, db) \<Rightarrow> db)"
    and restore_other: "part p = None \<Longrightarrow> table (restore E db p) = table db"
begin

lemma restore_frame:
  assumes "part p = Some q" and "n \<noteq> key q"
  shows "fmlookup (table (restore E db p)) n = fmlookup (table db) n"
proof -
  obtain r db1 where l: "lookup E db (key q) = (r, db1)" by fastforce
  from lookup_frame [OF l] obtain t where "db1 = put t db" "\<And>m. m \<noteq> key q \<Longrightarrow> fmlookup t m = fmlookup (table db) m"
    by blast
  with assms l show ?thesis by (cases r) (simp_all add: restore_part table_put put_put)
qed

lemma restore_untouched:
  "n \<notin> key ` set (List.map_filter part ps) \<Longrightarrow>
    fmlookup (table (foldl (restore E) db ps)) n = fmlookup (table db) n"
proof (induction ps arbitrary: db)
  case (Cons p ps)
  then have "fmlookup (table (restore E db p)) n = fmlookup (table db) n"
    by (cases "part p") (auto simp: restore_other restore_frame map_filter_simps)
  with Cons show ?case by (auto simp: map_filter_simps split: option.splits)
qed simp

lemma restore_one:
  assumes "distinct (map key (List.map_filter part ps))" and "q \<in> set (List.map_filter part ps)"
    and "fmlookup (table db) (key q) = Some f"
  shows "fmlookup (table (foldl (restore E) db ps)) (key q) = Some (merge f q)"
  using assms
proof (induction ps arbitrary: db)
  case (Cons p ps)
  show ?case
  proof (cases "part p = Some q")
    case True
    with Cons.prems have "key q \<notin> key ` set (List.map_filter part ps)"
      by (simp add: map_filter_simps)
    moreover have "fmlookup (table (restore E db p)) (key q) = Some (merge f q)"
      using True Cons.prems(3) by (simp add: restore_part lookup_known table_put)
    ultimately show ?thesis by (simp add: restore_untouched)
  next
    case False
    with Cons.prems have q: "q \<in> set (List.map_filter part ps)"
      by (auto simp: map_filter_simps split: option.splits)
    moreover have "fmlookup (table (restore E db p)) (key q) = Some f"
    proof (cases "part p")
      case (Some r)
      with Cons.prems(1) q have "key q \<noteq> key r" by (auto simp: map_filter_simps) (metis image_eqI)
      with Some Cons.prems(3) show ?thesis by (simp add: restore_frame)
    qed (use Cons.prems(3) in \<open>simp add: restore_other\<close>)
    ultimately show ?thesis
      using Cons by (auto simp: map_filter_simps split: option.splits)
  qed
qed (simp add: map_filter_simps)

lemma restore_saved:
  assumes "visits_all W" and "\<And>n v. fmlookup t n = Some v \<Longrightarrow> key v = n"
    and "List.map_filter part ps = map save (table_entries W h t)" and "\<And>v. key (save v) = key v"
    and "fmlookup t n = Some v" and "fmlookup (table db) n = Some f"
  shows "fmlookup (table (foldl (restore E) db ps)) n = Some (merge f (save v))"
proof -
  have n: "key (save v) = n" using assms(2,4,5) by simp
  have "distinct (map key (map save (table_entries W h t)))"
    using table_entries_keys(1) [OF assms(1,2)] by (simp add: o_def assms(4))
  moreover have "save v \<in> set (map save (table_entries W h t))"
    using table_entries_keys(2) [OF assms(1,2,5)] by simp
  ultimately have "fmlookup (table (foldl (restore E) db ps)) (key (save v)) = Some (merge f (save v))"
    using assms(6) n unfolding assms(3) [symmetric] by (intro restore_one) auto
  then show ?thesis by (simp add: n)
qed

lemma restore_unsaved:
  assumes "\<And>n v. fmlookup t n = Some v \<Longrightarrow> key v = n"
    and "List.map_filter part ps = map save (table_entries W h t)" and "\<And>v. key (save v) = key v"
    and "fmlookup t n = None"
  shows "fmlookup (table (foldl (restore E) db ps)) n = fmlookup (table db) n"
proof (rule restore_untouched)
  have "key v \<noteq> n" if "v \<in> set (table_entries W h t)" for v
  proof -
    from that obtain k where k: "fmlookup t k = Some v" by (auto simp: table_entries_def List.map_filter_def)
    with assms(1) [OF k] assms(4) show ?thesis by auto
  qed
  then have "n \<notin> key ` set (table_entries W h t)" by blast
  then show "n \<notin> key ` set (List.map_filter part ps)" by (simp add: assms(2,3) image_image)
qed

end

interpretation state_restore: restorable states "\<lambda>t db. db\<lparr>states := t\<rparr>" state_matches re_state_re
  new_state find_state state_part state_name merge_state
proof
  fix p q E db
  assume "state_part p = Some q"
  then show "restore E db p = (case find_state E db (state_name q) of
      (Some f, db) \<Rightarrow> db\<lparr>states := fmupd (state_name q) (merge_state f q) (states db)\<rparr> | (None, db) \<Rightarrow> db)"
    by (cases p) auto
qed (rule restore_frames)

interpretation counter_restore: restorable counters "\<lambda>t db. db\<lparr>counters := t\<rparr>" counter_matches re_re
  "\<lambda>_. new_counter" find_counter counter_part counter_name merge_counter
proof
  fix p q E db
  assume "counter_part p = Some q"
  then show "restore E db p = (case find_counter E db (counter_name q) of
      (Some f, db) \<Rightarrow> db\<lparr>counters := fmupd (counter_name q) (merge_counter f q) (counters db)\<rparr> | (None, db) \<Rightarrow> db)"
    by (cases p) auto
qed (rule restore_frames)

interpretation sample_restore: restorable samples "\<lambda>t db. db\<lparr>samples := t\<rparr>" sample_matches re_re
  "\<lambda>_. new_sample" find_sample sample_part sample_name merge_sample
proof
  fix p q E db
  assume "sample_part p = Some q"
  then show "restore E db p = (case find_sample E db (sample_name q) of
      (Some f, db) \<Rightarrow> db\<lparr>samples := fmupd (sample_name q) (merge_sample f q) (samples db)\<rparr> | (None, db) \<Rightarrow> db)"
    by (cases p) auto
qed (rule restore_frames)

interpretation rate_restore: restorable rates "\<lambda>t db. db\<lparr>rates := t\<rparr>" rate_matches re_re
  "\<lambda>_. new_rate" find_rate rate_part rate_name merge_rate
proof
  fix p q E db
  assume "rate_part p = Some q"
  then show "restore E db p = (case find_rate E db (rate_name q) of
      (Some f, db) \<Rightarrow> db\<lparr>rates := fmupd (rate_name q) (merge_rate f q) (rates db)\<rparr> | (None, db) \<Rightarrow> db)"
    by (cases p) auto
qed (rule restore_frames)

text \<open>Every table lists its entries under their own names.\<close>

definition own_names :: "db_t \<Rightarrow> bool" where
  "own_names db \<longleftrightarrow> fmpred (\<lambda>n s. state_name s = n) (states db) \<and>
     fmpred (\<lambda>n c. counter_name c = n) (counters db) \<and>
     fmpred (\<lambda>n s. sample_name s = n) (samples db) \<and> fmpred (\<lambda>n r. rate_name r = n) (rates db)"

lemma own_namesD:
  assumes "own_names db"
  shows "fmlookup (states db) n = Some s \<Longrightarrow> state_name s = n"
    and "fmlookup (counters db) n = Some c \<Longrightarrow> counter_name c = n"
    and "fmlookup (samples db) n = Some m \<Longrightarrow> sample_name m = n"
    and "fmlookup (rates db) n = Some r \<Longrightarrow> rate_name r = n"
  using assms by (auto simp: own_names_def dest: fmpredD)

lemma event_restore: "events (foldl (restore E) db ps) = events db @ List.map_filter event_part ps"
proof (induction ps arbitrary: db)
  case (Cons p ps)
  have "events (restore E db p) = events db @ (case event_part p of None \<Rightarrow> [] | Some e \<Rightarrow> [e])"
  proof (cases "event_part p")
    case (Some e)
    then show ?thesis by (cases p) auto
  qed (simp add: restore_frames)
  with Cons show ?case by (auto simp: map_filter_simps split: option.splits)
qed (simp add: map_filter_simps)

definition saved_sample :: "sample_t \<Rightarrow> sample_t" where
  "saved_sample s = s\<lparr>sample_window := null_window,
     sample_min := saved_double (sample_min s), sample_max := saved_double (sample_max s),
     sample_sum := saved_double (sample_sum s), sample_mean := saved_double (sample_mean s),
     sample_mean' := saved_double (sample_mean' s), sample_var := saved_double (sample_var s),
     sample_var' := saved_double (sample_var' s)\<rparr>"

lemma restored:
  assumes v: "visits_all W" and o: "own_names db"
    and db': "db' = foldl (restore R) db0 (map saved (db_payloads W db))"
  shows "fmlookup (states db) n = Some s \<Longrightarrow> fmlookup (states db0) n = Some s0 \<Longrightarrow>
      fmlookup (states db') n = Some (merge_state s0 s)"
    and "fmlookup (counters db) n = Some c \<Longrightarrow> fmlookup (counters db0) n = Some c0 \<Longrightarrow>
      fmlookup (counters db') n = Some (merge_counter c0 c)"
    and "fmlookup (samples db) n = Some m \<Longrightarrow> fmlookup (samples db0) n = Some m0 \<Longrightarrow>
      fmlookup (samples db') n = Some (merge_sample m0 (saved_sample m))"
    and "fmlookup (rates db) n = Some r \<Longrightarrow> fmlookup (rates db0) n = Some r0 \<Longrightarrow>
      fmlookup (rates db') n = Some (merge_rate r0 r)"
    and "events db' = events db0 @ events db"
    and "fmlookup (states db) n = None \<Longrightarrow> fmlookup (states db') n = fmlookup (states db0) n"
    and "fmlookup (counters db) n = None \<Longrightarrow> fmlookup (counters db') n = fmlookup (counters db0) n"
    and "fmlookup (samples db) n = None \<Longrightarrow> fmlookup (samples db') n = fmlookup (samples db0) n"
    and "fmlookup (rates db) n = None \<Longrightarrow> fmlookup (rates db') n = fmlookup (rates db0) n"
proof -
  note own = own_namesD [OF o]
  let ?ps = "map saved (db_payloads W db)"
  let ?sv = "\<lambda>s. blank_state\<lparr>state_last_seen := state_last_seen s, state_status := state_status s,
    state_stale := state_stale s, state_ignore := state_ignore s, state_name := state_name s,
    state_summary := state_summary s\<rparr>"
  have p: "List.map_filter state_part ?ps = map ?sv (table_entries W H_states (states db))"
    "List.map_filter counter_part ?ps = map (\<lambda>c. c\<lparr>counter_window := null_window\<rparr>)
       (table_entries W H_counters (counters db))"
    "List.map_filter sample_part ?ps = map saved_sample (table_entries W H_samples (samples db))"
    "List.map_filter rate_part ?ps = map (\<lambda>r. r\<lparr>rate_window := null_window\<rparr>)
       (table_entries W H_rates (rates db))"
    "List.map_filter event_part ?ps = events db"
    by (simp_all add: parts saved_sample_def)
  show "events db' = events db0 @ events db"
    by (simp add: db' event_restore p)
  show "fmlookup (states db') n = Some (merge_state s0 s)"
    if "fmlookup (states db) n = Some s" "fmlookup (states db0) n = Some s0"
    using state_restore.restore_saved [OF v own(1) p(1) _ that] by (simp add: db' merge_state_def)
  show "fmlookup (counters db') n = Some (merge_counter c0 c)"
    if "fmlookup (counters db) n = Some c" "fmlookup (counters db0) n = Some c0"
    using counter_restore.restore_saved [OF v own(2) p(2) _ that] by (simp add: db' merge_counter_def)
  show "fmlookup (samples db') n = Some (merge_sample m0 (saved_sample m))"
    if "fmlookup (samples db) n = Some m" "fmlookup (samples db0) n = Some m0"
    using sample_restore.restore_saved [OF v own(3) p(3) _ that] by (simp add: db' saved_sample_def)
  show "fmlookup (rates db') n = Some (merge_rate r0 r)"
    if "fmlookup (rates db) n = Some r" "fmlookup (rates db0) n = Some r0"
    using rate_restore.restore_saved [OF v own(4) p(4) _ that] by (simp add: db' merge_rate_def)
  show "fmlookup (states db') n = fmlookup (states db0) n" if "fmlookup (states db) n = None"
    using state_restore.restore_unsaved [OF own(1) p(1) _ that] by (simp add: db')
  show "fmlookup (counters db') n = fmlookup (counters db0) n" if "fmlookup (counters db) n = None"
    using counter_restore.restore_unsaved [OF own(2) p(2) _ that] by (simp add: db')
  show "fmlookup (samples db') n = fmlookup (samples db0) n" if "fmlookup (samples db) n = None"
    using sample_restore.restore_unsaved [OF own(3) p(3) _ that] by (simp add: db' saved_sample_def)
  show "fmlookup (rates db') n = fmlookup (rates db0) n" if "fmlookup (rates db) n = None"
    using rate_restore.restore_unsaved [OF own(4) p(4) _ that] by (simp add: db')
qed

text \<open>The number of bytes of a record, without the wrap-around of its length field.\<close>

fun record_size :: "payload \<Rightarrow> nat" where
  "record_size (P_state s) = 13 + length (state_name s) + length (state_summary s)"
| "record_size (P_counter c) = 18 + length (counter_name c)"
| "record_size (P_sample s) = 74 + length (sample_name s)"
| "record_size (P_event e) = 10 + length (event_name e) + length (event_extra e)"
| "record_size (P_rate r) = 30 + length (rate_name r)"

fun convertible :: "payload \<Rightarrow> bool" where
  "convertible (P_sample s) \<longleftrightarrow> list_all (\<lambda>x. - 1 < x \<and> x < 2 ^ 32)
     [sample_min s, sample_max s, sample_sum s, sample_mean s, sample_mean' s, sample_var s, sample_var' s]"
| "convertible _ \<longleftrightarrow> True"

lemma htonl_double_ok:
  "double_repr E E \<Longrightarrow> - 1 < x \<Longrightarrow> x < 2 ^ 32 \<Longrightarrow> \<exists>b. htonl_double E x = Inr b \<and> length b = 8"
  by (simp add: htonl_double_def double_u32_def double_repr_def)

lemma record_body_size:
  assumes "double_repr E E" and "convertible p"
  obtains b where "record_body E p = Inr b" and "4 + length b = record_size p"
proof (cases p)
  case (P_sample s)
  note ok = htonl_double_ok [OF assms(1)]
  from P_sample assms(2) obtain b1 b2 b3 b4 b5 b6 b7 where
      "htonl_double E (sample_min s) = Inr b1 \<and> length b1 = 8" "htonl_double E (sample_max s) = Inr b2 \<and> length b2 = 8"
      "htonl_double E (sample_sum s) = Inr b3 \<and> length b3 = 8" "htonl_double E (sample_mean s) = Inr b4 \<and> length b4 = 8"
      "htonl_double E (sample_mean' s) = Inr b5 \<and> length b5 = 8" "htonl_double E (sample_var s) = Inr b6 \<and> length b6 = 8"
      "htonl_double E (sample_var' s) = Inr b7 \<and> length b7 = 8"
    using ok [of "sample_min s"] ok [of "sample_max s"] ok [of "sample_sum s"] ok [of "sample_mean s"]
      ok [of "sample_mean' s"] ok [of "sample_var s"] ok [of "sample_var' s"] by auto
  with P_sample that show ?thesis by simp
qed (use that in auto)

lemma write_records_fits:
  assumes "double_repr E E" and "\<forall>p \<in> set ps. convertible p" and "length mem \<le> cap"
  shows "if length mem + sum_list (map record_size ps) \<le> cap
    then \<exists>mem'. write_records E cap mem ps = Inr mem' \<and>
      length mem' = length mem + sum_list (map record_size ps)
    else write_records E cap mem ps = Inl OutOfBounds"
  using assms
proof (induction ps arbitrary: mem)
  case (Cons p ps)
  obtain b where b: "record_body E p = Inr b" "4 + length b = record_size p"
    using record_body_size Cons.prems by (metis list.set_intros(1))
  define m where "m = mem @ record_header p @ b"
  have l: "length m = length mem + record_size p" using b by (simp add: m_def record_header_def)
  show ?case
  proof (cases "length m \<le> cap")
    case True
    then have "s_write_record E cap mem p = Inr m" using b by (simp add: s_write_record_Inr m_def)
    with Cons.IH [of m] Cons.prems True l show ?thesis by (auto simp: add.assoc split: if_splits)
  next
    case False
    with b l Cons.prems have "s_write_record E cap mem p = Inl OutOfBounds"
      by (auto simp: s_write_record_def put_bytes_def record_header_def)
    with False l show ?thesis by simp
  qed
qed simp

text \<open>
  C15: saving writes every record inside the mapped area and returns 0
  exactly when header, records and trailer fit into \<open>save.size\<close> megabytes; when
  they do not, it writes past the end of the area.
\<close>

theorem save_fits:
  assumes "sys_ok E Sys_open file" and "sys_ok E Sys_lseek file" and "sys_ok E Sys_ftruncate file"
    and "sys_ok E Sys_mmap file" and "0 < map_size sz" and "double_repr E E"
    and "\<forall>p \<in> set (db_payloads E db). convertible p"
    and "need = 18 + sum_list (map record_size (db_payloads E db))"
  shows "if int need \<le> map_size sz
    then \<exists>data. binf_write E db file sz = Inr (0, Some (data, nat (map_size sz))) \<and> length data = need
    else binf_write E db file sz = Inl OutOfBounds"
proof -
  let ?ps = "db_payloads E db" and ?h = "header_bytes E (of_nat (length (db_payloads E db)))"
  let ?cap = "nat (map_size sz)"
  have lh: "length ?h = 16" by (simp add: header_bytes_def)
  have w: "binf_write E db file sz = bind_res (put_bytes ?cap [] ?h) (\<lambda>mem.
      bind_res (write_records E ?cap mem ?ps) (\<lambda>mem.
      bind_res (put_bytes ?cap mem [NUL, NUL]) (\<lambda>mem. Inr (0, Some (mem, ?cap)))))"
    using assms by (simp add: binf_write_def Let_def)
  show ?thesis
  proof (cases "16 \<le> ?cap")
    case True
    with write_records_fits [OF assms(6,7), of ?h ?cap] assms(5,8) lh show ?thesis
      by (auto simp: w put_bytes_def split: if_splits)
  next
    case False
    with assms(5,8) lh show ?thesis by (auto simp: w put_bytes_def)
  qed
qed

text \<open>
  Note: an event whose extra text is empty is saved as a record that the
  reader refuses, so that the rest of the file is not restored.
\<close>

theorem empty_extra_unreadable:
  assumes "event_extra e = []" and "cstring (event_name e)" and "length (event_name e) + 10 < 2 ^ 16"
    and w: "s_write_record W cap mem (P_event e) = Inr mem'"
  shows "s_read_record R (mem' @ rest) (length (mem' @ rest)) (length mem) = Inr (length mem', None)"
proof -
  from w obtain b where b: "record_body W (P_event e) = Inr b" and mem': "mem' = mem @ record_header (P_event e) @ b"
    by (auto simp: s_write_record_Inr)
  let ?c = "mem' @ rest" and ?o = "length mem + 4"
  have l: "length (record_header (P_event e)) = 4" by (simp add: record_header_def)
  have "drop (length mem) ?c = record_header (P_event e) @ (b @ rest)" using mem' by simp
  note disp = s_read_record_dispatch [OF this]
  have len: "unat (record_len (P_event e)) = 4 + 4 + length (event_name e @ [NUL] @ event_extra e @ [NUL])"
    using assms(1,3) by (simp only: record_len.simps, subst unat16) simp_all
  have "drop ?o ?c = b @ rest"
    using mem' l by (intro disp(2) [of "length ?c"]) simp
  then have "s_read_event ?c (length ?c) ?o (record_len (P_event e)) = Inr (length mem', None)"
    using s_read_event_at [of ?o ?c "event_timestamp e" "event_name e" "event_extra e" rest
        "record_len (P_event e)" "length ?c"] assms len mem' l b
    by (auto simp: cstring_def add.commute simp del: record_len.simps)
  with disp(1) [of "length ?c" R] mem' l show ?thesis by simp
qed

lemma restore_events_count: "events_count (restore E db p) = events_count db"
  by (cases p) (auto simp: find_state_def find_counter_def find_sample_def find_rate_def Let_def
    split: option.split)

lemma restores_events_count: "events_count (foldl (restore E) db ps) = events_count db"
  by (induction ps arbitrary: db) (simp_all add: restore_events_count)

text \<open>
  What a restart must leave of an entry: all fields as they were saved, but the type or
  window, the name and the expiry of the entry the new process has. Of a sample the seven doubles
  come back as whole numbers, cut towards zero.
\<close>

definition state_back :: "state_t \<Rightarrow> state_t \<Rightarrow> state_t" where
  "state_back s0 s = s\<lparr>state_type := state_type s0, state_name := state_name s0, state_expiry := state_expiry s0\<rparr>"

definition counter_back :: "counter_t \<Rightarrow> counter_t \<Rightarrow> counter_t" where
  "counter_back c0 c = c\<lparr>counter_window := counter_window c0, counter_name := counter_name c0\<rparr>"

definition whole :: "real \<Rightarrow> real" where
  "whole x = (if x < 0 then 0 else real_of_int \<lfloor>x\<rfloor>)"

definition sample_back :: "sample_t \<Rightarrow> sample_t \<Rightarrow> sample_t" where
  "sample_back m0 m = m\<lparr>sample_window := sample_window m0, sample_name := sample_name m0,
     sample_min := whole (sample_min m), sample_max := whole (sample_max m), sample_sum := whole (sample_sum m),
     sample_mean := whole (sample_mean m), sample_mean' := whole (sample_mean' m),
     sample_var := whole (sample_var m), sample_var' := whole (sample_var' m)\<rparr>"

definition rate_back :: "rate_t \<Rightarrow> rate_t \<Rightarrow> rate_t" where
  "rate_back r0 r = r\<lparr>rate_window := rate_window r0, rate_name := rate_name r0\<rparr>"

lemma merged_back:
  "merge_state s0 s = state_back s0 s" "merge_counter c0 c = counter_back c0 c"
  "merge_sample m0 (saved_sample m) = sample_back m0 m" "merge_rate r0 r = rate_back r0 r"
  by (simp_all add: merge_state_def state_back_def merge_counter_def counter_back_def merge_sample_def
      saved_sample_def sample_back_def whole_def saved_double_def merge_rate_def rate_back_def)

text \<open>The entries of a table after a restart, given those that were saved and those of the new process.\<close>

definition table_back :: "('v \<Rightarrow> 'v \<Rightarrow> 'v) \<Rightarrow> (string, 'v) fmap \<Rightarrow> (string, 'v) fmap \<Rightarrow> (string, 'v) fmap \<Rightarrow> bool" where
  "table_back back t t0 t' \<longleftrightarrow>
     (\<forall>n v v0. fmlookup t n = Some v \<longrightarrow> fmlookup t0 n = Some v0 \<longrightarrow> fmlookup t' n = Some (back v0 v)) \<and>
     (\<forall>n. fmlookup t n = None \<longrightarrow> fmlookup t' n = fmlookup t0 n)"

text \<open>
  C2: the database is saved and a new process reads the file. When every
  record can be read back (no empty summary, no event without text, names and texts
  that fit a record) every state, counter, sample and rate that the new process has
  under its name comes back with its saved fields; only the type or window and the expiry
  are those of the new process, and the doubles of a sample are cut to whole numbers. Entries
  that were not saved keep their values. The saved events follow those already there, and
  the counter of buffered events is left as it was.
\<close>

theorem save_restart:
  assumes "binf_write W db file sz = Inr (0, Some (data, cap))"
    and "file_data R file = data @ replicate (cap - length data) NUL"
    and "sys_ok R Sys_open file" and "sys_ok R Sys_mmap file" and "0 < page_size R"
    and "\<forall>p \<in> set (db_payloads W db). payload_ok p" and "length (db_payloads W db) < 2 ^ 32"
    and "double_repr W R" and "visits_all W" and "own_names db"
  shows "\<exists>db'. binf_read R db0 file sz = Inr (0, db') \<and>
    table_back state_back (states db) (states db0) (states db') \<and>
    table_back counter_back (counters db) (counters db0) (counters db') \<and>
    table_back sample_back (samples db) (samples db0) (samples db') \<and>
    table_back rate_back (rates db) (rates db0) (rates db') \<and>
    events db' = events db0 @ events db \<and> events_count db' = events_count db0"
proof -
  let ?db' = "foldl (restore R) db0 (map saved (db_payloads W db))"
  have "binf_read R db0 file sz = Inr (0, ?db')"
    using binf_roundtrip assms(1-8) by blast
  with restored [OF assms(9,10) refl [of ?db']] show ?thesis
    by (auto simp: restores_events_count table_back_def merged_back)
qed

text \<open>A small database and an empty one that knows its state and counter, for the witnesses.\<close>

definition small_db :: db_t where
  "small_db = empty_db\<lparr>states := fmupd ''s'' (blank_state\<lparr>state_name := ''s'', state_status := 1,
       state_summary := ''slow'', state_last_seen := 999\<rparr>) fmempty,
     counters := fmupd ''c'' \<lparr>counter_window = \<lparr>window_name = None, window_time = 60\<rparr>,
       counter_name = ''c'', counter_last_seen = 77, counter_value = 1099511627781,
       counter_ignore = 0\<rparr> fmempty,
     events := [\<lparr>event_timestamp = 5, event_name = ''e'', event_extra = ''x''\<rparr>], events_count := 1\<rparr>"

definition fresh_db :: db_t where
  "fresh_db = small_db\<lparr>states := fmupd ''s'' (blank_state\<lparr>state_name := ''s'', state_status := 4\<rparr>) fmempty,
     counters := fmupd ''c'' \<lparr>counter_window = \<lparr>window_name = None, window_time = 60\<rparr>,
       counter_name = ''c'', counter_last_seen = 0, counter_value = 0, counter_ignore = 0\<rparr> fmempty,
     events := [], events_count := 0\<rparr>"

lemma small_db_payloads: "db_payloads plain_env small_db =
  [P_state (blank_state\<lparr>state_name := ''s'', state_status := 1, state_summary := ''slow'', state_last_seen := 999\<rparr>),
   P_counter \<lparr>counter_window = \<lparr>window_name = None, window_time = 60\<rparr>, counter_name = ''c'',
     counter_last_seen = 77, counter_value = 1099511627781, counter_ignore = 0\<rparr>,
   P_event \<lparr>event_timestamp = 5, event_name = ''e'', event_extra = ''x''\<rparr>]"
  by (simp add: small_db_def empty_db_def db_payloads_def plain_env_def table_entries_def)

lemma small_db_payload_ok: "\<forall>p \<in> set (db_payloads plain_env small_db). payload_ok p"
  by (simp add: small_db_payloads cstring_def)

lemma small_db_own_names: "own_names small_db"
  by (auto simp: own_names_def small_db_def empty_db_def)

lemma plain_env_double_repr:
  "double_repr plain_env (plain_env\<lparr>file_data := d\<rparr>)" "double_repr plain_env plain_env"
proof -
  have "real (unat (get64 (mem64 (word_of_int \<lfloor>real (unat u)\<rfloor>)))) = real (unat u)" for u :: "32 word"
  proof -
    have "(word_of_int \<lfloor>real (unat u)\<rfloor> :: 64 word) = of_nat (unat u)" by (simp del: int_unat_eq)
    moreover have "unat (of_nat (unat u) :: 64 word) = unat u"
      using unsigned_less [of u, where 'a = nat] by (subst unat_of_nat) simp
    ultimately show ?thesis using get64_mem64 [of _ "[]"] by simp
  qed
  then show "double_repr plain_env (plain_env\<lparr>file_data := d\<rparr>)" "double_repr plain_env plain_env"
    by (simp_all add: double_repr_def plain_env_def)
qed

lemma small_db_write:
  "\<exists>data. binf_write plain_env small_db ''f'' 1 = Inr (0, Some (data, 1048576)) \<and> length data = 67"
  by (simp add: binf_write_def Let_def small_db_payloads map_size_def header_bytes_def put_bytes_def
    s_write_record_def blank_state_def)

text \<open>The same with a sample and a rate.\<close>

definition minute :: window_t where
  "minute = \<lparr>window_name = None, window_time = 60\<rparr>"

definition full_sample :: sample_t where
  "full_sample = \<lparr>sample_window = minute, sample_name = ''m'', sample_last_seen = 78, sample_n = 2, sample_min = 1,
     sample_max = 2, sample_sum = 3, sample_mean = 3/2, sample_mean' = 1, sample_var = 1/4, sample_var' = 0, sample_ignore = 0\<rparr>"

definition full_rate :: rate_t where
  "full_rate = \<lparr>rate_window = minute, rate_name = ''r'', rate_first_seen = 60, rate_last_seen = 70, rate_first = 5,
     rate_last = 9, rate_ignore = 0\<rparr>"

definition full_db :: db_t where
  "full_db = small_db\<lparr>samples := fmupd ''m'' full_sample fmempty, rates := fmupd ''r'' full_rate fmempty\<rparr>"

definition full_fresh :: db_t where
  "full_fresh = fresh_db\<lparr>samples := fmupd ''m'' (sample_reset full_sample) fmempty,
     rates := fmupd ''r'' (rate_reset full_rate) fmempty\<rparr>"

lemma full_db_payloads: "db_payloads plain_env full_db =
  [P_state (blank_state\<lparr>state_name := ''s'', state_status := 1, state_summary := ''slow'', state_last_seen := 999\<rparr>),
   P_counter \<lparr>counter_window = \<lparr>window_name = None, window_time = 60\<rparr>, counter_name = ''c'',
     counter_last_seen = 77, counter_value = 1099511627781, counter_ignore = 0\<rparr>,
   P_sample full_sample, P_event \<lparr>event_timestamp = 5, event_name = ''e'', event_extra = ''x''\<rparr>, P_rate full_rate]"
  by (simp add: full_db_def small_db_def empty_db_def db_payloads_def plain_env_def table_entries_def)

lemma full_db_write: "\<exists>data. binf_write plain_env full_db ''f'' 1 = Inr (0, Some (data, 1048576))"
proof -
  have c: "\<forall>p \<in> set (db_payloads plain_env full_db). convertible p"
    by (simp add: full_db_payloads full_sample_def)
  have h: "length (header_bytes plain_env n) = 16" for n by (simp add: header_bytes_def)
  have n: "sum_list (map record_size (db_payloads plain_env full_db)) = 155" "length (db_payloads plain_env full_db) = 5"
    by (simp_all add: full_db_payloads blank_state_def full_sample_def full_rate_def)
  obtain mem where "write_records plain_env 1048576 (header_bytes plain_env 5) (db_payloads plain_env full_db) = Inr mem"
    "length mem = 171"
    using write_records_fits [OF plain_env_double_repr(2) c, of "header_bytes plain_env 5" 1048576] by (auto simp: h n)
  then show ?thesis
    by (simp add: binf_write_def Let_def map_size_def put_bytes_def h n)
qed

lemma full_db_ok: "\<forall>p \<in> set (db_payloads plain_env full_db). payload_ok p" "own_names full_db"
  by (simp add: full_db_payloads cstring_def full_sample_def full_rate_def)
    (auto simp: own_names_def full_db_def small_db_def empty_db_def full_sample_def full_rate_def)

theorem save_restart_witness:
  "\<exists>data db'. binf_write plain_env full_db ''f'' 1 = Inr (0, Some (data, 1048576)) \<and>
    binf_read (plain_env\<lparr>file_data := \<lambda>_. data @ replicate (1048576 - length data) NUL\<rparr>) full_fresh ''f'' 1 =
      Inr (0, db') \<and>
    map_option (\<lambda>s. (state_status s, state_summary s, state_last_seen s)) (fmlookup (states db') ''s'') = Some (1, ''slow'', 999) \<and>
    map_option (\<lambda>c. (counter_value c, counter_last_seen c)) (fmlookup (counters db') ''c'') = Some (1099511627781, 77) \<and>
    map_option (\<lambda>m. (sample_n m, sample_sum m, sample_mean m)) (fmlookup (samples db') ''m'') = Some (2, 3, 1) \<and>
    map_option (\<lambda>r. (rate_first r, rate_last r)) (fmlookup (rates db') ''r'') = Some (5, 9) \<and> length (events db') = 1"
proof -
  obtain data where d: "binf_write plain_env full_db ''f'' 1 = Inr (0, Some (data, 1048576))"
    using full_db_write by blast
  let ?R = "plain_env\<lparr>file_data := \<lambda>_. data @ replicate (1048576 - length data) NUL\<rparr>"
  obtain db' where "binf_read ?R full_fresh ''f'' 1 = Inr (0, db')"
    and t: "table_back state_back (states full_db) (states full_fresh) (states db')"
      "table_back counter_back (counters full_db) (counters full_fresh) (counters db')"
      "table_back sample_back (samples full_db) (samples full_fresh) (samples db')"
      "table_back rate_back (rates full_db) (rates full_fresh) (rates db')"
    and "events db' = events full_fresh @ events full_db"
    using save_restart [OF d, of ?R full_fresh] full_db_ok plain_env_double_repr by (auto simp: full_db_payloads)
  moreover note t [unfolded table_back_def full_db_def full_fresh_def fresh_db_def small_db_def empty_db_def]
  ultimately show ?thesis
    using d by (auto simp: state_back_def counter_back_def sample_back_def rate_back_def whole_def full_sample_def full_rate_def
        full_db_def full_fresh_def fresh_db_def small_db_def empty_db_def)
qed

theorem save_fits_witness:
  "\<exists>data. binf_write plain_env small_db ''f'' 1 = Inr (0, Some (data, 1048576)) \<and> length data = 67"
  using save_fits [of plain_env "''f''" 1 small_db 67] plain_env_double_repr
  by (simp add: small_db_payloads map_size_def blank_state_def)

theorem empty_extra_unreadable_witness:
  "\<exists>mem'. s_write_record plain_env 100 [] (P_event \<lparr>event_timestamp = 5, event_name = ''e'', event_extra = []\<rparr>) = Inr mem' \<and>
    s_read_record plain_env (mem' @ [NUL, NUL]) (length (mem' @ [NUL, NUL])) 0 = Inr (length mem', None)"
proof -
  let ?e = "\<lparr>event_timestamp = 5, event_name = ''e'', event_extra = []\<rparr>"
  obtain mem' where w: "s_write_record plain_env 100 [] (P_event ?e) = Inr mem'"
    by (simp add: s_write_record_def put_bytes_def)
  have "s_read_record plain_env (mem' @ [NUL, NUL]) (length (mem' @ [NUL, NUL])) (length ([] :: string)) = Inr (length mem', None)"
    by (rule empty_extra_unreadable [OF _ _ _ w]) (simp_all add: cstring_def)
  with w show ?thesis by auto
qed

end
