(* ===== verification/Bolo_Windows.thy ===== *)
theory Bolo_Windows
  imports Bolo_Data
begin

text \<open>
  Metrics that are collected over a window of time (\<open>src/src/core.c\<close>): the
  window arithmetic, the broadcast of a counter, a sample and a rate, what a
  submission does to one of them, and what a tick does.
\<close>

section \<open>Windows\<close>

text \<open>
  The macros \<open>winstart\<close> and \<open>winend\<close> on a time that is an \<open>int32_t\<close>, and \<open>winstart\<close>
  on the \<open>uint32_t\<close> of a submission, where the remainder is the unsigned one.
\<close>

definition winstart :: "window_t \<Rightarrow> 32 word \<Rightarrow> 32 word res" where
  "winstart w t = bind_res (smod32 t (window_time w)) (\<lambda>r. Inr (t - r))"

definition winend :: "window_t \<Rightarrow> 32 word \<Rightarrow> 32 word res" where
  "winend w t = bind_res (winstart w t) (\<lambda>s. Inr (s + window_time w))"

definition winstart_u :: "window_t \<Rightarrow> 32 word \<Rightarrow> 32 word res" where
  "winstart_u w t = bind_res (umod32 t (window_time w)) (\<lambda>r. Inr (t - r))"

text \<open>The test for window closure in the submission handlers.\<close>

definition rollover :: "window_t \<Rightarrow> 32 word \<Rightarrow> 32 word \<Rightarrow> bool res" where
  "rollover w last_seen ts =
     (if 0 < sint last_seen \<and> last_seen \<noteq> ts
      then bind_res (winstart w last_seen) (\<lambda>a. bind_res (winstart_u w ts) (\<lambda>b. Inr (a \<noteq> b)))
      else Inr False)"

section \<open>Broadcasts\<close>

definition broadcast_counter :: "counter_t \<Rightarrow> effect res" where
  "broadcast_counter c = bind_res (winstart (counter_window c) (counter_last_seen c)) (\<lambda>ts.
     Inr (Broadcast [''COUNTER'', dec (unat ts), counter_name c, dec (unat (counter_value c))]))"

definition broadcast_sample :: "env \<Rightarrow> sample_t \<Rightarrow> effect res" where
  "broadcast_sample E s = bind_res (winstart (sample_window s) (sample_last_seen s)) (\<lambda>ts.
     Inr (Broadcast [''SAMPLE'', dec (unat ts), sample_name s, dec (unat (ucast (sample_n s) :: 32 word)),
       fmt_e E (Finite (sample_min s)), fmt_e E (Finite (sample_max s)), fmt_e E (Finite (sample_sum s)),
       fmt_e E (Finite (sample_mean s)), fmt_e E (Finite (sample_var s))]))"

definition broadcast_rate :: "env \<Rightarrow> rate_t \<Rightarrow> effect res" where
  "broadcast_rate E r = bind_res (winstart (rate_window r) (rate_last_seen r)) (\<lambda>ts.
     let value = rate_calc r (window_time (rate_window r))
     in Inr (Broadcast [''RATE'', dec (unat ts), rate_name r,
          show_int (sint (window_time (rate_window r))), fmt_e E value]))"

section \<open>Submissions\<close>

definition counter_update :: "32 word \<Rightarrow> 32 word \<Rightarrow> counter_t \<Rightarrow> (counter_t \<times> effect list) res" where
  "counter_update ts incr c =
     bind_res (rollover (counter_window c) (counter_last_seen c) ts) (\<lambda>closed.
     bind_res (if closed then bind_res (broadcast_counter c) (\<lambda>p. Inr (counter_reset c, [p])) else Inr (c, [])) (\<lambda>(c, fx).
     Inr (c\<lparr>counter_last_seen := ts, counter_value := counter_value c + scast incr\<rparr>, fx)))"

definition sample_submit :: "32 word \<Rightarrow> real list \<Rightarrow> sample_t \<Rightarrow> sample_t" where
  "sample_submit ts vs s = foldl (\<lambda>s v. (sample_data s v)\<lparr>sample_last_seen := ts\<rparr>) s vs"

definition sample_update :: "env \<Rightarrow> 32 word \<Rightarrow> real list \<Rightarrow> sample_t \<Rightarrow> (sample_t \<times> effect list) res" where
  "sample_update E ts vs s =
     bind_res (rollover (sample_window s) (sample_last_seen s) ts) (\<lambda>closed.
     bind_res (if closed then bind_res (broadcast_sample E s) (\<lambda>p. Inr (sample_reset s, [p])) else Inr (s, [])) (\<lambda>(s, fx).
     Inr (sample_submit ts vs s, fx)))"

definition rate_update :: "env \<Rightarrow> 32 word \<Rightarrow> 64 word \<Rightarrow> rate_t \<Rightarrow> (rate_t \<times> effect list) res" where
  "rate_update E ts v r =
     bind_res (rollover (rate_window r) (rate_last_seen r) ts) (\<lambda>closed.
     bind_res (if closed then bind_res (broadcast_rate E r) (\<lambda>p. Inr (rate_reset r, [p])) else Inr (r, [])) (\<lambda>(r, fx).
     let r = (if rate_first_seen r = 0 then r\<lparr>rate_first_seen := ts\<rparr> else r)
     in Inr ((rate_data r v)\<lparr>rate_last_seen := ts\<rparr>, fx)))"

section \<open>Ticks\<close>

definition tick_counter :: "32 word \<Rightarrow> string \<Rightarrow> counter_t \<Rightarrow> (counter_t \<times> effect list) res" where
  "tick_counter ts name c =
     (if counter_ignore c \<noteq> 0 \<or> counter_last_seen c = 0 then Inr (c, [])
      else bind_res (winend (counter_window c) (counter_last_seen c)) (\<lambda>e.
        if sint e \<ge> sint ts then Inr (c, [])
        else bind_res (broadcast_counter c) (\<lambda>p. Inr (counter_reset c, [p]))))"

definition tick_sample :: "env \<Rightarrow> 32 word \<Rightarrow> string \<Rightarrow> sample_t \<Rightarrow> (sample_t \<times> effect list) res" where
  "tick_sample E ts name s =
     (if sample_ignore s \<noteq> 0 \<or> sample_last_seen s = 0 then Inr (s, [])
      else bind_res (winend (sample_window s) (sample_last_seen s)) (\<lambda>e.
        if sint e \<ge> sint ts then Inr (s, [])
        else bind_res (broadcast_sample E s) (\<lambda>p. Inr (sample_reset s, [p]))))"

definition tick_rate :: "env \<Rightarrow> 32 word \<Rightarrow> string \<Rightarrow> rate_t \<Rightarrow> (rate_t \<times> effect list) res" where
  "tick_rate E ts name r =
     (if rate_ignore r \<noteq> 0 \<or> rate_last_seen r = 0 then Inr (r, [])
      else bind_res (winend (rate_window r) (rate_last_seen r)) (\<lambda>e.
        if sint e \<ge> sint ts then Inr (r, [])
        else bind_res (broadcast_rate E r) (\<lambda>p. Inr (rate_reset r, [p]))))"

definition tick_windows :: "env \<Rightarrow> 32 word \<Rightarrow> db_t \<Rightarrow> (db_t \<times> effect list) res" where
  "tick_windows E ts d =
     bind_res (for_each (tick_counter ts) (hash_order E H_counters (fmdom (counters d))) (counters d)) (\<lambda>(tc, fc).
     bind_res (for_each (tick_sample E ts) (hash_order E H_samples (fmdom (samples d))) (samples d)) (\<lambda>(tm, fm).
     bind_res (for_each (tick_rate E ts) (hash_order E H_rates (fmdom (rates d))) (rates d)) (\<lambda>(tr, fr).
     Inr (d\<lparr>counters := tc, samples := tm, rates := tr\<rparr>, fc @ fm @ fr))))"

section \<open>Window arithmetic\<close>

text \<open>A window of a positive number of seconds, and the number of the window a time is in.\<close>

definition good_window :: "window_t \<Rightarrow> bool" where
  "good_window w \<longleftrightarrow> 0 < sint (window_time w)"

definition win_no :: "window_t \<Rightarrow> 32 word \<Rightarrow> int" where
  "win_no w t = sint t div sint (window_time w)"

lemma good_window_nonzero: "good_window w \<Longrightarrow> window_time w \<noteq> 0 \<and> window_time w \<noteq> - 1"
  by (auto simp: good_window_def)

lemma winstart_total: "good_window w \<Longrightarrow> \<exists>s. winstart w t = Inr s"
  using good_window_nonzero [of w] by (auto simp: winstart_def smod32_def)

lemma winend_total: "good_window w \<Longrightarrow> \<exists>s. winend w t = Inr s"
  using winstart_total [of w t] by (auto simp: winend_def)

lemma winstart_u_total: "good_window w \<Longrightarrow> \<exists>s. winstart_u w t = Inr s"
  using good_window_nonzero [of w] by (auto simp: winstart_u_def umod32_def)

lemma rollover_total: "good_window w \<Longrightarrow> \<exists>b. rollover w l t = Inr b"
  using winstart_total [of w l] winstart_u_total [of w t] by (auto simp: rollover_def)

lemma winstart_pos:
  assumes "good_window w" and "0 \<le> sint t"
  shows "winstart w t = Inr (word_of_int (win_no w t * sint (window_time w)))"
    and "winstart_u w t = Inr (word_of_int (win_no w t * sint (window_time w)))"
proof -
  let ?T = "sint (window_time w)"
  have T: "0 < ?T" using assms(1) by (simp add: good_window_def)
  note nz = good_window_nonzero [OF assms(1)]
  have e: "t - word_of_int (sint t mod ?T) = word_of_int (win_no w t * ?T)"
  proof -
    have "win_no w t * ?T = sint t - sint t mod ?T"
      by (simp add: win_no_def minus_mod_eq_div_mult)
    then show ?thesis by simp
  qed
  show "winstart w t = Inr (word_of_int (win_no w t * ?T))"
    using nz T assms(2) e by (simp add: winstart_def smod32_def smod_pos)
  have "t mod window_time w = word_of_int (sint t mod ?T)"
    using assms(2) T sint_nonneg_uint [of t] sint_nonneg_uint [of "window_time w"]
    by (simp add: word_mod_def)
  then show "winstart_u w t = Inr (word_of_int (win_no w t * ?T))"
    using nz e by (simp add: winstart_u_def umod32_def)
qed

lemma win_no_bounds:
  assumes "good_window w" and "0 \<le> sint t"
  shows "0 \<le> win_no w t * sint (window_time w)" and "win_no w t * sint (window_time w) \<le> sint t"
    and "win_no w t * sint (window_time w) < 2 ^ 31" and "sint t < (win_no w t + 1) * sint (window_time w)"
proof -
  have T: "0 < sint (window_time w)" using assms(1) by (simp add: good_window_def)
  show "0 \<le> win_no w t * sint (window_time w)"
    using T assms(2) by (simp add: win_no_def pos_imp_zdiv_nonneg_iff)
  show le: "win_no w t * sint (window_time w) \<le> sint t"
    using T by (simp add: win_no_def minus_mod_eq_div_mult [symmetric])
  show "win_no w t * sint (window_time w) < 2 ^ 31"
    using le sint_lt [of t] by simp
  show "sint t < (win_no w t + 1) * sint (window_time w)"
    using T by (simp add: win_no_def distrib_right) (metis div_mult_mod_eq pos_mod_bound add_less_cancel_left)
qed

lemma rollover_pos:
  assumes "good_window w" and "0 < sint l" and "0 < sint t"
  shows "rollover w l t = Inr (win_no w l \<noteq> win_no w t)"
proof (cases "l = t")
  case False
  let ?T = "sint (window_time w)"
  have T: "?T \<noteq> 0" using assms(1) by (simp add: good_window_def)
  have "(word_of_int (win_no w l * ?T) :: 32 word) = word_of_int (win_no w t * ?T) \<longleftrightarrow>
      win_no w l * ?T = win_no w t * ?T"
    using sint_word_of_int_small win_no_bounds [OF assms(1), of l] win_no_bounds [OF assms(1), of t] assms(2,3)
    by (metis less_imp_le)
  with False assms T show ?thesis by (simp add: rollover_def winstart_pos)
qed (simp add: rollover_def)

lemma winend_pos:
  assumes "good_window w" and "0 < sint t" and "(win_no w t + 1) * sint (window_time w) < 2 ^ 31"
  shows "\<exists>e. winend w t = Inr e \<and> sint e = (win_no w t + 1) * sint (window_time w)"
proof -
  let ?T = "sint (window_time w)"
  have "(word_of_int (win_no w t * ?T) :: 32 word) + window_time w = word_of_int ((win_no w t + 1) * ?T)"
    by (simp add: distrib_right)
  moreover have "0 \<le> (win_no w t + 1) * ?T"
    using win_no_bounds(4) [OF assms(1), of t] assms(2) by linarith
  moreover have "winend w t = Inr (word_of_int (win_no w t * ?T) + window_time w)"
    using assms(2) by (simp only: winend_def winstart_pos(1) [OF assms(1) less_imp_le] bind_res_simps)
  ultimately show ?thesis
    using assms(3) sint_word_of_int_small by metis
qed

section \<open>The contract of a windowed metric\<close>

text \<open>
  Counters, samples and rates handle submissions and ticks in the same way. The
  laws are the two handlers, with the parts in which the kinds differ as
  parameters: how a value is broadcast, cleared, and absorbs a submission.
\<close>

datatype 'i win_op = Submit "32 word" 'i | Tick "32 word"

primrec credited :: "('i \<Rightarrow> 'a::zero) \<Rightarrow> 'i win_op \<Rightarrow> 'a" where
  "credited credit (Submit ts x) = credit x"
| "credited credit (Tick ts) = 0"

locale windowed =
  fixes window :: "'v \<Rightarrow> window_t" and last_seen :: "'v \<Rightarrow> 32 word" and ignored :: "'v \<Rightarrow> byte"
    and emit :: "'e \<Rightarrow> 'v \<Rightarrow> effect res" and clear :: "'v \<Rightarrow> 'v"
    and absorb :: "32 word \<Rightarrow> 'i \<Rightarrow> 'v \<Rightarrow> 'v" and valid :: "'i \<Rightarrow> bool"
    and submit :: "'e \<Rightarrow> 32 word \<Rightarrow> 'i \<Rightarrow> 'v \<Rightarrow> ('v \<times> effect list) res"
    and tick :: "'e \<Rightarrow> 32 word \<Rightarrow> string \<Rightarrow> 'v \<Rightarrow> ('v \<times> effect list) res"
    and oper :: "'e \<Rightarrow> string \<Rightarrow> 'i win_op \<Rightarrow> 'v \<Rightarrow> ('v \<times> effect list) res"
  assumes submit_eq: "submit e ts x v =
      bind_res (rollover (window v) (last_seen v) ts) (\<lambda>closed.
      bind_res (if closed then bind_res (emit e v) (\<lambda>p. Inr (clear v, [p])) else Inr (v, [])) (\<lambda>(v, fx).
      Inr (absorb ts x v, fx)))"
    and tick_eq: "tick e ts k v =
      (if ignored v \<noteq> 0 \<or> last_seen v = 0 then Inr (v, [])
       else bind_res (winend (window v) (last_seen v)) (\<lambda>en.
         if sint en \<ge> sint ts then Inr (v, [])
         else bind_res (emit e v) (\<lambda>p. Inr (clear v, [p]))))"
    and oper_eq: "oper e k (Submit ts x) v = submit e ts x v" "oper e k (Tick ts) v = tick e ts k v"
    and emit_ok: "good_window (window v) \<Longrightarrow> \<exists>p. emit e v = Inr p"
    and window_clear: "window (clear v) = window v"
    and window_absorb: "window (absorb ts x v) = window v"
    and last_seen_absorb: "valid x \<Longrightarrow> last_seen (absorb ts x v) = ts"
begin

lemma submit_keeps:
  assumes "good_window (window v)" and "Q v"
    and "\<And>v. Q v \<Longrightarrow> Q (clear v)" and "\<And>v. Q v \<Longrightarrow> Q (absorb ts x v)"
  shows "\<exists>v' fx. submit e ts x v = Inr (v', fx) \<and> Q v'"
  using rollover_total [OF assms(1), of "last_seen v" ts] emit_ok [OF assms(1), of e] assms(2-4)
  by (auto simp: submit_eq)

lemma tick_keeps:
  assumes "good_window (window v)" and "Q v" and "\<And>v. Q v \<Longrightarrow> Q (clear v)"
  shows "\<exists>v' fx. tick e ts k v = Inr (v', fx) \<and> Q v'"
  using winend_total [OF assms(1), of "last_seen v"] emit_ok [OF assms(1), of e] assms(2,3)
  by (auto simp: tick_eq)

lemma submit_total:
  "good_window (window v) \<Longrightarrow> \<exists>v' fx. submit e ts x v = Inr (v', fx) \<and> window v' = window v"
  using submit_keeps [of v "\<lambda>u. window u = window v" ts x e] by (simp add: window_clear window_absorb)

lemma tick_total:
  "good_window (window v) \<Longrightarrow> \<exists>v' fx. tick e ts k v = Inr (v', fx) \<and> window v' = window v"
  using tick_keeps [of v "\<lambda>u. window u = window v" e ts k] by (simp add: window_clear)

lemma oper_total:
  assumes "good_window (window v)"
  shows "\<exists>v' fx. oper e k op v = Inr (v', fx) \<and> window v' = window v"
  using submit_total [OF assms] tick_total [OF assms] by (cases op) (auto simp: oper_eq)

lemma run_total:
  assumes "good_window (window v)"
  shows "\<exists>v' fx. run_ops (oper e k) ops v = Inr (v', fx) \<and> window v' = window v"
  using assms
proof (induction ops arbitrary: v)
  case (Cons op ops)
  from oper_total [OF Cons.prems, of e k op] obtain v1 fx
    where 1: "oper e k op v = Inr (v1, fx)" "window v1 = window v" by blast
  with Cons.IH [of v1] Cons.prems show ?case by auto
qed simp

lemma submit_first: "last_seen v = 0 \<Longrightarrow> submit e ts x v = Inr (absorb ts x v, [])"
  by (simp add: submit_eq rollover_def)

lemma submit_same:
  assumes "good_window (window v)" and "0 < sint (last_seen v)" and "0 < sint ts"
    and "win_no (window v) ts = win_no (window v) (last_seen v)"
  shows "submit e ts x v = Inr (absorb ts x v, [])"
  using assms by (simp add: submit_eq rollover_pos)

lemma submit_next:
  assumes "good_window (window v)" and "0 < sint (last_seen v)" and "0 < sint ts"
    and "win_no (window v) ts \<noteq> win_no (window v) (last_seen v)" and "emit e v = Inr p"
  shows "submit e ts x v = Inr (absorb ts x (clear v), [p])"
  using assms by (simp add: submit_eq rollover_pos)

lemma submits_same:
  assumes "good_window (window v)" and "0 < sint (last_seen v)"
    and "\<forall>(ts, x) \<in> set subs. 0 < sint ts \<and> win_no (window v) ts = win_no (window v) (last_seen v) \<and> valid x"
  shows "run_ops (oper e k) (map (\<lambda>(ts, x). Submit ts x) subs) v =
    Inr (foldl (\<lambda>v (ts, x). absorb ts x v) v subs, [])"
  using assms
proof (induction subs arbitrary: v)
  case (Cons a subs)
  obtain ts x where a: "a = (ts, x)" by fastforce
  have "submit e ts x v = Inr (absorb ts x v, [])"
    using Cons.prems a by (intro submit_same) auto
  with Cons.IH [of "absorb ts x v"] Cons.prems a show ?case
    by (auto simp: oper_eq window_absorb last_seen_absorb)
qed simp

lemma last_seen_foldl:
  assumes "subs \<noteq> []" and "\<forall>(ts, x) \<in> set subs. valid x"
  shows "last_seen (foldl (\<lambda>v (ts, x). absorb ts x v) v subs) = fst (last subs)"
  using assms by (cases subs rule: rev_cases) (auto simp: last_seen_absorb)

lemma window_foldl: "window (foldl (\<lambda>v (ts, x). absorb ts x v) v subs) = window v"
  by (induction subs arbitrary: v) (auto simp: window_absorb)

text \<open>
  The submissions of one window, followed by one of another window, give one
  broadcast: that of what the former leave.
\<close>

lemma window_closed:
  assumes g: "good_window (window v)" and first: "last_seen v = 0" and ne: "subs \<noteq> []"
    and same: "\<forall>(ts, x) \<in> set subs. 0 < sint ts \<and> win_no (window v) ts = n \<and> valid x"
    and other: "0 < sint ts'" "win_no (window v) ts' \<noteq> n"
    and u: "u = foldl (\<lambda>v (ts, x). absorb ts x v) v subs" and p: "emit e u = Inr p"
  shows "run_ops (oper e k) (map (\<lambda>(ts, x). Submit ts x) (subs @ [(ts', x')])) v =
    Inr (absorb ts' x' (clear u), [p])"
proof -
  obtain ts x subs' where s: "subs = (ts, x) # subs'" using ne by (cases subs) auto
  let ?v1 = "absorb ts x v"
  have v1: "window ?v1 = window v" "last_seen ?v1 = ts"
    using same s by (auto simp: window_absorb last_seen_absorb)
  have r1: "run_ops (oper e k) (map (\<lambda>(ts, x). Submit ts x) subs') ?v1 = Inr (u, [])"
    using g same s v1 by (subst submits_same) (auto simp: u)
  have "last_seen u = fst (last subs)" using same ne unfolding u by (intro last_seen_foldl) auto
  moreover have "last subs \<in> set subs" using ne by simp
  ultimately have l: "0 < sint (last_seen u)" "win_no (window v) (last_seen u) = n"
    using same by auto
  have "submit e ts' x' u = Inr (absorb ts' x' (clear u), [p])"
    using g other l p by (intro submit_next) (auto simp: u window_foldl)
  with r1 s first show ?thesis
    by (simp add: run_ops_append oper_eq submit_first)
qed

end

text \<open>A window that has ended before the time of the tick, of an entry that is in use.\<close>

definition window_over :: "32 word \<Rightarrow> window_t \<Rightarrow> 32 word \<Rightarrow> byte \<Rightarrow> bool" where
  "window_over ts w l ign \<longleftrightarrow> ign = 0 \<and> l \<noteq> 0 \<and>
     (case winend w l of Inr e \<Rightarrow> sint e < sint ts | Inl f \<Rightarrow> False)"

context windowed
begin

text \<open>
  A walk over a table clears every entry whose window is over, leaves any other alone, and broadcasts
  the former once each, in the order of the walk.
\<close>

lemma tick_walk:
  assumes "distinct ks" and "set ks = fset (fmdom m)" and "fmpred (\<lambda>k v. good_window (window v)) m"
    and "\<And>k v. fmlookup m k = Some v \<Longrightarrow> window_over ts (window v) (last_seen v) (ignored v) = over v"
    and "\<And>k v. fmlookup m k = Some v \<Longrightarrow> over v \<Longrightarrow> emit e v = Inr (p v)"
  shows "for_each (tick e ts) ks m =
    Inr (fmmap (\<lambda>v. if over v then clear v else v) m, map p (filter over (List.map_filter (fmlookup m) ks)))"
proof -
  let ?g = "\<lambda>k v. if over v then (clear v, [p v]) else (v, [])"
  note good = fmpredD [OF assms(3)]
  have "tick e ts k v = Inr (?g k v)" if "fmlookup m k = Some v" for k v
    using winend_total [OF good [OF that], of "last_seen v"] assms(4,5) [OF that]
    by (auto simp: tick_eq window_over_def split: if_splits)
  then obtain m' where m': "for_each (tick e ts) ks m = Inr (m', walked ?g ks m)"
    "\<And>k. fmlookup m' k = (if k \<in> set ks then map_option (\<lambda>v. fst (?g k v)) (fmlookup m k) else fmlookup m k)"
    using for_each_total [OF assms(1), of m "tick e ts" ?g] by blast
  have "m' = fmmap (\<lambda>v. if over v then clear v else v) m"
  proof (rule fmap_ext)
    fix k
    have "fmlookup m k = None \<or> k \<in> set ks" unfolding assms(2) by (cases "fmlookup m k") (auto intro: fmdomI)
    then show "fmlookup m' k = fmlookup (fmmap (\<lambda>v. if over v then clear v else v) m) k"
      by (cases "fmlookup m k") (auto simp: m'(2))
  qed
  moreover have "walked ?g js m = map p (filter over (List.map_filter (fmlookup m) js))" for js
    by (induction js) (auto simp: walked_def map_filter_simps split: option.splits)
  ultimately show ?thesis using m'(1) by simp
qed

end

text \<open>
  A metric with an amount that submissions add to and that a broadcast shows:
  nothing is lost between submissions and broadcasts, and nothing counted twice.
\<close>

locale ledger = windowed window last_seen ignored emit clear absorb valid submit tick oper
  for window :: "'v \<Rightarrow> window_t" and last_seen and ignored and emit :: "'e \<Rightarrow> 'v \<Rightarrow> effect res"
    and clear and absorb :: "32 word \<Rightarrow> 'i \<Rightarrow> 'v \<Rightarrow> 'v" and valid and submit and tick and oper +
  fixes amount :: "'v \<Rightarrow> 'a::comm_monoid_add" and credit :: "'i \<Rightarrow> 'a" and shown :: "effect \<Rightarrow> 'a"
  assumes amount_clear: "amount (clear v) = 0"
    and amount_absorb: "amount (absorb ts x v) = amount v + credit x"
    and amount_shown: "emit e v = Inr p \<Longrightarrow> shown p = amount v"
begin

lemma oper_balance:
  assumes "oper e k op v = Inr (v', fx)"
  shows "sum_list (map shown fx) + amount v' = amount v + credited credit op"
proof (cases op)
  case (Submit ts x)
  with assms show ?thesis
    by (auto simp: oper_eq submit_eq bind_res_Inr_iff amount_absorb amount_clear
        dest!: amount_shown split: if_splits)
next
  case (Tick ts)
  with assms show ?thesis
    by (auto simp: oper_eq tick_eq bind_res_Inr_iff amount_clear dest!: amount_shown split: if_splits)
qed

lemma run_balance:
  assumes "run_ops (oper e k) ops v = Inr (v', fx)"
  shows "sum_list (map shown fx) + amount v' = amount v + sum_list (map (credited credit) ops)"
  using assms
proof (induction ops arbitrary: v fx)
  case (Cons op ops)
  then obtain v1 f1 f2 where 1: "oper e k op v = Inr (v1, f1)" "run_ops (oper e k) ops v1 = Inr (v', f2)"
    "fx = f1 @ f2" by (auto simp: bind_res_Inr_iff)
  have "sum_list (map shown fx) + amount v' = sum_list (map shown f1) + (sum_list (map shown f2) + amount v')"
    by (simp add: 1(3) add.assoc)
  also have "\<dots> = (sum_list (map shown f1) + amount v1) + sum_list (map (credited credit) ops)"
    by (simp add: Cons.IH [OF 1(2)] add.assoc)
  also have "\<dots> = amount v + sum_list (map (credited credit) (op # ops))"
    by (simp add: oper_balance [OF 1(1)] add.assoc)
  finally show ?case .
qed simp

end

fun counter_op :: "string \<Rightarrow> 32 word win_op \<Rightarrow> counter_t \<Rightarrow> (counter_t \<times> effect list) res" where
  "counter_op k (Submit ts incr) c = counter_update ts incr c"
| "counter_op k (Tick ts) c = tick_counter ts k c"

fun sample_op :: "env \<Rightarrow> string \<Rightarrow> real list win_op \<Rightarrow> sample_t \<Rightarrow> (sample_t \<times> effect list) res" where
  "sample_op E k (Submit ts vs) s = sample_update E ts vs s"
| "sample_op E k (Tick ts) s = tick_sample E ts k s"

fun rate_op :: "env \<Rightarrow> string \<Rightarrow> 64 word win_op \<Rightarrow> rate_t \<Rightarrow> (rate_t \<times> effect list) res" where
  "rate_op E k (Submit ts v) r = rate_update E ts v r"
| "rate_op E k (Tick ts) r = tick_rate E ts k r"

text \<open>The value a counter's broadcast shows, and the number of values a sample's broadcast shows.\<close>

fun counter_shown :: "effect \<Rightarrow> 64 word" where
  "counter_shown (Broadcast [t, ts, name, v]) = strtoul v"
| "counter_shown _ = 0"

fun sample_shown :: "effect \<Rightarrow> 32 word" where
  "sample_shown (Broadcast (t # ts # name # n # stats)) = ucast (strtoul n)"
| "sample_shown _ = 0"

lemma sample_submit_fields:
  "sample_window (sample_submit ts vs s) = sample_window s"
  "sample_name (sample_submit ts vs s) = sample_name s"
  "sample_n (sample_submit ts vs s) = sample_n s + of_nat (length vs)"
  "vs \<noteq> [] \<Longrightarrow> sample_last_seen (sample_submit ts vs s) = ts"
proof -
  show "sample_window (sample_submit ts vs s) = sample_window s"
    "sample_name (sample_submit ts vs s) = sample_name s"
    "sample_n (sample_submit ts vs s) = sample_n s + of_nat (length vs)"
    by (induction vs arbitrary: s) (simp_all add: sample_submit_def sample_data_def Let_def)
  show "vs \<noteq> [] \<Longrightarrow> sample_last_seen (sample_submit ts vs s) = ts"
    by (cases vs rule: rev_cases) (simp_all add: sample_submit_def)
qed

interpretation win_counter: ledger counter_window counter_last_seen counter_ignore "\<lambda>_ :: unit. broadcast_counter"
  counter_reset "\<lambda>ts x c. c\<lparr>counter_last_seen := ts, counter_value := counter_value c + scast x\<rparr>" "\<lambda>_. True"
  "\<lambda>_. counter_update" "\<lambda>_. tick_counter" "\<lambda>_. counter_op" counter_value scast counter_shown
proof
  fix v :: counter_t
  assume "good_window (counter_window v)"
  then show "\<exists>p. broadcast_counter v = Inr p"
    using winstart_total [of "counter_window v" "counter_last_seen v"] by (auto simp: broadcast_counter_def)
next
  fix v :: counter_t and p
  assume "broadcast_counter v = Inr p"
  then show "counter_shown p = counter_value v"
    using unsigned_less [of "counter_value v", where 'a = nat]
    by (auto simp: broadcast_counter_def bind_res_Inr_iff)
qed (auto simp: counter_update_def tick_counter_def counter_reset_def)

interpretation win_sample: ledger sample_window sample_last_seen sample_ignore broadcast_sample
  sample_reset sample_submit "\<lambda>vs. vs \<noteq> []" sample_update tick_sample sample_op
  "\<lambda>s. ucast (sample_n s)" "\<lambda>vs. of_nat (length vs)" sample_shown
proof
  fix v :: sample_t and E
  assume "good_window (sample_window v)"
  then show "\<exists>p. broadcast_sample E v = Inr p"
    using winstart_total [of "sample_window v" "sample_last_seen v"] by (auto simp: broadcast_sample_def)
next
  fix v :: sample_t and p E
  assume "broadcast_sample E v = Inr p"
  moreover have "strtoul (dec (unat (ucast (sample_n v) :: 32 word))) = of_nat (unat (ucast (sample_n v) :: 32 word))"
    using unsigned_less [of "ucast (sample_n v) :: 32 word", where 'a = nat] by (intro strtoul_dec) simp
  ultimately show "sample_shown p = ucast (sample_n v)"
    by (auto simp: broadcast_sample_def bind_res_Inr_iff ucast_narrow)
next
  fix ts x v
  show "ucast (sample_n (sample_submit ts x v)) = ucast (sample_n v) + (of_nat (length x) :: 32 word)"
    by (simp add: sample_submit_fields ucast_add_64_32 ucast_narrow)
qed (auto simp: sample_update_def tick_sample_def sample_reset_def sample_submit_fields)

interpretation win_rate: windowed rate_window rate_last_seen rate_ignore broadcast_rate
  rate_reset "\<lambda>ts v r. (rate_data (if rate_first_seen r = 0 then r\<lparr>rate_first_seen := ts\<rparr> else r) v)\<lparr>rate_last_seen := ts\<rparr>"
  "\<lambda>_. True" rate_update tick_rate rate_op
proof
  fix v :: rate_t and E
  assume "good_window (rate_window v)"
  then show "\<exists>p. broadcast_rate E v = Inr p"
    using winstart_total [of "rate_window v" "rate_last_seen v"] by (auto simp: broadcast_rate_def)
qed (auto simp: rate_update_def tick_rate_def rate_reset_def rate_data_def Let_def)


text \<open>
  C3: over any sequence of submissions and ticks, what the broadcasts of
  a counter show and what it still holds add up to what it held at first and all
  increments, modulo \<open>2^64\<close>; no increment is lost or counted twice.
\<close>

theorem counter_conservation:
  assumes "good_window (counter_window c)"
  shows "\<exists>c' fx. run_ops (counter_op k) ops c = Inr (c', fx) \<and>
    sum_list (map counter_shown fx) + counter_value c' =
      counter_value c + sum_list (map (credited scast) ops)"
  using win_counter.run_total [OF assms] win_counter.run_balance by blast

theorem counter_conservation_witness:
  "\<exists>c' fx. run_ops (counter_op ''c'') [Submit 100 5, Submit 170 7, Tick 600]
     \<lparr>counter_window = \<lparr>window_name = None, window_time = 60\<rparr>, counter_name = ''c'',
       counter_last_seen = 0, counter_value = 0, counter_ignore = 0\<rparr> = Inr (c', fx) \<and>
     sum_list (map counter_shown fx) + counter_value c' = 12"
  using counter_conservation [of "\<lparr>counter_window = \<lparr>window_name = None, window_time = 60\<rparr>,
      counter_name = ''c'', counter_last_seen = 0, counter_value = 0, counter_ignore = 0\<rparr>"
      "''c''" "[Submit 100 5, Submit 170 7, Tick 600]"]
  by (simp add: good_window_def)

text \<open>
  Note: over any sequence of submissions and ticks, the counts the
  broadcasts of a sample show and the count it still holds add up to the number
  of submitted values, modulo \<open>2^32\<close> (the count is printed as 32 bits).
\<close>

theorem sample_count_conservation:
  assumes "good_window (sample_window s)"
  shows "\<exists>s' fx. run_ops (sample_op E k) ops s = Inr (s', fx) \<and>
    sum_list (map sample_shown fx) + ucast (sample_n s') =
      ucast (sample_n s) + sum_list (map (credited (\<lambda>vs. of_nat (length vs))) ops)"
  using win_sample.run_total [OF assms] win_sample.run_balance by blast

theorem sample_count_conservation_witness:
  "\<exists>s' fx. run_ops (sample_op plain_env ''m'') [Submit 100 [1, 2], Submit 170 [7], Tick 600]
     (new_sample \<lparr>re_window = \<lparr>window_name = None, window_time = 60\<rparr>, re_re = ''m''\<rparr> ''m'') = Inr (s', fx) \<and>
     sum_list (map sample_shown fx) + ucast (sample_n s') = 3"
  using sample_count_conservation [of "new_sample \<lparr>re_window = \<lparr>window_name = None, window_time = 60\<rparr>,
      re_re = ''m''\<rparr> ''m''" plain_env "''m''" "[Submit 100 [1, 2], Submit 170 [7], Tick 600]"]
  by (simp add: good_window_def new_sample_def)

section \<open>What a broadcast says about its window\<close>

text \<open>The submissions that belong to window number \<open>n\<close>.\<close>

definition in_window :: "window_t \<Rightarrow> int \<Rightarrow> (32 word \<times> 'i) list \<Rightarrow> bool" where
  "in_window w n subs \<longleftrightarrow> list_all (\<lambda>(ts, x). 0 < sint ts \<and> win_no w ts = n) subs"

lemma in_windowD: "in_window w n subs \<Longrightarrow> (ts, x) \<in> set subs \<Longrightarrow> 0 < sint ts \<and> win_no w ts = n"
  by (auto simp: in_window_def list_all_iff)

lemma in_window_last:
  assumes "in_window w n subs" and "subs \<noteq> []"
  shows "0 < sint (fst (last subs))" and "win_no w (fst (last subs)) = n"
  using in_windowD [OF assms(1), of "fst (last subs)" "snd (last subs)"] assms(2) by auto

lemma winstart_shown:
  assumes "good_window w" and "0 < sint t" and "win_no w t = n"
  shows "\<exists>s. winstart w t = Inr s \<and> dec (unat s) = dec (nat (n * sint (window_time w)))"
proof -
  have "0 \<le> n * sint (window_time w)" "n * sint (window_time w) < 2 ^ 32"
    using win_no_bounds [OF assms(1), of t] assms(2,3) by auto
  then have "unat (word_of_int (n * sint (window_time w)) :: 32 word) = nat (n * sint (window_time w))"
    by (simp only: unat_eq_nat_uint uint_word_of_int) simp
  then show ?thesis using assms winstart_pos(1) [OF assms(1), of t] by simp
qed

definition submissions :: "(32 word \<times> 'i) list \<Rightarrow> 'i win_op list" where
  "submissions subs = map (\<lambda>(ts, x). Submit ts x) subs"

lemma counter_foldl:
  "foldl (\<lambda>c (ts, x). c\<lparr>counter_last_seen := ts, counter_value := counter_value c + scast x\<rparr>) c subs =
    c\<lparr>counter_last_seen := (if subs = [] then counter_last_seen c else fst (last subs)),
      counter_value := counter_value c + (\<Sum>(ts, x)\<leftarrow>subs. scast x)\<rparr>"
  by (induction subs arbitrary: c) (auto simp: add.assoc)

text \<open>
  C10: the submissions of one window to a counter, followed by a
  submission of another window, give one \<open>COUNTER\<close> broadcast with the start of
  the window and the sum of its increments; the counter then holds the last one.
\<close>

theorem counter_window_total:
  assumes "good_window (counter_window c)" and "counter_last_seen c = 0" and "counter_value c = 0"
    and "subs \<noteq> []" and "in_window (counter_window c) n subs"
    and "0 < sint ts'" and "win_no (counter_window c) ts' \<noteq> n"
  shows "run_ops (counter_op k) (submissions (subs @ [(ts', x')])) c =
    Inr (c\<lparr>counter_last_seen := ts', counter_value := scast x'\<rparr>,
      [Broadcast [''COUNTER'', dec (nat (n * sint (window_time (counter_window c)))), counter_name c,
         dec (unat (\<Sum>(ts, x)\<leftarrow>subs. scast x :: 64 word))]])"
proof -
  let ?u = "c\<lparr>counter_last_seen := fst (last subs), counter_value := (\<Sum>(ts, x)\<leftarrow>subs. scast x)\<rparr>"
  obtain s where s: "winstart (counter_window c) (fst (last subs)) = Inr s"
    "dec (unat s) = dec (nat (n * sint (window_time (counter_window c))))"
    using winstart_shown [OF assms(1) in_window_last [OF assms(5,4)]] by auto
  have u: "?u = foldl (\<lambda>c (ts, x). c\<lparr>counter_last_seen := ts, counter_value := counter_value c + scast x\<rparr>) c subs"
    using assms(3,4) by (simp add: counter_foldl)
  show ?thesis
    unfolding submissions_def
    using win_counter.window_closed [OF assms(1,2,4) _ assms(6,7) u, where k = k and x' = x']
      in_windowD [OF assms(5)] s by (auto simp: broadcast_counter_def counter_reset_def)
qed

theorem counter_window_total_witness:
  "run_ops (counter_op ''c'') (submissions ([(100, 5), (119, 7)] @ [(120, 1)]))
     \<lparr>counter_window = \<lparr>window_name = None, window_time = 60\<rparr>, counter_name = ''c'',
       counter_last_seen = 0, counter_value = 0, counter_ignore = 0\<rparr> =
   Inr (\<lparr>counter_window = \<lparr>window_name = None, window_time = 60\<rparr>, counter_name = ''c'',
       counter_last_seen = 120, counter_value = 1, counter_ignore = 0\<rparr>,
     [Broadcast [''COUNTER'', dec 60, ''c'', dec 12]])"
  by (subst counter_window_total [where n = 1])
    (simp_all add: good_window_def in_window_def win_no_def)

lemma sample_submit_ok:
  "sample_ok s us \<Longrightarrow> length us + length vs < 2 ^ 64 \<Longrightarrow> sample_ok (sample_submit ts vs s) (us @ vs)"
proof (induction vs arbitrary: s us)
  case (Cons v vs)
  then have "sample_ok (sample_data s v) (us @ [v])" by (intro sample_data_ok) auto
  then have "sample_ok (sample_data s v\<lparr>sample_last_seen := ts\<rparr>) (us @ [v])" by (simp add: sample_ok_def)
  from Cons.IH [OF this] Cons.prems show ?case by (simp add: sample_submit_def)
qed (simp add: sample_submit_def)

lemma sample_foldl_ok:
  "sample_ok s us \<Longrightarrow> length us + length (concat (map snd subs)) < 2 ^ 64 \<Longrightarrow>
    sample_ok (foldl (\<lambda>s (ts, vs). sample_submit ts vs s) s subs) (us @ concat (map snd subs))"
proof (induction subs arbitrary: s us)
  case (Cons a subs)
  then have "sample_ok (sample_submit (fst a) (snd a) s) (us @ snd a)" by (intro sample_submit_ok) auto
  from Cons.IH [OF this] Cons.prems show ?case by (simp add: case_prod_unfold)
qed simp

lemma sample_foldl_name: "sample_name (foldl (\<lambda>s (ts, vs). sample_submit ts vs s) s subs) = sample_name s"
  by (induction subs arbitrary: s) (auto simp: sample_submit_fields)

lemma sample_ok_values:
  assumes "sample_ok s vs" and "vs \<noteq> []" and "length vs < 2 ^ 32"
  shows "sample_min s = Min (set vs)" "sample_max s = Max (set vs)" "sample_sum s = sum_list vs"
    and "sample_mean s = sum_list vs / length vs"
    and "sample_var s = (\<Sum>v\<leftarrow>vs. (v - sum_list vs / length vs)\<^sup>2) / length vs"
    and "unat (ucast (sample_n s) :: 32 word) = length vs"
proof -
  have l: "real (length vs) \<noteq> 0" using assms(2) by simp
  show "sample_min s = Min (set vs)" "sample_max s = Max (set vs)" "sample_sum s = sum_list vs"
    using assms by (auto simp: sample_ok_def)
  show mean: "sample_mean s = sum_list vs / length vs"
    using assms(1) l by (simp add: sample_ok_def field_simps)
  show "sample_var s = (\<Sum>v\<leftarrow>vs. (v - sum_list vs / length vs)\<^sup>2) / length vs"
  proof -
    have "real (length vs) * sample_var s = (\<Sum>v\<leftarrow>vs. (v - sample_mean s)\<^sup>2)"
      using assms(1) sum_sq_dev [of vs "sample_mean s"] by (simp add: sample_ok_def)
    with l show ?thesis by (simp add: eq_divide_eq mult.commute mean)
  qed
  show "unat (ucast (sample_n s) :: 32 word) = length vs"
    using assms(1,3) by (simp add: sample_ok_def ucast_narrow unat_of_nat)
qed

text \<open>
  C4: the submissions of one window to a sample, followed by a
  submission of another window, give one \<open>SAMPLE\<close> broadcast with the start of the
  window and the number, minimum, maximum, sum, mean and variance of exactly the
  values submitted in it.
\<close>

theorem sample_window_summary:
  assumes "good_window (sample_window s)" and "s = sample_reset s0" and "subs \<noteq> []"
    and "in_window (sample_window s) n subs" and "\<forall>(ts, vs) \<in> set subs. vs \<noteq> []"
    and "0 < sint ts'" and "win_no (sample_window s) ts' \<noteq> n"
    and "vs = concat (map snd subs)" and "length vs < 2 ^ 32" and "m = sum_list vs / length vs"
  shows "\<exists>s'. run_ops (sample_op E k) (submissions (subs @ [(ts', vs')])) s = Inr (s',
    [Broadcast [''SAMPLE'', dec (nat (n * sint (window_time (sample_window s)))), sample_name s, dec (length vs),
      fmt_e E (Finite (Min (set vs))), fmt_e E (Finite (Max (set vs))), fmt_e E (Finite (sum_list vs)),
      fmt_e E (Finite m), fmt_e E (Finite ((\<Sum>v\<leftarrow>vs. (v - m)\<^sup>2) / length vs))]])"
proof -
  define u where "u = foldl (\<lambda>s (ts, vs). sample_submit ts vs s) s subs"
  have w: "sample_window u = sample_window s" "sample_name u = sample_name s"
    by (simp_all add: u_def win_sample.window_foldl sample_foldl_name)
  have "sample_last_seen u = fst (last subs)"
    unfolding u_def using assms(3,5) by (intro win_sample.last_seen_foldl) auto
  then obtain t where t: "winstart (sample_window u) (sample_last_seen u) = Inr t"
    "dec (unat t) = dec (nat (n * sint (window_time (sample_window s))))"
    using winstart_shown [OF assms(1) in_window_last [OF assms(4,3)]] w by auto
  have ok: "sample_ok u vs"
    unfolding u_def assms(8) using sample_foldl_ok [OF sample_reset_ok, of subs] assms(2,8,9) by auto
  have "vs \<noteq> []" using assms(3,5,8) by (cases subs) auto
  note vals = sample_ok_values [OF ok this assms(9)]
  have "broadcast_sample E u = Inr (Broadcast [''SAMPLE'', dec (nat (n * sint (window_time (sample_window s)))),
      sample_name s, dec (length vs), fmt_e E (Finite (Min (set vs))), fmt_e E (Finite (Max (set vs))),
      fmt_e E (Finite (sum_list vs)), fmt_e E (Finite m), fmt_e E (Finite ((\<Sum>v\<leftarrow>vs. (v - m)\<^sup>2) / length vs))])"
    unfolding broadcast_sample_def t(1) bind_res_simps using vals t(2) w assms(10) by simp
  moreover have "sample_last_seen s = 0" by (simp add: assms(2) sample_reset_def)
  ultimately show ?thesis
    unfolding submissions_def
    using win_sample.window_closed [OF assms(1) _ assms(3) _ assms(6,7) u_def]
      in_windowD [OF assms(4)] assms(5) by fastforce
qed

theorem sample_window_summary_witness:
  "\<exists>s'. run_ops (sample_op plain_env ''m'') (submissions ([(100, [2, 4]), (119, [9])] @ [(120, [1])]))
     (sample_reset (new_sample \<lparr>re_window = \<lparr>window_name = None, window_time = 60\<rparr>, re_re = ''m''\<rparr> ''m'')) = Inr (s',
     [Broadcast [''SAMPLE'', dec 60, ''m'', dec 3, show_int 2, show_int 9, show_int 15, show_int 5, show_int 8]])"
proof -
  let ?s = "new_sample \<lparr>re_window = \<lparr>window_name = None, window_time = 60\<rparr>, re_re = ''m''\<rparr> ''m''"
  have w: "sample_window (sample_reset ?s) = \<lparr>window_name = None, window_time = 60\<rparr>"
    "sample_name (sample_reset ?s) = ''m''" by (simp_all add: new_sample_def sample_reset_def)
  have "\<lfloor>26 / 3 :: real\<rfloor> = 8" by (simp add: floor_eq_iff)
  with sample_window_summary [of "sample_reset ?s" ?s "[(100, [2, 4]), (119, [9])]" 1 120 "[2, 4, 9]" 5
      plain_env "''m''" "[1]"]
  show ?thesis
    by (simp add: w good_window_def in_window_def win_no_def plain_env_def numeral_3_eq_3)
qed


lemma rate_foldl:
  assumes "r0 = r\<lparr>rate_first_seen := 0, rate_last_seen := 0\<rparr>" and "sint t0 > 0"
    and "\<forall>(ts, v) \<in> set subs. sint ts > 0"
  shows "foldl (\<lambda>r (ts, v). (rate_data (if rate_first_seen r = 0 then r\<lparr>rate_first_seen := ts\<rparr> else r) v)
      \<lparr>rate_last_seen := ts\<rparr>) r0 ((t0, v0) # subs) =
    r0\<lparr>rate_first_seen := t0, rate_first := v0, rate_last_seen := fst (last ((t0, v0) # subs)),
       rate_last := snd (last ((t0, v0) # subs))\<rparr>"
  using assms(3)
proof (induction subs rule: rev_induct)
  case Nil
  then show ?case using assms(1) by (simp add: rate_data_def Let_def)
next
  case (snoc a subs)
  have "t0 \<noteq> 0" using assms(2) by auto
  moreover have "fst (last ((t0, v0) # subs)) \<noteq> 0"
    using snoc.prems assms(2) by (cases subs rule: rev_cases) auto
  ultimately show ?case
    using snoc by (auto simp: rate_data_def Let_def case_prod_unfold)
qed

text \<open>
  C11: the submissions of one window to a rate, followed by a submission
  of another window, give one \<open>RATE\<close> broadcast with the start and length of the
  window and the increase from the first to the last value, per second of the
  time between them, times the length of the window.
\<close>

theorem rate_window_value:
  assumes "good_window (rate_window r)" and "r = rate_reset r0"
    and "in_window (rate_window r) n ((t0, v0) # subs)" and "(t1, v1) = last ((t0, v0) # subs)"
    and "v0 \<le> v1" and "sint t0 < sint t1"
    and "0 < sint ts'" and "win_no (rate_window r) ts' \<noteq> n" and "T = sint (window_time (rate_window r))"
  shows "\<exists>r'. run_ops (rate_op E k) (submissions (((t0, v0) # subs) @ [(ts', v')])) r = Inr (r',
    [Broadcast [''RATE'', dec (nat (n * T)), rate_name r, show_int T,
      fmt_e E (Finite ((real (unat v1) - real (unat v0)) / real_of_int (sint t1 - sint t0) * real_of_int T))]])"
proof -
  define u where "u = foldl (\<lambda>r (ts, v). (rate_data (if rate_first_seen r = 0 then r\<lparr>rate_first_seen := ts\<rparr> else r) v)
      \<lparr>rate_last_seen := ts\<rparr>) r ((t0, v0) # subs)"
  have pos: "0 < sint t0" "\<forall>(ts, v) \<in> set subs. sint ts > 0"
    using in_windowD [OF assms(3)] by auto
  have "u = r\<lparr>rate_first_seen := t0, rate_first := v0, rate_last_seen := t1, rate_last := v1\<rparr>"
    unfolding u_def using rate_foldl [of r r t0 subs v0] pos assms(2) assms(4) [symmetric]
    by (simp add: rate_reset_def)
  moreover obtain t where "winstart (rate_window r) t1 = Inr t" "dec (unat t) = dec (nat (n * T))"
    using winstart_shown [OF assms(1) in_window_last [OF assms(3)]] assms(4) [symmetric] assms(9) by auto
  moreover have "sint (t1 - t0) = sint t1 - sint t0"
  proof -
    have "0 \<le> sint t1 - sint t0" "sint t1 - sint t0 < 2 ^ 31" using assms(6) pos(1) sint_lt [of t1] by auto
    then show ?thesis using sint_word_of_int_small [of "sint t1 - sint t0"] by simp
  qed
  moreover have "real (unat (v1 - v0)) = real (unat v1) - real (unat v0)"
    using assms(5) by (simp add: unat_sub word_le_nat_alt)
  moreover have "t1 \<noteq> 0" using assms(6) pos(1) by auto
  ultimately have "broadcast_rate E u = Inr (Broadcast [''RATE'', dec (nat (n * T)), rate_name r, show_int T,
      fmt_e E (Finite ((real (unat v1) - real (unat v0)) / real_of_int (sint t1 - sint t0) * real_of_int T))])"
    using assms(5,6,9) by (simp add: broadcast_rate_def rate_calc_def rate_diff_def Let_def)
  moreover have "rate_last_seen r = 0" by (simp add: assms(2) rate_reset_def)
  ultimately have "run_ops (rate_op E k) (map (\<lambda>(ts, x). Submit ts x) (((t0, v0) # subs) @ [(ts', v')])) r = Inr
      ((rate_data (if rate_first_seen (rate_reset u) = 0 then (rate_reset u)\<lparr>rate_first_seen := ts'\<rparr>
          else rate_reset u) v')\<lparr>rate_last_seen := ts'\<rparr>,
       [Broadcast [''RATE'', dec (nat (n * T)), rate_name r, show_int T,
      fmt_e E (Finite ((real (unat v1) - real (unat v0)) / real_of_int (sint t1 - sint t0) * real_of_int T))]])"
    using in_windowD [OF assms(3)] by (intro win_rate.window_closed [OF assms(1) _ _ _ assms(7,8) u_def]) auto
  then show ?thesis unfolding submissions_def by blast
qed

theorem rate_window_value_witness:
  "\<exists>r'. run_ops (rate_op plain_env ''r'') (submissions ([(100, 1000), (110, 1050)] @ [(120, 2000)]))
     (rate_reset (new_rate \<lparr>re_window = \<lparr>window_name = None, window_time = 60\<rparr>, re_re = ''r''\<rparr> ''r'')) = Inr (r',
     [Broadcast [''RATE'', dec 60, ''r'', show_int 60, show_int 300]])"
proof -
  let ?r = "new_rate \<lparr>re_window = \<lparr>window_name = None, window_time = 60\<rparr>, re_re = ''r''\<rparr> ''r''"
  have w: "rate_window (rate_reset ?r) = \<lparr>window_name = None, window_time = 60\<rparr>"
    "rate_name (rate_reset ?r) = ''r''" by (simp_all add: new_rate_def rate_reset_def)
  have e: "fmt_e plain_env (Finite 300) = show_int 300" by (simp add: plain_env_def)
  have "\<exists>r'. run_ops (rate_op plain_env ''r'') (submissions (((100, 1000) # [(110, 1050)]) @ [(120, 2000)])) (rate_reset ?r) =
    Inr (r', [Broadcast [''RATE'', dec (nat (1 * 60)), rate_name (rate_reset ?r), show_int 60,
      fmt_e plain_env (Finite ((real (unat (1050 :: 64 word)) - real (unat (1000 :: 64 word))) /
        real_of_int (sint (110 :: 32 word) - sint (100 :: 32 word)) * real_of_int 60))]])"
    by (rule rate_window_value) (simp_all add: w good_window_def in_window_def win_no_def)
  then show ?thesis by (simp add: w e)
qed

end
