(* ===== verification/Bolo_States.thy ===== *)
theory Bolo_States
  imports Bolo_Data
begin

text \<open>
  States (\<open>src/src/core.c\<close>): their broadcasts, what a submission does to a
  state, and the check that marks a state stale when it has not been heard of.
\<close>

section \<open>Broadcasts\<close>

definition statstr :: "byte \<Rightarrow> string" where
  "statstr s = [''OK'', ''WARNING'', ''CRITICAL'', ''UNKNOWN''] ! (if s > 3 then 3 else unat s)"

definition state_frames :: "state_t \<Rightarrow> string list" where
  "state_frames s = [state_name s, show_int (sint (state_last_seen s)),
     if state_stale s \<noteq> 0 then ''stale'' else ''fresh'', statstr (state_status s), state_summary s]"

definition broadcast_state :: "state_t \<Rightarrow> effect" where
  "broadcast_state s = Broadcast (''STATE'' # state_frames s)"

definition broadcast_transition :: "state_t \<Rightarrow> effect" where
  "broadcast_transition s = Broadcast (''TRANSITION'' # state_frames s)"

section \<open>Submissions\<close>

definition state_update :: "32 word \<Rightarrow> byte \<Rightarrow> string \<Rightarrow> state_t \<Rightarrow> state_t \<times> effect list" where
  "state_update ts code msg s =
     (let transition = state_stale s \<noteq> 0 \<or> state_status s \<noteq> code;
          s1 = s\<lparr>state_status := code, state_summary := msg, state_last_seen := ts,
                 state_expiry := ts + ucast (freshness (state_type s)), state_stale := 0\<rparr>
      in (s1, (if transition then [broadcast_transition s1] else []) @ [broadcast_state s1]))"

section \<open>Freshness\<close>

definition freshen :: "32 word \<Rightarrow> string \<Rightarrow> state_t \<Rightarrow> (state_t \<times> effect list) res" where
  "freshen now key s =
     (if sint (state_expiry s) > sint now \<or> state_ignore s \<noteq> 0 then Inr (s, [])
      else let transition = state_stale s = 0 \<or> state_status s \<noteq> type_status (state_type s)
           in case type_summary (state_type s) of
                None \<Rightarrow> Inl NullDeref
              | Some text \<Rightarrow>
                  let s1 = s\<lparr>state_stale := 1, state_expiry := now + ucast (freshness (state_type s)),
                             state_status := type_status (state_type s), state_summary := text\<rparr>
                  in Inr (s1, (if transition then [broadcast_transition s1] else []) @ [broadcast_state s1]))"

definition check_freshness :: "env \<Rightarrow> db_t \<Rightarrow> (db_t \<times> effect list) res" where
  "check_freshness E d =
     bind_res (for_each (freshen (time_s E)) (hash_order E H_states (fmdom (states d))) (states d))
       (\<lambda>(t, fx). Inr (d\<lparr>states := t\<rparr>, fx))"

section \<open>The freshness check of a table\<close>

text \<open>
  A state is overdue when its expiry has passed and it is not ignored. An overdue
  state becomes stale, takes the status and summary of its type, and expires
  again after the freshness of its type.
\<close>

definition overdue :: "32 word \<Rightarrow> state_t \<Rightarrow> bool" where
  "overdue now s \<longleftrightarrow> sint (state_expiry s) \<le> sint now \<and> state_ignore s = 0"

definition gone_stale :: "32 word \<Rightarrow> state_t \<Rightarrow> state_t" where
  "gone_stale now s = s\<lparr>state_stale := 1, state_expiry := now + ucast (freshness (state_type s)),
     state_status := type_status (state_type s), state_summary := the (type_summary (state_type s))\<rparr>"

definition stale_news :: "32 word \<Rightarrow> state_t \<Rightarrow> effect list" where
  "stale_news now s =
     (if state_stale s \<noteq> 0 \<and> state_status s = type_status (state_type s) then []
      else [broadcast_transition (gone_stale now s)]) @ [broadcast_state (gone_stale now s)]"

definition has_summary :: "string \<Rightarrow> state_t \<Rightarrow> bool" where
  "has_summary k s \<longleftrightarrow> type_summary (state_type s) \<noteq> None"

lemma freshen_eq:
  "has_summary k s \<Longrightarrow> freshen now k s =
    Inr (if overdue now s then (gone_stale now s, stale_news now s) else (s, []))"
  by (auto simp: freshen_def has_summary_def overdue_def gone_stale_def stale_news_def not_less Let_def)

text \<open>
  C6: the freshness check marks exactly the overdue states stale, leaves
  every other state as it is, and announces each of them in the order of the
  table: a \<open>TRANSITION\<close> when the state was not stale yet or its status changes,
  and a \<open>STATE\<close> in any case.
\<close>

theorem freshness_sweep:
  assumes "visits_all E" and "fmpred has_summary (states d)"
  shows "\<exists>d'. check_freshness E d = Inr (d', concat (map (\<lambda>k. case fmlookup (states d) k of
        Some s \<Rightarrow> if overdue (time_s E) s then stale_news (time_s E) s else [] | None \<Rightarrow> [])
      (hash_order E H_states (fmdom (states d))))) \<and>
    (\<forall>k. fmlookup (states d') k = map_option (\<lambda>s. if overdue (time_s E) s then gone_stale (time_s E) s else s)
      (fmlookup (states d) k)) \<and> d' = d\<lparr>states := states d'\<rparr>"
proof -
  let ?ks = "hash_order E H_states (fmdom (states d))"
  let ?g = "\<lambda>k s. if overdue (time_s E) s then (gone_stale (time_s E) s, stale_news (time_s E) s) else (s, [])"
  note v = visits_allD [OF assms(1), of H_states "fmdom (states d)"]
  have "\<exists>m'. for_each (freshen (time_s E)) ?ks (states d) = Inr (m', walked ?g ?ks (states d)) \<and>
      (\<forall>k. fmlookup m' k = (if k \<in> set ?ks then map_option (\<lambda>s. fst (?g k s)) (fmlookup (states d) k)
        else fmlookup (states d) k))"
    using v(1) assms(2) by (intro for_each_total) (auto simp: freshen_eq dest: fmpredD)
  then obtain m' where m': "for_each (freshen (time_s E)) ?ks (states d) = Inr (m', walked ?g ?ks (states d))"
    "\<And>k. fmlookup m' k = (if k \<in> set ?ks then map_option (\<lambda>s. fst (?g k s)) (fmlookup (states d) k)
        else fmlookup (states d) k)" by blast
  have "fmlookup m' k = map_option (\<lambda>s. if overdue (time_s E) s then gone_stale (time_s E) s else s)
      (fmlookup (states d) k)" for k
    using m'(2) [of k] v(2) by (cases "fmlookup (states d) k") (auto simp: fmdomI)
  moreover have "walked ?g ?ks (states d) = concat (map (\<lambda>k. case fmlookup (states d) k of
        Some s \<Rightarrow> if overdue (time_s E) s then stale_news (time_s E) s else [] | None \<Rightarrow> []) ?ks)"
    by (auto simp: walked_def intro!: arg_cong [where f = concat] map_cong split: option.split)
  ultimately show ?thesis using m'(1) by (auto simp: check_freshness_def)
qed

text \<open>One state that is due and one that is not, for the witness.\<close>

definition two_states :: "(string, state_t) fmap" where
  "two_states =
     (let t = \<lparr>type_name = ''t'', freshness = 60, type_status = 3, type_summary = Some ''no news''\<rparr>;
          s = \<lparr>state_type = t, state_name = ''a'', state_last_seen = 5, state_expiry = 65, state_status = 0,
               state_summary = ''fine'', state_stale = 0, state_ignore = 0\<rparr>
      in fmupd ''a'' s (fmupd ''b'' (s\<lparr>state_name := ''b'', state_expiry := 2000000000\<rparr>) fmempty))"

theorem freshness_sweep_witness:
  "\<exists>d' fx. check_freshness plain_env (empty_db\<lparr>states := two_states\<rparr>) = Inr (d', fx) \<and>
    map_option state_status (fmlookup (states d') ''a'') = Some 3 \<and>
    map_option state_status (fmlookup (states d') ''b'') = Some 0"
proof -
  have "fmpred has_summary two_states"
    by (auto simp: two_states_def Let_def has_summary_def fmpred_iff split: if_splits)
  then have "\<exists>d'. check_freshness plain_env (empty_db\<lparr>states := two_states\<rparr>) = Inr (d', concat (map (\<lambda>k.
        case fmlookup two_states k of
        Some s \<Rightarrow> if overdue (time_s plain_env) s then stale_news (time_s plain_env) s else [] | None \<Rightarrow> [])
      (hash_order plain_env H_states (fmdom two_states)))) \<and>
    (\<forall>k. fmlookup (states d') k = map_option (\<lambda>s. if overdue (time_s plain_env) s
        then gone_stale (time_s plain_env) s else s) (fmlookup two_states k))"
    using freshness_sweep [of plain_env "empty_db\<lparr>states := two_states\<rparr>"] by auto
  then show ?thesis
    by (auto simp: two_states_def Let_def overdue_def gone_stale_def plain_env_def)
qed

end
