(* ===== verification/Bolo_Keys.thy ===== *)
theory Bolo_Keys
  imports Bolo_Data
begin

text \<open>
  Keys and their values (\<open>src/src/core.c\<close>): setting, getting and deleting them,
  the broadcast of all keys, and the keys file that is written and read back.
\<close>

section \<open>The table of keys\<close>

fun put_keys :: "string list \<Rightarrow> (string, string option) fmap \<Rightarrow> (string, string option) fmap" where
  "put_keys (k # v # kvs) m = put_keys kvs (fmupd k (Some v) m)"
| "put_keys _ m = m"

fun get_keys :: "(string, string option) fmap \<Rightarrow> string list \<Rightarrow> string list" where
  "get_keys m [] = []"
| "get_keys m (k # ks) =
     (case fmlookup m k of Some (Some v) \<Rightarrow> k # v # get_keys m ks | _ \<Rightarrow> get_keys m ks)"

definition del_keys :: "string list \<Rightarrow> (string, string option) fmap \<Rightarrow> (string, string option) fmap" where
  "del_keys ks m = foldl (\<lambda>m k. fmupd k None m) m ks"

section \<open>The broadcast of all keys\<close>

text \<open>Key and value pairs leave in PDUs of 30 pairs; deleted keys are skipped.\<close>

fun setkeys_loop :: "(string \<times> string option) list \<Rightarrow> pdu \<Rightarrow> nat \<Rightarrow> effect list" where
  "setkeys_loop [] p n = (if n > 0 then [Broadcast p] else [])"
| "setkeys_loop ((k, None) # kvs) p n = setkeys_loop kvs p n"
| "setkeys_loop ((k, Some v) # kvs) p n =
     (if n + 1 = 30 then Broadcast (p @ [k, v]) # setkeys_loop kvs [''SET.KEYS''] 0
      else setkeys_loop kvs (p @ [k, v]) (n + 1))"

definition key_pairs :: "env \<Rightarrow> (string, string option) fmap \<Rightarrow> (string \<times> string option) list" where
  "key_pairs E m = List.map_filter (\<lambda>k. map_option (Pair k) (fmlookup m k)) (hash_order E H_keys (fmdom m))"

section \<open>The keys file\<close>

text \<open>
  The keys file: a comment line, one line per key that has a value, a comment
  line with their number.
\<close>

definition key_lines :: "(string \<times> string option) list \<Rightarrow> string list" where
  "key_lines kvs = List.map_filter (\<lambda>(k, v). map_option (\<lambda>v. k @ '' = '' @ v @ [CHR 10]) v) kvs"

definition save_keys :: "env \<Rightarrow> (string, string option) fmap \<Rightarrow> string \<Rightarrow> int \<times> effect list" where
  "save_keys E m file =
     (if \<not> sys_ok E Sys_fopen file then (- 1, [])
      else let ls = key_lines (key_pairs E m)
           in (0, [SaveKeys file (''# generated '' @ dec (unat (time_ms E)) @ [CHR 10] @ concat ls @
                ''# '' @ dec (length ls) @ '' keys'' @ [CHR 10])]))"

text \<open>
  Reading the file line by line into an array of 8192 characters. The array is
  modelled with what earlier lines left in it, because the code can step over
  the terminator of the line it is at. \<open>scan\<close> is a loop
  \<open>while (*p && P(*p)) p++\<close> from an index; running off the array is a fault.
\<close>

fun scan :: "(char \<Rightarrow> bool) \<Rightarrow> string \<Rightarrow> nat \<Rightarrow> nat res" where
  "scan P [] i = Inl OutOfBounds"
| "scan P (c # cs) i = (if c \<noteq> NUL \<and> P c then scan P cs (i + 1) else Inr i)"

definition char_at :: "string \<Rightarrow> nat \<Rightarrow> char res" where
  "char_at buf i = (if i < length buf then Inr (buf ! i) else Inl OutOfBounds)"

text \<open>One pass of the loop: the array afterwards, and the key and value it found.\<close>

definition read_key_line :: "string \<Rightarrow> (string \<times> (string \<times> string) option) res" where
  "read_key_line buf =
     bind_res (scan isspace buf 0) (\<lambda>key.
     if buf ! key = CHR ''#'' then Inr (buf, None)
     else
       bind_res (scan (\<lambda>c. \<not> isspace c) (drop key buf) key) (\<lambda>v.
       let buf = buf[v := NUL]; v = v + 1 in
       bind_res (scan isspace (drop v buf) v) (\<lambda>v.
       bind_res (char_at buf v) (\<lambda>c.
       if c \<noteq> CHR ''='' then Inr (buf, None)
       else
         let v = v + 1 in
         bind_res (scan isspace (drop v buf) v) (\<lambda>v.
         bind_res (scan (\<lambda>c. c \<noteq> CHR 10) (drop v buf) v) (\<lambda>nl.
         let buf = buf[nl := NUL]
         in Inr (buf, Some (cstr (drop key buf), cstr (drop v buf)))))))))"

function read_lines :: "string \<Rightarrow> string \<Rightarrow> (string, string option) fmap \<Rightarrow> (string, string option) fmap res" where
  "read_lines content buf m =
     (if content = [] then Inr m
      else let (line, rest) = fgets 8191 content
           in bind_res (read_key_line (overlay (line @ [NUL]) buf)) (\<lambda>(buf, kv).
                read_lines rest buf (case kv of None \<Rightarrow> m | Some (k, v) \<Rightarrow> fmupd k (Some v) m)))"
  by pat_completeness auto

termination read_lines
proof (relation "measure (\<lambda>(content, buf, m). length content)")
  fix content buf :: string and m :: "(string, string option) fmap" and x line rest y buf' kv
  assume c: "content \<noteq> []" and x: "x = fgets 8191 content" "(line, rest) = x"
  have "rest = snd (fgets 8191 content)" by (simp add: x(1) [symmetric] x(2) [symmetric])
  then have "length rest < length content" using fgets_shorter [OF c, of 8190] by simp
  then show "((rest, buf', case kv of None \<Rightarrow> m | Some (k, v) \<Rightarrow> fmupd k (Some v) m), content, buf, m)
      \<in> measure (\<lambda>(content, buf, m). length content)"
    by simp
qed simp

declare read_lines.simps [simp del]

definition read_keys :: "env \<Rightarrow> (string, string option) fmap \<Rightarrow> string \<Rightarrow> (int \<times> (string, string option) fmap) res" where
  "read_keys E m file =
     (if \<not> sys_ok E Sys_fopen file then Inr (- 1, m)
      else bind_res (read_lines (file_data E file) (stack E) m) (\<lambda>m. Inr (0, m)))"

section \<open>Setting, getting and deleting\<close>

lemma get_keys_append: "get_keys m (ks @ ls) = get_keys m ks @ get_keys m ls"
  by (induction ks) (auto split: option.split)

lemma del_keys_lookup: "fmlookup (del_keys ks m) k = (if k \<in> set ks then Some None else fmlookup m k)"
  unfolding del_keys_def by (induction ks arbitrary: m) auto

lemma get_keys_deleted: "get_keys (del_keys ks m) ls = get_keys m (filter (\<lambda>k. k \<notin> set ks) ls)"
  by (induction ls) (auto simp: del_keys_lookup split: option.split)

fun pair_up :: "'a list \<Rightarrow> ('a \<times> 'a) list" where
  "pair_up (a # b # xs) = (a, b) # pair_up xs"
| "pair_up _ = []"

lemma put_keys_lookup:
  "fmlookup (put_keys kvs m) k =
    (case map_of (rev (pair_up kvs)) k of Some v \<Rightarrow> Some (Some v) | None \<Rightarrow> fmlookup m k)"
  by (induction kvs m rule: put_keys.induct) (auto simp: map_add_def split: option.split)

section \<open>The groups of the broadcast\<close>

text \<open>The frames of the keys that have a value.\<close>

definition live_frames :: "(string \<times> string option) list \<Rightarrow> string list" where
  "live_frames kvs = concat (List.map_filter (\<lambda>(k, v). map_option (\<lambda>v. [k, v]) v) kvs)"

lemma live_frames_simps [simp]:
  "live_frames [] = []" "live_frames ((k, None) # kvs) = live_frames kvs"
  "live_frames ((k, Some v) # kvs) = k # v # live_frames kvs"
  by (simp_all add: live_frames_def)

definition group_ok :: "effect \<Rightarrow> bool" where
  "group_ok e \<longleftrightarrow> (case e of Broadcast (t # fs) \<Rightarrow> t = ''SET.KEYS'' \<and> 2 \<le> length fs \<and> length fs \<le> 60 | _ \<Rightarrow> False)"

fun group_frames :: "effect \<Rightarrow> string list" where
  "group_frames (Broadcast p) = tl p"
| "group_frames _ = []"

lemma setkeys_loop_groups:
  assumes "p = ''SET.KEYS'' # fs" and "length fs = 2 * n" and "n < 30"
  shows "concat (map group_frames (setkeys_loop kvs p n)) = fs @ live_frames kvs \<and>
    list_all group_ok (setkeys_loop kvs p n) \<and>
    list_all (\<lambda>e. length (group_frames e) = 60) (butlast (setkeys_loop kvs p n))"
  using assms
proof (induction kvs p n arbitrary: fs rule: setkeys_loop.induct)
  case (1 p n)
  then show ?case by (auto simp: group_ok_def)
next
  case (2 k kvs p n)
  then show ?case by simp
next
  case (3 k v kvs p n)
  show ?case
  proof (cases "n + 1 = 30")
    case True
    with 3 show ?thesis by (auto simp: group_ok_def)
  next
    case False
    with 3(2) [OF False, of "fs @ [k, v]"] 3 show ?thesis by simp
  qed
qed

text \<open>
  Note: the broadcast of all keys sends every key that has a value, with its
  value and in the order of the table, in PDUs of 1 to 30 pairs, all but the
  last of which carry 30.
\<close>

theorem setkeys_groups:
  "concat (map group_frames (setkeys_loop kvs [''SET.KEYS''] 0)) = live_frames kvs \<and>
   list_all group_ok (setkeys_loop kvs [''SET.KEYS''] 0) \<and>
   list_all (\<lambda>e. length (group_frames e) = 60) (butlast (setkeys_loop kvs [''SET.KEYS''] 0))"
  using setkeys_loop_groups [of "[''SET.KEYS'']" "[]" 0 kvs] by simp

section \<open>Reading back what was saved\<close>

text \<open>A key and a value that a line of the file can carry.\<close>

definition line_ok :: "string \<Rightarrow> string \<Rightarrow> bool" where
  "line_ok k v \<longleftrightarrow> k \<noteq> [] \<and> hd k \<noteq> CHR ''#'' \<and> list_all (\<lambda>c. \<not> isspace c \<and> c \<noteq> NUL) k \<and>
     (v \<noteq> [] \<longrightarrow> \<not> isspace (hd v)) \<and> list_all (\<lambda>c. c \<noteq> CHR 10 \<and> c \<noteq> NUL) v \<and>
     length k + length v + 4 \<le> 8191"

lemma scan_stop: "c = NUL \<or> \<not> P c \<Longrightarrow> scan P (c # cs) i = Inr i"
  by auto

lemma scan_run:
  "list_all (\<lambda>c. P c \<and> c \<noteq> NUL) s \<Longrightarrow> c = NUL \<or> \<not> P c \<Longrightarrow> scan P (s @ c # cs) i = Inr (i + length s)"
  by (induction s arbitrary: i) auto

lemma isspace_values [simp]: "isspace (CHR '' '')" "isspace (CHR 10)" "\<not> isspace (CHR ''='')"
  by (simp_all add: isspace_def)

lemma read_key_line_steps:
  assumes "scan isspace b0 0 = Inr k" and "b0 ! k \<noteq> CHR ''#''"
    and "scan (\<lambda>c. \<not> isspace c) (drop k b0) k = Inr i" and "b0[i := NUL] = b1"
    and "scan isspace (drop (i + 1) b1) (i + 1) = Inr j" and "char_at b1 j = Inr (CHR ''='')"
    and "scan isspace (drop (j + 1) b1) (j + 1) = Inr v"
    and "scan (\<lambda>c. c \<noteq> CHR 10) (drop v b1) v = Inr nl" and "b1[nl := NUL] = b2"
  shows "read_key_line b0 = Inr (b2, Some (cstr (drop k b2), cstr (drop v b2)))"
  using assms by (simp add: read_key_line_def Let_def del: drop_update_cancel)

lemma read_key_line_saved:
  assumes "line_ok k v"
  shows "\<exists>buf'. read_key_line ((k @ '' = '' @ v @ [CHR 10]) @ [NUL] @ junk) = Inr (buf', Some (k, v)) \<and>
    length buf' = length k + length v + 5 + length junk"
proof -
  let ?b0 = "(k @ '' = '' @ v @ [CHR 10]) @ [NUL] @ junk"
  let ?b1 = "k @ [NUL] @ ''= '' @ v @ [CHR 10, NUL] @ junk"
  have k: "list_all (\<lambda>c. \<not> isspace c \<and> c \<noteq> NUL) k" "cstring k" "cstring v"
    and nl: "list_all (\<lambda>c. c \<noteq> CHR 10 \<and> c \<noteq> NUL) v"
    using assms by (auto simp: line_ok_def list_all_iff cstring_def)
  obtain c k' where ck: "k = c # k'" "c \<noteq> CHR ''#''" "\<not> isspace c"
    using assms by (cases k) (auto simp: line_ok_def)
  have s1: "scan isspace ?b0 0 = Inr 0" "?b0 ! 0 \<noteq> CHR ''#''" using ck by simp_all
  have s2: "scan (\<lambda>c. \<not> isspace c) (drop 0 ?b0) 0 = Inr (length k)"
    using scan_run [of "\<lambda>c. \<not> isspace c" k "CHR '' ''" "''= '' @ v @ [CHR 10, NUL] @ junk" 0] k by simp
  have u1: "?b0[length k := NUL] = ?b1" by (simp add: list_update_append)
  have s3: "scan isspace (drop (length k + 1) ?b1) (length k + 1) = Inr (length k + 1)" by simp
  have c: "char_at ?b1 (length k + 1) = Inr (CHR ''='')" by (simp add: char_at_def nth_append)
  note steps = read_key_line_steps [OF s1 s2 u1 s3 c]
  show ?thesis
  proof (cases v)
    case Nil
    let ?b2 = "k @ [NUL] @ ''= '' @ [CHR 10, NUL] @ junk"
    have "read_key_line ?b0 = Inr (?b2, Some (cstr (drop 0 ?b2), cstr (drop (length k + 4) ?b2)))"
      by (rule steps [where nl = "length k + 4"]) (simp_all add: Nil list_update_append)
    moreover have "cstr (drop 0 ?b2) = k" using k by simp
    moreover have "cstr (drop (length k + 4) ?b2) = v" using Nil by (simp add: cstr_def)
    ultimately show ?thesis using Nil by simp
  next
    case (Cons a v')
    have a: "\<not> isspace a" using assms Cons by (simp add: line_ok_def)
    let ?b2 = "k @ [NUL] @ ''= '' @ v @ [NUL, NUL] @ junk"
    have "read_key_line ?b0 = Inr (?b2, Some (cstr (drop 0 ?b2), cstr (drop (length k + 3) ?b2)))"
    proof (rule steps [where nl = "length k + 3 + length v"])
      show "scan isspace (drop (length k + 1 + 1) ?b1) (length k + 1 + 1) = Inr (length k + 3)"
        using Cons a by simp
      show "scan (\<lambda>c. c \<noteq> CHR 10) (drop (length k + 3) ?b1) (length k + 3) = Inr (length k + 3 + length v)"
        using scan_run [OF nl, of "CHR 10" "NUL # junk" "length k + 3"] by simp
      show "?b1[length k + 3 + length v := NUL] = ?b2" by (simp add: list_update_append)
    qed
    moreover have "cstr (drop 0 ?b2) = k" "cstr (drop (length k + 3) ?b2) = v" using k by simp_all
    ultimately show ?thesis by simp
  qed
qed

lemma read_comment: "read_key_line (overlay ((CHR ''#'' # l) @ [NUL]) buf) = Inr (overlay ((CHR ''#'' # l) @ [NUL]) buf, None)"
  by (simp add: read_key_line_def overlay_def isspace_def)

lemma length_overlay: "length bs \<le> length buf \<Longrightarrow> length (overlay bs buf) = length buf"
  by (simp add: overlay_def)

lemma read_lines_line:
  assumes "list_all (\<lambda>c. c \<noteq> CHR 10) l" and "length l < 8191"
  shows "read_lines (l @ CHR 10 # r) buf m =
    bind_res (read_key_line (overlay ((l @ [CHR 10]) @ [NUL]) buf)) (\<lambda>(buf, kv).
      read_lines r buf (case kv of None \<Rightarrow> m | Some (k, v) \<Rightarrow> fmupd k (Some v) m))"
  by (subst read_lines.simps) (simp add: fgets_line [OF assms])

definition put_pairs :: "(string \<times> string option) list \<Rightarrow> (string, string option) fmap \<Rightarrow> (string, string option) fmap" where
  "put_pairs kvs m = foldl (\<lambda>m (k, v). case v of None \<Rightarrow> m | Some v \<Rightarrow> fmupd k (Some v) m) m kvs"

lemma read_lines_saved:
  assumes "length buf = 8192" and "\<forall>(k, v) \<in> set kvs. \<forall>w. v = Some w \<longrightarrow> line_ok k w"
  shows "\<exists>buf'. length buf' = 8192 \<and>
    read_lines (concat (key_lines kvs) @ rest) buf m = read_lines rest buf' (put_pairs kvs m)"
  using assms
proof (induction kvs arbitrary: buf m)
  case Nil
  then show ?case by (auto simp: key_lines_def put_pairs_def)
next
  case (Cons a kvs)
  obtain k v where a: "a = (k, v)" by fastforce
  show ?case
  proof (cases v)
    case None
    with a Cons show ?thesis by (simp add: key_lines_def put_pairs_def)
  next
    case (Some w)
    with a Cons.prems have ok: "line_ok k w" by auto
    let ?l = "k @ '' = '' @ w"
    have l: "list_all (\<lambda>c. c \<noteq> CHR 10) ?l" "length ?l < 8191"
      using ok by (auto simp: line_ok_def list_all_iff isspace_def)
    define junk where "junk = drop (length ?l + 2) buf"
    have o: "overlay ((?l @ [CHR 10]) @ [NUL]) buf = (k @ '' = '' @ w @ [CHR 10]) @ [NUL] @ junk"
      by (simp add: overlay_def junk_def)
    from read_key_line_saved [OF ok, of junk] obtain buf1
      where b: "read_key_line ((k @ '' = '' @ w @ [CHR 10]) @ [NUL] @ junk) = Inr (buf1, Some (k, w))"
        "length buf1 = length k + length w + 5 + length junk" by blast
    have "length buf1 = 8192" using b(2) Cons.prems(1) l(2) by (simp add: junk_def)
    with Cons.IH [of buf1 "fmupd k (Some w) m"] Cons.prems obtain buf' where b': "length buf' = 8192"
      "read_lines (concat (key_lines kvs) @ rest) buf1 (fmupd k (Some w) m) =
        read_lines rest buf' (put_pairs kvs (fmupd k (Some w) m))" by auto
    have "concat (key_lines (a # kvs)) @ rest = ?l @ CHR 10 # (concat (key_lines kvs) @ rest)"
      using a Some by (simp add: key_lines_def)
    then have "read_lines (concat (key_lines (a # kvs)) @ rest) buf m =
        bind_res (read_key_line (overlay ((?l @ [CHR 10]) @ [NUL]) buf)) (\<lambda>(buf, kv).
          read_lines (concat (key_lines kvs) @ rest) buf (case kv of None \<Rightarrow> m | Some (k, v) \<Rightarrow> fmupd k (Some v) m))"
      by (simp only: read_lines_line [OF l])
    also have "\<dots> = read_lines rest buf' (put_pairs (a # kvs) m)"
      using a Some b'(2) by (simp only: o b bind_res_simps) (simp add: put_pairs_def)
    finally show ?thesis using b'(1) by blast
  qed
qed

lemma read_lines_comment:
  assumes "list_all (\<lambda>c. c \<noteq> CHR 10) l" and "length l < 8190" and "length buf = 8192"
  shows "\<exists>buf'. length buf' = 8192 \<and> read_lines ((CHR ''#'' # l) @ CHR 10 # r) buf m = read_lines r buf' m"
proof -
  have "list_all (\<lambda>c. c \<noteq> CHR 10) (CHR ''#'' # l)" "length (CHR ''#'' # l) < 8191" using assms by auto
  from read_lines_line [OF this, of r buf m] show ?thesis
    using read_comment [of "l @ [CHR 10]" buf] length_overlay [of "(CHR ''#'' # l @ [CHR 10]) @ [NUL]" buf] assms
    by auto
qed

lemma dec_line: "list_all (\<lambda>c. c \<noteq> CHR 10) (dec n)"
  using dec_digits [of n] by (auto simp: list_all_iff isdigit_def)


lemma put_pairs_lookup:
  assumes "distinct (map fst kvs)"
  shows "fmlookup (put_pairs kvs m) k =
    (case map_of kvs k of Some (Some v) \<Rightarrow> Some (Some v) | _ \<Rightarrow> fmlookup m k)"
  using assms
proof (induction kvs arbitrary: m)
  case (Cons a kvs)
  obtain j v where a: "a = (j, v)" by fastforce
  with Cons.prems have "map_of kvs j = None" by (auto simp: map_of_eq_None_iff image_iff)
  with Cons.IH Cons.prems a show ?case
    by (auto simp: put_pairs_def split: option.split)
qed (simp add: put_pairs_def)

lemma key_pairs_props:
  assumes "visits_all E"
  shows "distinct (map fst (key_pairs E m))" and "map_of (key_pairs E m) k = fmlookup m k"
proof -
  let ?ks = "hash_order E H_keys (fmdom m)"
  note v = visits_allD [OF assms, of H_keys "fmdom m"]
  have e: "List.map_filter (\<lambda>k. map_option (Pair k) (fmlookup m k)) ks = map (\<lambda>k. (k, the (fmlookup m k))) ks"
    if "set ks \<subseteq> fset (fmdom m)" for ks
    using that by (induction ks) (auto simp: fmlookup_dom'_iff)
  then have kp: "key_pairs E m = map (\<lambda>k. (k, the (fmlookup m k))) ?ks" using v by (simp add: key_pairs_def)
  then show "distinct (map fst (key_pairs E m))" using v by (simp add: o_def)
  have "map_of (map (\<lambda>k. (k, the (fmlookup m k))) ks) k =
      (if k \<in> set ks then Some (the (fmlookup m k)) else None)" for ks
    by (induction ks) auto
  then have "map_of (key_pairs E m) k = (if k \<in> fset (fmdom m) then Some (the (fmlookup m k)) else None)"
    by (simp only: kp v(2))
  then show "map_of (key_pairs E m) k = fmlookup m k"
    by (cases "fmlookup m k") (simp_all add: fmdomI fmdom_notI)
qed

lemma length_dec: "n < 10 ^ Suc k \<Longrightarrow> length (dec n) \<le> Suc k"
proof (induction k arbitrary: n)
  case 0
  then show ?case by (simp add: dec.simps)
next
  case (Suc k)
  then have "n div 10 < 10 ^ Suc k" by (simp add: div_less_iff_less_mult)
  from Suc.IH [OF this] show ?case by (subst dec.simps) simp
qed

lemma length_dec_64: "n < 2 ^ 64 \<Longrightarrow> length (dec n) \<le> 20"
  using length_dec [of n 19] by simp

lemma length_key_lines: "length (key_lines kvs) \<le> length kvs"
  by (induction kvs) (auto simp: key_lines_def split: option.split)

lemma length_key_pairs:
  assumes "visits_all E"
  shows "length (key_pairs E m) \<le> fcard (fmdom m)"
proof -
  have "length (key_pairs E m) \<le> length (hash_order E H_keys (fmdom m))"
    unfolding key_pairs_def List.map_filter_def by simp
  then show ?thesis
    using visits_allD [OF assms, of H_keys "fmdom m"] by (metis distinct_card fcard.rep_eq)
qed

text \<open>
  C7: what \<open>save_keys\<close> writes, \<open>read_keys\<close> reads back, when every key with a value fits a
  line (\<open>line_ok\<close>): the key is not empty, has no blanks and does not begin with \<open>#\<close>, the value has no newline and does
  not begin with a blank, and both together are at most 8187 characters long. Every key with a
  value is set to that value, and no other key changes. The contents of the line
  array before the call do not matter. \<open>SET.KEYS\<close> does not check these conditions.
\<close>

theorem keys_roundtrip:
  assumes "save_keys W m file = (0, [SaveKeys file content])" and "visits_all W"
    and "fmpred (\<lambda>k v. case v of None \<Rightarrow> True | Some w \<Rightarrow> line_ok k w) m"
    and "file_data R file = content" and "sys_ok R Sys_fopen file" and "length (stack R) = 8192"
    and "fcard (fmdom m) < 2 ^ 64"
  shows "\<exists>m'. read_keys R m0 file = Inr (0, m') \<and>
    (\<forall>k. fmlookup m' k = (case fmlookup m k of Some (Some v) \<Rightarrow> Some (Some v) | _ \<Rightarrow> fmlookup m0 k))"
proof -
  let ?kvs = "key_pairs W m" and ?ls = "key_lines (key_pairs W m)"
  let ?h = "'' generated '' @ dec (unat (time_ms W))" and ?t = "CHR '' '' # dec (length ?ls) @ '' keys''"
  note kp = key_pairs_props [OF assms(2), of m]
  have c: "content = (CHR ''#'' # ?h) @ CHR 10 # (concat ?ls @ (CHR ''#'' # ?t) @ CHR 10 # [])"
    using assms(1) by (simp add: save_keys_def Let_def split: if_splits)
  have "length ?ls < 2 ^ 64"
    using length_key_lines [of ?kvs] length_key_pairs [OF assms(2), of m] assms(7) by linarith
  then have t: "list_all (\<lambda>c. c \<noteq> CHR 10) ?t" "length ?t < 8190"
    using length_dec_64 [of "length ?ls"] dec_line [of "length ?ls"] by auto
  have h: "list_all (\<lambda>c. c \<noteq> CHR 10) ?h" "length ?h < 8190"
    using length_dec_64 [of "unat (time_ms W)"] unsigned_less [of "time_ms W", where 'a = nat]
      dec_line [of "unat (time_ms W)"] by auto
  obtain b1 where b1: "length b1 = 8192" "read_lines content (stack R) m0 =
      read_lines (concat ?ls @ (CHR ''#'' # ?t) @ CHR 10 # []) b1 m0"
    unfolding c using read_lines_comment [OF h assms(6)] by blast
  have "\<forall>(k, v) \<in> set ?kvs. \<forall>w. v = Some w \<longrightarrow> line_ok k w"
  proof (clarify)
    fix k w
    assume "(k, Some w) \<in> set ?kvs"
    then have "fmlookup m k = Some (Some w)" using kp by (metis map_of_is_SomeI)
    with assms(3) show "line_ok k w" by (auto dest: fmpredD)
  qed
  from read_lines_saved [OF b1(1) this] obtain b2 where b2: "length b2 = 8192"
    "read_lines (concat ?ls @ (CHR ''#'' # ?t) @ CHR 10 # []) b1 m0 =
      read_lines ((CHR ''#'' # ?t) @ CHR 10 # []) b2 (put_pairs ?kvs m0)" by blast
  from read_lines_comment [OF t b2(1)] obtain b3 where
    "read_lines ((CHR ''#'' # ?t) @ CHR 10 # []) b2 (put_pairs ?kvs m0) = read_lines [] b3 (put_pairs ?kvs m0)"
    by blast
  then have "read_keys R m0 file = Inr (0, put_pairs ?kvs m0)"
    using assms(4,5) b1(2) b2(2) by (simp add: read_keys_def read_lines.simps [of "[]"])
  then show ?thesis using put_pairs_lookup [OF kp(1)] kp(2) by simp
qed

text \<open>
  Note: a blank line in the keys file makes \<open>read_keys\<close> step over its
  terminator and parse what the line before left in the array: after a key of
  one letter, the empty key is set to that key's value.
\<close>

theorem blank_line_stale:
  "read_keys (plain_env\<lparr>file_data := \<lambda>_. ''k = v'' @ [CHR 10, CHR 10]\<rparr>) fmempty f =
    Inr (0, fmupd [] (Some ''v'') (fmupd ''k'' (Some ''v'') fmempty))"
proof -
  define j where "j = replicate 8184 NUL"
  have "replicate 8192 NUL = replicate 8 NUL @ j" by (simp add: j_def flip: replicate_add)
  moreover have "replicate 8 NUL = [NUL, NUL, NUL, NUL, NUL, NUL, NUL, NUL]" by (simp add: numeral_eq_Suc)
  ultimately have st: "stack plain_env = [NUL, NUL, NUL, NUL, NUL, NUL, NUL, NUL] @ j"
    by (simp add: plain_env_def)
  have f: "fgets 8191 (''k = v'' @ [CHR 10, CHR 10]) = (''k = v'' @ [CHR 10], [CHR 10])"
    using fgets_line [of "''k = v''" 8191 "[CHR 10]"] by simp
  have g: "fgets 8191 [CHR 10] = ([CHR 10], [])" using fgets_line [of "[]" 8191 "[]"] by simp
  have l1: "read_key_line (overlay (''k = v'' @ [CHR 10, NUL]) (stack plain_env)) =
      Inr ([CHR ''k'', NUL, CHR ''='', CHR '' '', CHR ''v'', NUL, NUL, NUL] @ j, Some (''k'', ''v''))"
    by (simp add: st overlay_def read_key_line_def isspace_def char_at_def cstr_def)
  have l2: "read_key_line (overlay [CHR 10, NUL] ([CHR ''k'', NUL, CHR ''='', CHR '' '', CHR ''v'', NUL, NUL, NUL] @ j)) =
      Inr ([CHR 10, NUL, CHR ''='', CHR '' '', CHR ''v'', NUL, NUL, NUL] @ j, Some ([], ''v''))"
    by (simp add: overlay_def read_key_line_def isspace_def char_at_def cstr_def)
  show ?thesis
    using l1 l2 f g by (simp add: read_keys_def read_lines.simps [of "_ # _"] read_lines.simps [of "[]"])
qed

definition one_key :: "(string, string option) fmap" where
  "one_key = fmupd ''host'' (Some ''db 1'') fmempty"

theorem keys_roundtrip_witness:
  "\<exists>content m'. save_keys plain_env one_key ''f'' = (0, [SaveKeys ''f'' content]) \<and>
    read_keys (plain_env\<lparr>file_data := \<lambda>_. content\<rparr>) fmempty ''f'' = Inr (0, m') \<and>
    fmlookup m' ''host'' = Some (Some ''db 1'')"
proof -
  obtain content where c: "save_keys plain_env one_key ''f'' = (0, [SaveKeys ''f'' content])"
    by (simp add: save_keys_def Let_def)
  let ?R = "plain_env\<lparr>file_data := \<lambda>_. content\<rparr>"
  have "\<exists>m'. read_keys ?R fmempty ''f'' = Inr (0, m') \<and> (\<forall>k. fmlookup m' k =
      (case fmlookup one_key k of Some (Some v) \<Rightarrow> Some (Some v) | _ \<Rightarrow> fmlookup fmempty k))"
    by (rule keys_roundtrip [OF c])
      (auto simp: one_key_def line_ok_def isspace_def fmpred_iff fcard.rep_eq)
  with c show ?thesis by (auto simp: one_key_def)
qed

end
