(* ===== verification/Bolo_Kernel.thy ===== *)
theory Bolo_Kernel
  imports Bolo_Restart Bolo_Windows Bolo_States Bolo_Events Bolo_Keys
begin

text \<open>
  The kernel thread of the aggregator (\<open>src/src/core.c\<close>): the broadcasts, the
  handlers of the PDUs that arrive on the listener and management sockets, and
  the work done on each tick of the scheduler.

  A handler is a function of the environment, the PDU and the kernel; it returns
  the new kernel and, in order, what it sent or wrote. The clock is read once
  per handler. PDUs are handed to \<open>pdu_send_and_free\<close>; what a socket does with
  them is outside the model.
\<close>

section \<open>The kernel and its effects\<close>

record timer_t =
  timer_last :: "32 word"
  timer_interval :: "16 word"

record kernel_t =
  k_listener :: bool
  k_broadcast :: bool
  k_management :: bool
  k_beacon :: bool
  k_server :: server_t
  k_freshness :: timer_t
  k_savestate :: timer_t
  k_tick :: timer_t
  k_sweep :: timer_t

abbreviation k_db :: "kernel_t \<Rightarrow> db_t" where
  "k_db K \<equiv> s_db (k_server K)"

definition set_db :: "db_t \<Rightarrow> kernel_t \<Rightarrow> kernel_t" where
  "set_db d K = K\<lparr>k_server := k_server K\<lparr>s_db := d\<rparr>\<rparr>"

definition set_keys :: "(string, string option) fmap \<Rightarrow> kernel_t \<Rightarrow> kernel_t" where
  "set_keys m K = K\<lparr>k_server := k_server K\<lparr>s_keys := m\<rparr>\<rparr>"

section \<open>Broadcasts\<close>

definition broadcast_setkeys :: "env \<Rightarrow> kernel_t \<Rightarrow> effect list" where
  "broadcast_setkeys E K = setkeys_loop (key_pairs E (s_keys (k_server K))) [''SET.KEYS''] 0"

definition beacon_sweep :: "env \<Rightarrow> 16 word \<Rightarrow> effect" where
  "beacon_sweep E secs = Beacon [''BEACON'', dec (unat (time_ms E)), dec (unat secs * 1000)]"

section \<open>Ticks\<close>

definition due :: "timer_t \<Rightarrow> 32 word \<Rightarrow> bool" where
  "due t now \<longleftrightarrow> sint (timer_last t) + sint (timer_interval t) < sint now"

text \<open>Writing the save file; opening a file whose name is a null pointer fails.\<close>

definition write_db :: "env \<Rightarrow> server_t \<Rightarrow> effect list res" where
  "write_db E S =
     (case c_savefile (s_config S) of
        None \<Rightarrow> Inr []
      | Some file \<Rightarrow>
          bind_res (binf_write E (s_db S) file (c_save_size (s_config S))) (\<lambda>(rc, out).
            Inr (case out of None \<Rightarrow> [] | Some (data, n) \<Rightarrow> [SaveDb file data n])))"

definition write_keys :: "env \<Rightarrow> server_t \<Rightarrow> effect list" where
  "write_keys E S =
     (case c_keysfile (s_config S) of None \<Rightarrow> [] | Some file \<Rightarrow> snd (save_keys E (s_keys S) file))"

definition tick_step :: "env \<Rightarrow> kernel_t \<Rightarrow> (kernel_t \<times> effect list) res" where
  "tick_step E K =
     (if due (k_tick K) (time_s E)
      then bind_res (tick_windows E (time_s E - c_grace_period (s_config (k_server K))) (k_db K)) (\<lambda>(d, fx).
             Inr (set_db d (K\<lparr>k_tick := k_tick K\<lparr>timer_last := time_s E\<rparr>\<rparr>), fx))
      else Inr (K, []))"

definition sweep_step :: "env \<Rightarrow> kernel_t \<Rightarrow> kernel_t \<times> effect list" where
  "sweep_step E K =
     (if k_beacon K \<and> due (k_sweep K) (time_s E)
      then (K\<lparr>k_sweep := k_sweep K\<lparr>timer_last := time_s E\<rparr>\<rparr>, [beacon_sweep E (timer_interval (k_sweep K))])
      else (K, []))"

definition freshness_step :: "env \<Rightarrow> kernel_t \<Rightarrow> (kernel_t \<times> effect list) res" where
  "freshness_step E K =
     (if due (k_freshness K) (time_s E)
      then bind_res (check_freshness E (k_db K)) (\<lambda>(d, fx).
             Inr (set_db d (K\<lparr>k_freshness := k_freshness K\<lparr>timer_last := time_s E\<rparr>\<rparr>), fx))
      else Inr (K, []))"

definition savestate_step :: "env \<Rightarrow> kernel_t \<Rightarrow> (kernel_t \<times> effect list) res" where
  "savestate_step E K =
     (if due (k_savestate K) (time_s E)
      then bind_res (write_db E (k_server K)) (\<lambda>fx.
             Inr (K\<lparr>k_savestate := k_savestate K\<lparr>timer_last := time_s E\<rparr>\<rparr>,
                  broadcast_setkeys E K @ fx @ write_keys E (k_server K)))
      else Inr (K, []))"

definition tock :: "env \<Rightarrow> kernel_t \<Rightarrow> (kernel_t \<times> effect list) res" where
  "tock E K =
     bind_res (tick_step E K) (\<lambda>(K, f1).
     let (K, f2) = sweep_step E K in
     bind_res (freshness_step E K) (\<lambda>(K, f3).
     bind_res (savestate_step E K) (\<lambda>(K, f4).
     Inr (K, f1 @ f2 @ f3 @ f4))))"

section \<open>The management socket\<close>

definition pdu_is :: "pdu \<Rightarrow> string \<Rightarrow> nat \<Rightarrow> nat \<Rightarrow> bool" where
  "pdu_is p t mn mx \<longleftrightarrow>
     (if mn \<noteq> 0 \<and> length p < mn then False
      else if mx \<noteq> 0 \<and> length p > mx then False
      else hd p = t)"

definition mgmt_state :: "pdu \<Rightarrow> kernel_t \<Rightarrow> kernel_t \<times> effect list" where
  "mgmt_state p K =
     (case fmlookup (states (k_db K)) (p ! 1) of
        None \<Rightarrow> (K, [Reply [''ERROR'', ''State Not Found'']])
      | Some s \<Rightarrow> (K, [Reply (''STATE'' # (p ! 1) # tl (state_frames s))]))"

text \<open>
  The reply is the text of a temporary file mapped into memory and read as a C
  string: the bytes behind the text up to the end of its last page are zero, but
  a text that fills its pages has no terminator.
\<close>

definition mapped_string :: "env \<Rightarrow> string \<Rightarrow> string res" where
  "mapped_string E text = (if length text mod page_size E = 0 then Inl OutOfBounds else Inr text)"

definition dump_entry :: "string \<Rightarrow> state_t \<Rightarrow> string" where
  "dump_entry name s = name @ '':'' @ [CHR 10] @
     ''  status:    '' @ statstr (state_status s) @ [CHR 10] @
     ''  message:   '' @ state_summary s @ [CHR 10] @
     ''  last_seen: '' @ show_int (sint (state_last_seen s)) @ [CHR 10] @
     ''  fresh:     '' @ (if state_stale s \<noteq> 0 then ''no'' else ''yes'') @ [CHR 10]"

definition dump_text :: "env \<Rightarrow> (string, state_t) fmap \<Rightarrow> string" where
  "dump_text E m = dump_head @ concat (map (\<lambda>k. case fmlookup m k of None \<Rightarrow> [] | Some s \<Rightarrow> dump_entry k s)
     (hash_order E H_states (fmdom m)))"

definition mgmt_dump :: "env \<Rightarrow> kernel_t \<Rightarrow> (kernel_t \<times> effect list) res" where
  "mgmt_dump E K =
     (if \<not> sys_ok E Sys_tmpfile [] then Inr (K, [Reply [''ERROR'', ''Internal error'']])
      else if \<not> sys_ok E Sys_mmap [] then Inr (K, [Reply [''ERROR'', strerror E Sys_mmap]])
      else bind_res (mapped_string E (dump_text E (states (k_db K)))) (\<lambda>d. Inr (K, [Reply [''DUMP'', d]])))"

definition mgmt_get_keys :: "pdu \<Rightarrow> kernel_t \<Rightarrow> kernel_t \<times> effect list" where
  "mgmt_get_keys p K = (K, [Reply (''VALUES'' # get_keys (s_keys (k_server K)) (tl p))])"

definition mgmt_del_keys :: "pdu \<Rightarrow> kernel_t \<Rightarrow> kernel_t \<times> effect list" where
  "mgmt_del_keys p K = (set_keys (del_keys (tl p) (s_keys (k_server K))) K, [Reply [''OK'']])"

definition mgmt_search_keys :: "env \<Rightarrow> pdu \<Rightarrow> kernel_t \<Rightarrow> kernel_t \<times> effect list" where
  "mgmt_search_keys E p K =
     (let pattern = p ! 1
      in case pcre_compile E pattern of
           Some err \<Rightarrow> (K, [Reply [''ERROR'', err]])
         | None \<Rightarrow> (K, [Reply (''KEYS'' # filter (\<lambda>k. pcre_exec E pattern k = 0)
             (hash_order E H_keys (fmdom (s_keys (k_server K)))))]))"

definition mgmt_get_events :: "env \<Rightarrow> pdu \<Rightarrow> kernel_t \<Rightarrow> (kernel_t \<times> effect list) res" where
  "mgmt_get_events E p K =
     (let since = word_of_int (strtol (p ! 1))
      in if \<not> sys_ok E Sys_tmpfile [] then Inr (K, [Reply [''ERROR'', ''Internal error'']])
         else if \<not> sys_ok E Sys_mmap [] then Inr (K, [Reply [''ERROR'', ''Internal error'']])
         else bind_res (mapped_string E (events_text since (events (k_db K)))) (\<lambda>d.
           Inr (K, [Reply [''EVENTS'', d]])))"

definition sync_db :: "env \<Rightarrow> server_t \<Rightarrow> effect list" where
  "sync_db E S =
     (case c_savefile (s_config S) of
        None \<Rightarrow> []
      | Some file \<Rightarrow> if binf_sync E file (c_save_size (s_config S)) = 0 then [SyncDb file] else [])"

definition mgmt_savestate :: "env \<Rightarrow> kernel_t \<Rightarrow> (kernel_t \<times> effect list) res" where
  "mgmt_savestate E K =
     bind_res (write_db E (k_server K)) (\<lambda>fx.
       Inr (K, fx @ sync_db E (k_server K) @ write_keys E (k_server K) @ [Reply [''OK'']]))"

text \<open>
  \<open>FORGET\<close>: for each kind of data point the payload mask selects, the entries
  whose name matches are marked ignored, or removed.
\<close>

abbreviation (input) PAYLOAD_STATE :: "16 word" where "PAYLOAD_STATE \<equiv> 0x0001"
abbreviation (input) PAYLOAD_COUNTER :: "16 word" where "PAYLOAD_COUNTER \<equiv> 0x0002"
abbreviation (input) PAYLOAD_RATE :: "16 word" where "PAYLOAD_RATE \<equiv> 0x0004"
abbreviation (input) PAYLOAD_SAMPLE :: "16 word" where "PAYLOAD_SAMPLE \<equiv> 0x0008"

definition payload_is :: "16 word \<Rightarrow> 16 word \<Rightarrow> bool" where
  "payload_is payload t \<longleftrightarrow> payload AND t > 0"

definition forget_table ::
  "env \<Rightarrow> hash_name \<Rightarrow> string \<Rightarrow> byte \<Rightarrow> ('v \<Rightarrow> 'v) \<Rightarrow> (string, 'v) fmap \<Rightarrow> (string, 'v) fmap" where
  "forget_table E h pattern ign mark m =
     (let hit = (\<lambda>k. pcre_exec E pattern k = 0)
      in if ign \<noteq> 0
         then foldl (\<lambda>m k. case fmlookup m k of None \<Rightarrow> m | Some v \<Rightarrow> if hit k then fmupd k (mark v) m else m)
                m (hash_order E h (fmdom m))
         else foldl (\<lambda>m k. if hit k then fmdrop k m else m) m (unset_order E h hit (fmdom m)))"

definition forget :: "env \<Rightarrow> 16 word \<Rightarrow> string \<Rightarrow> byte \<Rightarrow> db_t \<Rightarrow> db_t" where
  "forget E payload pattern ign d =
     (let d = (if payload_is payload PAYLOAD_STATE
               then d\<lparr>states := forget_table E H_states pattern ign (\<lambda>x. x\<lparr>state_ignore := 1\<rparr>) (states d)\<rparr> else d);
          d = (if payload_is payload PAYLOAD_COUNTER
               then d\<lparr>counters := forget_table E H_counters pattern ign (\<lambda>x. x\<lparr>counter_ignore := 1\<rparr>) (counters d)\<rparr> else d);
          d = (if payload_is payload PAYLOAD_SAMPLE
               then d\<lparr>samples := forget_table E H_samples pattern ign (\<lambda>x. x\<lparr>sample_ignore := 1\<rparr>) (samples d)\<rparr> else d)
      in if payload_is payload PAYLOAD_RATE
         then d\<lparr>rates := forget_table E H_rates pattern ign (\<lambda>x. x\<lparr>rate_ignore := 1\<rparr>) (rates d)\<rparr> else d)"

definition mgmt_forget :: "env \<Rightarrow> pdu \<Rightarrow> kernel_t \<Rightarrow> kernel_t \<times> effect list" where
  "mgmt_forget E p K =
     (let payload = ucast (strtoul (p ! 1)); ign = ucast (strtoul (p ! 3)); pattern = p ! 2
      in case pcre_compile E pattern of
           Some err \<Rightarrow> (K, [Reply [''ERROR'', err]])
         | None \<Rightarrow> (set_db (forget E payload pattern ign (k_db K)) K, [Reply [''OK'']]))"

definition management :: "env \<Rightarrow> pdu \<Rightarrow> kernel_t \<Rightarrow> (kernel_t \<times> effect list) res" where
  "management E p K =
     (if pdu_is p ''STATE'' 2 2 then Inr (mgmt_state p K)
      else if pdu_is p ''DUMP'' 1 1 then mgmt_dump E K
      else if pdu_is p ''GET.KEYS'' 2 0 then Inr (mgmt_get_keys p K)
      else if pdu_is p ''DEL.KEYS'' 2 0 then Inr (mgmt_del_keys p K)
      else if pdu_is p ''SEARCH.KEYS'' 2 2 then Inr (mgmt_search_keys E p K)
      else if pdu_is p ''GET.EVENTS'' 2 2 then mgmt_get_events E p K
      else if pdu_is p ''SAVESTATE'' 1 1 then mgmt_savestate E K
      else if pdu_is p ''FORGET'' 4 4 then Inr (mgmt_forget E p K)
      else Inr (K, []))"

section \<open>The listener socket\<close>

definition listen_state :: "env \<Rightarrow> pdu \<Rightarrow> kernel_t \<Rightarrow> (kernel_t \<times> effect list) res" where
  "listen_state E p K =
     (let ts = ucast (strtoul (p ! 1)); code = ucast (atoi (p ! 3)); name = p ! 2; msg = p ! 4
      in if name \<noteq> [] \<and> msg \<noteq> [] then
           (case find_state E (k_db K) name of
              (Some s, d) \<Rightarrow>
                if state_ignore s = 0
                then let (s1, fx) = state_update ts code msg s
                     in Inr (set_db (d\<lparr>states := fmupd name s1 (states d)\<rparr>) K, fx)
                else Inr (set_db d K, [])
            | (None, d) \<Rightarrow> Inr (set_db d K, []))
         else Inr (K, []))"

definition listen_counter :: "env \<Rightarrow> pdu \<Rightarrow> kernel_t \<Rightarrow> (kernel_t \<times> effect list) res" where
  "listen_counter E p K =
     (let ts = ucast (strtoul (p ! 1)); incr = word_of_int (strtol (p ! 3)); name = p ! 2
      in if name \<noteq> [] then
           (case find_counter E (k_db K) name of
              (Some c, d) \<Rightarrow>
                if counter_ignore c = 0
                then bind_res (counter_update ts incr c) (\<lambda>(c1, fx).
                       Inr (set_db (d\<lparr>counters := fmupd name c1 (counters d)\<rparr>) K, fx))
                else Inr (set_db d K, [])
            | (None, d) \<Rightarrow> Inr (set_db d K, []))
         else Inr (K, []))"

definition listen_sample :: "env \<Rightarrow> pdu \<Rightarrow> kernel_t \<Rightarrow> (kernel_t \<times> effect list) res" where
  "listen_sample E p K =
     (let ts = ucast (strtoul (p ! 1)); name = p ! 2
      in if name \<noteq> [] then
           (case find_sample E (k_db K) name of
              (Some s, d) \<Rightarrow>
                if sample_ignore s = 0
                then bind_res (sample_update E ts (map (strtod E) (drop 3 p)) s) (\<lambda>(s1, fx).
                       Inr (set_db (d\<lparr>samples := fmupd name s1 (samples d)\<rparr>) K, fx))
                else Inr (set_db d K, [])
            | (None, d) \<Rightarrow> Inr (set_db d K, []))
         else Inr (K, []))"

definition listen_rate :: "env \<Rightarrow> pdu \<Rightarrow> kernel_t \<Rightarrow> (kernel_t \<times> effect list) res" where
  "listen_rate E p K =
     (let ts = ucast (strtoul (p ! 1)); v = strtoul (p ! 3); name = p ! 2
      in if name \<noteq> [] then
           (case find_rate E (k_db K) name of
              (Some r, d) \<Rightarrow>
                if rate_ignore r = 0
                then bind_res (rate_update E ts v r) (\<lambda>(r1, fx).
                       Inr (set_db (d\<lparr>rates := fmupd name r1 (rates d)\<rparr>) K, fx))
                else Inr (set_db d K, [])
            | (None, d) \<Rightarrow> Inr (set_db d K, []))
         else Inr (K, []))"

definition listen_event :: "pdu \<Rightarrow> kernel_t \<Rightarrow> (kernel_t \<times> effect list) res" where
  "listen_event p K =
     (let ev = \<lparr>event_timestamp = word_of_int (strtol (p ! 1)), event_name = p ! 2, event_extra = p ! 3\<rparr>;
          cfg = s_config (k_server K)
      in bind_res (buffer_event (k_db K) ev (c_events_max cfg) (c_events_keep cfg)) (\<lambda>d.
           Inr (set_db d K, [broadcast_event ev])))"

definition listen_set_keys :: "pdu \<Rightarrow> kernel_t \<Rightarrow> kernel_t \<times> effect list" where
  "listen_set_keys p K = (set_keys (put_keys (tl p) (s_keys (k_server K))) K, [])"

definition listener :: "env \<Rightarrow> pdu \<Rightarrow> kernel_t \<Rightarrow> (kernel_t \<times> effect list) res" where
  "listener E p K =
     (if pdu_is p ''STATE'' 5 5 then listen_state E p K
      else if pdu_is p ''COUNTER'' 4 4 then listen_counter E p K
      else if pdu_is p ''SAMPLE'' 4 0 then listen_sample E p K
      else if pdu_is p ''RATE'' 4 4 then listen_rate E p K
      else if pdu_is p ''EVENT'' 4 4 then listen_event p K
      else if pdu_is p ''SET.KEYS'' 3 0 \<and> (length p - 1) mod 2 = 0 then Inr (listen_set_keys p K)
      else Inr (K, []))"

section \<open>The reactor\<close>

datatype socket = S_control | S_tock | S_management | S_listener | S_other

datatype verdict = HALT | CONTINUE

definition kernel_reactor :: "env \<Rightarrow> socket \<Rightarrow> pdu \<Rightarrow> kernel_t \<Rightarrow> (verdict \<times> kernel_t \<times> effect list) res" where
  "kernel_reactor E sock p K =
     (case sock of
        S_control \<Rightarrow> Inr (HALT, K, [])
      | S_tock \<Rightarrow> bind_res (tock E K) (\<lambda>(K, fx). Inr (CONTINUE, K, fx))
      | S_management \<Rightarrow> bind_res (management E p K) (\<lambda>(K, fx). Inr (CONTINUE, K, fx))
      | S_listener \<Rightarrow> bind_res (listener E p K) (\<lambda>(K, fx). Inr (CONTINUE, K, fx))
      | S_other \<Rightarrow> Inr (HALT, K, []))"

text \<open>
  The kernel thread: the reactor feeds it one message at a time, in the
  environment of that moment, until a handler halts it.
\<close>

fun kernel_thread :: "(env \<times> socket \<times> pdu) list \<Rightarrow> kernel_t \<Rightarrow> (verdict \<times> kernel_t \<times> effect list) res" where
  "kernel_thread [] K = Inr (CONTINUE, K, [])"
| "kernel_thread ((E, sock, p) # ms) K =
     bind_res (kernel_reactor E sock p K) (\<lambda>(v, K, fx).
       if v = HALT then Inr (HALT, K, fx)
       else bind_res (kernel_thread ms K) (\<lambda>(v, K, gx). Inr (v, K, fx @ gx)))"

section \<open>Starting the threads\<close>

definition core_connect_scheduler :: "env \<Rightarrow> int" where
  "core_connect_scheduler E =
     (let ep = ''inproc://bolo/v1/scheduler.tick'' in
      if \<not> sys_ok E Sys_socket ep then - 1
      else if sys_rc E Sys_connect ep \<noteq> 0 then sys_rc E Sys_connect ep
      else if sys_rc E Sys_setsockopt ep \<noteq> 0 then sys_rc E Sys_setsockopt ep
      else 0)"

definition core_connect_supervisor :: "env \<Rightarrow> int" where
  "core_connect_supervisor E =
     (let ep = ''inproc://bolo/v1/supervisor.command'' in
      if \<not> sys_ok E Sys_socket ep then - 1
      else if sys_rc E Sys_connect ep \<noteq> 0 then sys_rc E Sys_connect ep
      else if sys_rc E Sys_setsockopt ep \<noteq> 0 then sys_rc E Sys_setsockopt ep
      else 0)"

text \<open>
  The scheduler thread: each turn of its loop polls the control socket. A
  timeout sends a tick, an error or a \<open>TERMINATE\<close> ends the thread, any other PDU
  is dropped. The result tells whether the thread has ended and how many ticks
  it sent.
\<close>

datatype poll = Poll_error | Poll_timeout | Poll_pdu pdu

fun scheduler_thread :: "poll list \<Rightarrow> bool \<times> nat" where
  "scheduler_thread [] = (False, 0)"
| "scheduler_thread (Poll_error # ps) = (True, 0)"
| "scheduler_thread (Poll_timeout # ps) = (let (e, n) = scheduler_thread ps in (e, Suc n))"
| "scheduler_thread (Poll_pdu p # ps) = (if hd p = ''TERMINATE'' then (True, 0) else scheduler_thread ps)"

definition core_scheduler_thread :: "env \<Rightarrow> int" where
  "core_scheduler_thread E =
     (let rc = core_connect_supervisor E; ep = ''inproc://bolo/v1/scheduler.tick'' in
      if rc \<noteq> 0 then rc
      else if \<not> sys_ok E Sys_socket ep then - 1
      else if sys_rc E Sys_bind ep \<noteq> 0 then sys_rc E Sys_bind ep
      else if sys_rc E Sys_thread ''scheduler'' \<noteq> 0 then sys_rc E Sys_thread ''scheduler''
      else 0)"

text \<open>Binding one of the kernel's sockets, when the configuration names an endpoint.\<close>

definition bind_socket :: "env \<Rightarrow> string option \<Rightarrow> int \<times> bool" where
  "bind_socket E ep =
     (case ep of
        None \<Rightarrow> (0, False)
      | Some e \<Rightarrow>
          if \<not> sys_ok E Sys_socket e then (- 1, False)
          else if sys_rc E Sys_bind e \<noteq> 0 then (sys_rc E Sys_bind e, True)
          else (0, True))"

definition boot_db :: "env \<Rightarrow> server_t \<Rightarrow> server_t res" where
  "boot_db E S =
     bind_res (case c_savefile (s_config S) of
        None \<Rightarrow> Inr (s_db S)
      | Some file \<Rightarrow> bind_res (binf_read E (s_db S) file (c_save_size (s_config S))) (\<lambda>(rc, d). Inr d)) (\<lambda>d.
     bind_res (case c_keysfile (s_config S) of
        None \<Rightarrow> Inr (s_keys S)
      | Some file \<Rightarrow> bind_res (read_keys E (s_keys S) file) (\<lambda>(rc, m). Inr m)) (\<lambda>m.
     Inr (S\<lparr>s_db := d, s_keys := m\<rparr>)))"

definition blank_kernel :: "server_t \<Rightarrow> kernel_t" where
  "blank_kernel S =
     (let t = \<lparr>timer_last = 0, timer_interval = 0\<rparr>
      in \<lparr>k_listener = False, k_broadcast = False, k_management = False, k_beacon = False, k_server = S,
          k_freshness = t, k_savestate = t\<lparr>timer_interval := i_savestate (s_interval S)\<rparr>, k_tick = t,
          k_sweep = t\<lparr>timer_interval := i_sweep (s_interval S)\<rparr>\<rparr>)"

definition reactor_setup :: "env \<Rightarrow> kernel_t \<Rightarrow> int" where
  "reactor_setup E K =
     (if \<not> sys_ok E Sys_reactor_new [] then - 1
      else if sys_rc E Sys_reactor_set ''control'' \<noteq> 0 then sys_rc E Sys_reactor_set ''control''
      else if sys_rc E Sys_reactor_set ''tock'' \<noteq> 0 then sys_rc E Sys_reactor_set ''tock''
      else if k_listener K \<and> sys_rc E Sys_reactor_set ''listener'' \<noteq> 0 then sys_rc E Sys_reactor_set ''listener''
      else if k_management K \<and> sys_rc E Sys_reactor_set ''management'' \<noteq> 0
        then sys_rc E Sys_reactor_set ''management''
      else if sys_rc E Sys_thread ''kernel'' \<noteq> 0 then sys_rc E Sys_thread ''kernel''
      else 0)"

definition core_kernel_thread :: "env \<Rightarrow> server_t \<Rightarrow> (int \<times> kernel_t) res" where
  "core_kernel_thread E S =
     bind_res (boot_db E S) (\<lambda>S'.
     let K = (blank_kernel S)\<lparr>k_server := S'\<rparr>; cfg = s_config S; rc = core_connect_supervisor E in
     if rc \<noteq> 0 then Inr (rc, K)
     else let rc = core_connect_scheduler E in
     if rc \<noteq> 0 then Inr (rc, K)
     else let (rc, b) = bind_socket E (c_listener cfg); K = K\<lparr>k_listener := b\<rparr> in
     if rc \<noteq> 0 then Inr (rc, K)
     else let (rc, b) = bind_socket E (c_broadcast cfg); K = K\<lparr>k_broadcast := b\<rparr> in
     if rc \<noteq> 0 then Inr (rc, K)
     else let (rc, b) = bind_socket E (c_beacon cfg); K = K\<lparr>k_beacon := b\<rparr> in
     if rc \<noteq> 0 then Inr (rc, K)
     else let (rc, b) = bind_socket E (c_controller cfg); K = K\<lparr>k_management := b\<rparr> in
     if rc \<noteq> 0 then Inr (rc, K)
     else Inr (reactor_setup E K, K))"

text \<open>
  The supervisor waits for signals: a failed wait counts as \<open>SIGTERM\<close>. It ends
  with a \<open>TERMINATE\<close> on its command socket.
\<close>

datatype signal = SIGTERM | SIGINT | SIGOTHER

fun supervisor_loop :: "(int \<times> signal) list \<Rightarrow> pdu option" where
  "supervisor_loop [] = None"
| "supervisor_loop ((rc, sig) # ss) =
     (let sig = (if rc \<noteq> 0 then SIGTERM else sig)
      in if sig = SIGTERM \<or> sig = SIGINT then Some [''TERMINATE''] else supervisor_loop ss)"

definition core_supervisor :: "env \<Rightarrow> (int \<times> signal) list \<Rightarrow> int \<times> pdu option" where
  "core_supervisor E ss =
     (let ep = ''inproc://bolo/v1/supervisor.command'' in
      if \<not> sys_ok E Sys_socket ep then (- 1, None)
      else if sys_rc E Sys_bind ep \<noteq> 0 then (sys_rc E Sys_bind ep, None)
      else (0, supervisor_loop ss))"

end
