(* ===== verification/Bolo_Kernel_Inv.thy ===== *)
theory Bolo_Kernel_Inv
  imports Bolo_Kernel
begin

text \<open>
  What holds of the kernel (\<open>Bolo_Kernel\<close>): the invariant of the database, that
  every handler and the restart keep it and which faults remain, what a message
  may change, and the behaviour of submissions, ticks, \<open>FORGET\<close> and the key
  requests as whole messages.
\<close>

section \<open>The invariant of the database\<close>

text \<open>
  What the configuration promises and every handler keeps: entries are listed
  under their own names, windows have a positive length, and types have a
  summary; the same for the entries a matching rule would make.
\<close>

definition state_ok :: "string \<Rightarrow> state_t \<Rightarrow> bool" where
  "state_ok k s \<longleftrightarrow> state_name s = k \<and> has_summary k s"

definition counter_ok :: "string \<Rightarrow> counter_t \<Rightarrow> bool" where
  "counter_ok k c \<longleftrightarrow> counter_name c = k \<and> good_window (counter_window c)"

definition sample_entry_ok :: "string \<Rightarrow> sample_t \<Rightarrow> bool" where
  "sample_entry_ok k s \<longleftrightarrow> sample_name s = k \<and> good_window (sample_window s)"

definition rate_ok :: "string \<Rightarrow> rate_t \<Rightarrow> bool" where
  "rate_ok k r \<longleftrightarrow> rate_name r = k \<and> good_window (rate_window r)"

definition rules_ok :: "db_t \<Rightarrow> bool" where
  "rules_ok d \<longleftrightarrow> list_all (\<lambda>r. type_summary (re_state_type r) \<noteq> None) (state_matches d) \<and>
     list_all (\<lambda>r. good_window (re_window r)) (counter_matches d) \<and>
     list_all (\<lambda>r. good_window (re_window r)) (sample_matches d) \<and>
     list_all (\<lambda>r. good_window (re_window r)) (rate_matches d)"

definition wf_db :: "db_t \<Rightarrow> bool" where
  "wf_db d \<longleftrightarrow> fmpred state_ok (states d) \<and> fmpred counter_ok (counters d) \<and>
     fmpred sample_entry_ok (samples d) \<and> fmpred rate_ok (rates d) \<and> rules_ok d"

lemma wf_dbD:
  assumes "wf_db d"
  shows "fmlookup (states d) k = Some s \<Longrightarrow> state_ok k s"
    and "fmlookup (counters d) k = Some c \<Longrightarrow> counter_ok k c"
    and "fmlookup (samples d) k = Some m \<Longrightarrow> sample_entry_ok k m"
    and "fmlookup (rates d) k = Some r \<Longrightarrow> rate_ok k r"
  using assms by (auto simp: wf_db_def dest: fmpredD)

lemma wf_db_update:
  assumes "wf_db d"
  shows "fmpred state_ok t \<Longrightarrow> wf_db (d\<lparr>states := t\<rparr>)"
    and "fmpred counter_ok u \<Longrightarrow> wf_db (d\<lparr>counters := u\<rparr>)"
    and "fmpred sample_entry_ok v \<Longrightarrow> wf_db (d\<lparr>samples := v\<rparr>)"
    and "fmpred rate_ok w \<Longrightarrow> wf_db (d\<lparr>rates := w\<rparr>)"
    and "wf_db (d\<lparr>events := es, events_count := n\<rparr>)"
  using assms by (auto simp: wf_db_def rules_ok_def)

lemma wf_db_entry:
  assumes "wf_db d"
  shows "state_ok k s \<Longrightarrow> wf_db (d\<lparr>states := fmupd k s (states d)\<rparr>)"
    and "counter_ok k c \<Longrightarrow> wf_db (d\<lparr>counters := fmupd k c (counters d)\<rparr>)"
    and "sample_entry_ok k m \<Longrightarrow> wf_db (d\<lparr>samples := fmupd k m (samples d)\<rparr>)"
    and "rate_ok k r \<Longrightarrow> wf_db (d\<lparr>rates := fmupd k r (rates d)\<rparr>)"
  using assms by (auto simp: wf_db_def rules_ok_def)

lemma find_wf:
  assumes "wf_db d"
  shows "find_state E d n = (r1, d') \<Longrightarrow> wf_db d' \<and> (\<forall>x. r1 = Some x \<longrightarrow> state_ok n x)"
    and "find_counter E d n = (r2, d') \<Longrightarrow> wf_db d' \<and> (\<forall>x. r2 = Some x \<longrightarrow> counter_ok n x)"
    and "find_sample E d n = (r3, d') \<Longrightarrow> wf_db d' \<and> (\<forall>x. r3 = Some x \<longrightarrow> sample_entry_ok n x)"
    and "find_rate E d n = (r4, d') \<Longrightarrow> wf_db d' \<and> (\<forall>x. r4 = Some x \<longrightarrow> rate_ok n x)"
proof -
  have r: "rules_ok d" using assms by (simp add: wf_db_def)
  show "find_state E d n = (r1, d') \<Longrightarrow> wf_db d' \<and> (\<forall>x. r1 = Some x \<longrightarrow> state_ok n x)"
    by (cases rule: state_rules.lookup_cases [of d n E])
      (use assms r in \<open>auto simp: state_ok_def has_summary_def new_state_def rules_ok_def list_all_iff
        dest: wf_dbD intro!: wf_db_entry\<close>)
  show "find_counter E d n = (r2, d') \<Longrightarrow> wf_db d' \<and> (\<forall>x. r2 = Some x \<longrightarrow> counter_ok n x)"
    by (cases rule: counter_rules.lookup_cases [of d n E])
      (use assms r in \<open>auto simp: counter_ok_def new_counter_def rules_ok_def list_all_iff
        dest: wf_dbD intro!: wf_db_entry\<close>)
  show "find_sample E d n = (r3, d') \<Longrightarrow> wf_db d' \<and> (\<forall>x. r3 = Some x \<longrightarrow> sample_entry_ok n x)"
    by (cases rule: sample_rules.lookup_cases [of d n E])
      (use assms r in \<open>auto simp: sample_entry_ok_def new_sample_def rules_ok_def list_all_iff
        dest: wf_dbD intro!: wf_db_entry\<close>)
  show "find_rate E d n = (r4, d') \<Longrightarrow> wf_db d' \<and> (\<forall>x. r4 = Some x \<longrightarrow> rate_ok n x)"
    by (cases rule: rate_rules.lookup_cases [of d n E])
      (use assms r in \<open>auto simp: rate_ok_def new_rate_def rules_ok_def list_all_iff
        dest: wf_dbD intro!: wf_db_entry\<close>)
qed

section \<open>Walks keep the invariant\<close>

interpretation walk_states: walk_body state_ok freshen
proof
  fix k s now
  assume ok: "state_ok k s"
  then have "freshen now k s = Inr (if overdue now s then (gone_stale now s, stale_news now s) else (s, []))"
    by (intro freshen_eq) (simp add: state_ok_def)
  moreover have "state_ok k (gone_stale now s)"
    using ok by (simp add: state_ok_def has_summary_def gone_stale_def)
  ultimately show "\<exists>s' fx. freshen now k s = Inr (s', fx) \<and> state_ok k s'"
    using ok by auto
qed

interpretation walk_counters: walk_body counter_ok tick_counter
proof
  fix k c ts
  assume "counter_ok k c"
  then show "\<exists>c' fx. tick_counter ts k c = Inr (c', fx) \<and> counter_ok k c'"
    by (intro win_counter.tick_keeps) (auto simp: counter_ok_def counter_reset_def)
qed

interpretation walk_samples: walk_body sample_entry_ok "\<lambda>(E, ts). tick_sample E ts"
proof
  fix k s and e :: "env \<times> 32 word"
  assume "sample_entry_ok k s"
  then show "\<exists>s' fx. (case e of (E, ts) \<Rightarrow> tick_sample E ts) k s = Inr (s', fx) \<and> sample_entry_ok k s'"
    unfolding case_prod_unfold
    by (intro win_sample.tick_keeps) (auto simp: sample_entry_ok_def sample_reset_def)
qed

interpretation walk_rates: walk_body rate_ok "\<lambda>(E, ts). tick_rate E ts"
proof
  fix k r and e :: "env \<times> 32 word"
  assume "rate_ok k r"
  then show "\<exists>r' fx. (case e of (E, ts) \<Rightarrow> tick_rate E ts) k r = Inr (r', fx) \<and> rate_ok k r'"
    unfolding case_prod_unfold
    by (intro win_rate.tick_keeps) (auto simp: rate_ok_def rate_reset_def)
qed

lemma check_freshness_wf:
  assumes "wf_db d"
  shows "\<exists>d' fx. check_freshness E d = Inr (d', fx) \<and> wf_db d'"
proof -
  obtain t fx where "for_each (freshen (time_s E)) (hash_order E H_states (fmdom (states d))) (states d) = Inr (t, fx)"
    "\<forall>k v. fmlookup t k = Some v \<longrightarrow> state_ok k v"
    using walk_states.for_each_safe [of "states d" "time_s E"] wf_dbD(1) [OF assms] by blast
  with assms show ?thesis by (auto simp: check_freshness_def fmpred_iff intro!: wf_db_update)
qed

lemma tick_windows_wf:
  assumes "wf_db d"
  shows "\<exists>d' fx. tick_windows E ts d = Inr (d', fx) \<and> wf_db d'"
proof -
  obtain tc fc where c: "for_each (tick_counter ts) (hash_order E H_counters (fmdom (counters d))) (counters d) = Inr (tc, fc)"
    "\<forall>k v. fmlookup tc k = Some v \<longrightarrow> counter_ok k v"
    using walk_counters.for_each_safe [of "counters d" ts] wf_dbD(2) [OF assms] by blast
  obtain tm fm where m: "for_each (tick_sample E ts) (hash_order E H_samples (fmdom (samples d))) (samples d) = Inr (tm, fm)"
    "\<forall>k v. fmlookup tm k = Some v \<longrightarrow> sample_entry_ok k v"
    using walk_samples.for_each_safe [of "samples d" "(E, ts)"] wf_dbD(3) [OF assms] unfolding prod.case by blast
  obtain tr fr where r: "for_each (tick_rate E ts) (hash_order E H_rates (fmdom (rates d))) (rates d) = Inr (tr, fr)"
    "\<forall>k v. fmlookup tr k = Some v \<longrightarrow> rate_ok k v"
    using walk_rates.for_each_safe [of "rates d" "(E, ts)"] wf_dbD(4) [OF assms] unfolding prod.case by blast
  have "wf_db (d\<lparr>counters := tc, samples := tm, rates := tr\<rparr>)"
    using c(2) m(2) r(2) assms by (auto simp: fmpred_iff intro!: wf_db_update)
  with c m r show ?thesis by (simp add: tick_windows_def)
qed

section \<open>Every handler keeps the invariant\<close>

lemma k_db_set [simp]: "k_db (set_db d K) = d" "k_db (set_keys m K) = k_db K"
  "k_server (set_db d K) = k_server K\<lparr>s_db := d\<rparr>" "s_keys (k_server (set_keys m K)) = m"
  by (simp_all add: set_db_def set_keys_def)

lemma listen_state_wf:
  assumes "wf_db (k_db K)"
  shows "\<exists>K' fx. listen_state E p K = Inr (K', fx) \<and> wf_db (k_db K')"
proof -
  obtain r d where f: "find_state E (k_db K) (p ! 2) = (r, d)" by fastforce
  note w = find_wf(1) [OF assms f]
  have "state_ok n (fst (state_update ts code msg s))" if "state_ok n s" for n s ts code msg
    using that by (simp add: state_ok_def has_summary_def state_update_def Let_def)
  with w f assms show ?thesis
    by (cases r) (auto simp: listen_state_def Let_def case_prod_unfold intro!: wf_db_entry)
qed

lemma listen_counter_wf:
  assumes "wf_db (k_db K)"
  shows "\<exists>K' fx. listen_counter E p K = Inr (K', fx) \<and> wf_db (k_db K')"
proof -
  obtain r d where f: "find_counter E (k_db K) (p ! 2) = (r, d)" by fastforce
  note w = find_wf(2) [OF assms f]
  have u: "\<exists>c' fx. counter_update ts x c = Inr (c', fx) \<and> counter_ok n c'" if "counter_ok n c" for n c ts x
    using that by (intro win_counter.submit_keeps) (auto simp: counter_ok_def counter_reset_def)
  show ?thesis
  proof (cases r)
    case (Some c)
    with w u [of "p ! 2" c "ucast (strtoul (p ! 1))" "word_of_int (strtol (p ! 3))"] f assms show ?thesis
      by (auto simp: listen_counter_def Let_def intro!: wf_db_entry)
  qed (use w f assms in \<open>auto simp: listen_counter_def Let_def\<close>)
qed

lemma listen_sample_wf:
  assumes "wf_db (k_db K)"
  shows "\<exists>K' fx. listen_sample E p K = Inr (K', fx) \<and> wf_db (k_db K')"
proof -
  obtain r d where f: "find_sample E (k_db K) (p ! 2) = (r, d)" by fastforce
  note w = find_wf(3) [OF assms f]
  have u: "\<exists>c' fx. sample_update E ts x c = Inr (c', fx) \<and> sample_entry_ok n c'" if "sample_entry_ok n c" for n c ts x
    using that
    by (intro win_sample.submit_keeps) (auto simp: sample_entry_ok_def sample_reset_def sample_submit_fields)
  show ?thesis
  proof (cases r)
    case (Some s)
    with w u [of "p ! 2" s "ucast (strtoul (p ! 1))" "map (strtod E) (drop 3 p)"] f assms show ?thesis
      by (auto simp: listen_sample_def Let_def intro!: wf_db_entry)
  qed (use w f assms in \<open>auto simp: listen_sample_def Let_def\<close>)
qed

lemma listen_rate_wf:
  assumes "wf_db (k_db K)"
  shows "\<exists>K' fx. listen_rate E p K = Inr (K', fx) \<and> wf_db (k_db K')"
proof -
  obtain r d where f: "find_rate E (k_db K) (p ! 2) = (r, d)" by fastforce
  note w = find_wf(4) [OF assms f]
  have u: "\<exists>c' fx. rate_update E ts x c = Inr (c', fx) \<and> rate_ok n c'" if "rate_ok n c" for n c ts x
    using that
    by (intro win_rate.submit_keeps) (auto simp: rate_ok_def rate_reset_def rate_data_def Let_def)
  show ?thesis
  proof (cases r)
    case (Some s)
    with w u [of "p ! 2" s "ucast (strtoul (p ! 1))" "strtoul (p ! 3)"] f assms show ?thesis
      by (auto simp: listen_rate_def Let_def intro!: wf_db_entry)
  qed (use w f assms in \<open>auto simp: listen_rate_def Let_def\<close>)
qed

lemma drop_events_fault:
  "drop_number mx es n = Inl f \<Longrightarrow> f = OutOfBounds" "drop_time t es n = Inl f \<Longrightarrow> f = OutOfBounds"
proof -
  show "drop_number mx es n = Inl f \<Longrightarrow> f = OutOfBounds"
    by (induction es arbitrary: n) (auto split: if_splits)
  show "drop_time t es n = Inl f \<Longrightarrow> f = OutOfBounds"
    by (induction es arbitrary: n) (auto split: if_splits)
qed

lemma listen_event_wf:
  assumes "wf_db (k_db K)"
  shows "case listen_event p K of Inr (K', fx) \<Rightarrow> wf_db (k_db K') | Inl f \<Rightarrow> f = OutOfBounds"
  using assms
  by (auto simp: listen_event_def buffer_event_def Let_def dest!: drop_events_fault intro!: wf_db_update
    split: bind_res_split sum.split)

lemma listener_wf:
  assumes "wf_db (k_db K)"
  shows "case listener E p K of Inr (K', fx) \<Rightarrow> wf_db (k_db K')
    | Inl f \<Rightarrow> f = OutOfBounds \<and> pdu_is p ''EVENT'' 4 4"
proof -
  obtain K1 f1 where 1: "listen_state E p K = Inr (K1, f1)" "wf_db (k_db K1)"
    using listen_state_wf [OF assms] by blast
  obtain K2 f2 where 2: "listen_counter E p K = Inr (K2, f2)" "wf_db (k_db K2)"
    using listen_counter_wf [OF assms] by blast
  obtain K3 f3 where 3: "listen_sample E p K = Inr (K3, f3)" "wf_db (k_db K3)"
    using listen_sample_wf [OF assms] by blast
  obtain K4 f4 where 4: "listen_rate E p K = Inr (K4, f4)" "wf_db (k_db K4)"
    using listen_rate_wf [OF assms] by blast
  show ?thesis
    using 1 2 3 4 listen_event_wf [OF assms, of p] assms
    by (cases "pdu_is p ''EVENT'' 4 4") (auto simp: listener_def listen_set_keys_def split: sum.splits)
qed

lemma htonl_double_fault: "htonl_double E x = Inl f \<Longrightarrow> f = BadConversion"
  by (auto simp: htonl_double_def double_u32_def bind_res_Inl_iff split: if_splits)

lemma record_body_fault: "record_body E p = Inl f \<Longrightarrow> f = BadConversion"
  by (cases p) (auto simp: bind_res_Inl_iff dest: htonl_double_fault)

lemma put_bytes_fault: "put_bytes cap mem bs = Inl f \<Longrightarrow> f = OutOfBounds"
  by (auto simp: put_bytes_def split: if_splits)

lemma write_records_fault: "write_records E cap mem ps = Inl f \<Longrightarrow> f = OutOfBounds \<or> f = BadConversion"
  by (induction ps arbitrary: mem)
    (auto simp: s_write_record_def bind_res_Inl_iff dest: put_bytes_fault record_body_fault)

lemma binf_write_faults: "binf_write E d file sz = Inl f \<Longrightarrow> f = OutOfBounds \<or> f = BadConversion"
  by (auto simp: binf_write_def Let_def bind_res_Inl_iff dest: put_bytes_fault write_records_fault
    split: if_splits)

lemma write_db_faults: "write_db E S = Inl f \<Longrightarrow> f = OutOfBounds \<or> f = BadConversion"
  by (auto simp: write_db_def bind_res_Inl_iff dest: binf_write_faults split: option.splits)

lemma tock_wf:
  assumes "wf_db (k_db K)"
  shows "case tock E K of Inr (K', fx) \<Rightarrow> wf_db (k_db K') | Inl f \<Rightarrow> f = OutOfBounds \<or> f = BadConversion"
proof -
  obtain d fx where t: "tick_windows E (time_s E - c_grace_period (s_config (k_server K))) (k_db K) = Inr (d, fx)" "wf_db d"
    using tick_windows_wf [OF assms] by blast
  obtain K1 f1 where 1: "tick_step E K = Inr (K1, f1)" "wf_db (k_db K1)"
    using t assms by (cases "due (k_tick K) (time_s E)") (auto simp: tick_step_def)
  obtain K2 f2 where 2: "sweep_step E K1 = (K2, f2)" "wf_db (k_db K2)"
    using 1(2) by (cases "k_beacon K1 \<and> due (k_sweep K1) (time_s E)") (auto simp: sweep_step_def)
  obtain K3 f3 where 3: "freshness_step E K2 = Inr (K3, f3)" "wf_db (k_db K3)"
    using check_freshness_wf [OF 2(2), of E] 2(2)
    by (cases "due (k_freshness K2) (time_s E)") (auto simp: freshness_step_def)
  show ?thesis
    using 1 2 3 by (auto simp: tock_def savestate_step_def dest: write_db_faults split: bind_res_split sum.split)
qed

lemma forget_table_keeps:
  assumes "fmpred P m" and "\<And>k v. P k v \<Longrightarrow> P k (mark v)"
  shows "fmpred P (forget_table E h pattern ign mark m)"
proof -
  have "fmpred P (foldl (\<lambda>m k. case fmlookup m k of None \<Rightarrow> m
      | Some v \<Rightarrow> if pcre_exec E pattern k = 0 then fmupd k (mark v) m else m) m ks)" for ks
    using assms(1)
  proof (induction ks arbitrary: m)
    case (Cons k ks)
    have "fmpred P (case fmlookup m k of None \<Rightarrow> m
        | Some v \<Rightarrow> if pcre_exec E pattern k = 0 then fmupd k (mark v) m else m)"
      using Cons.prems assms(2) by (auto dest: fmpredD split: option.split)
    from Cons.IH [OF this] show ?case by simp
  qed simp
  moreover have "fmpred P (foldl (\<lambda>m k. if pcre_exec E pattern k = 0 then fmdrop k m else m) m ks)" for ks
    using assms(1)
  proof (induction ks arbitrary: m)
    case (Cons k ks)
    have "fmpred P (if pcre_exec E pattern k = 0 then fmdrop k m else m)"
      using Cons.prems by (auto intro: fmpred_drop)
    from Cons.IH [OF this] show ?case by simp
  qed simp
  ultimately show ?thesis by (simp add: forget_table_def Let_def)
qed

lemma forget_wf: "wf_db d \<Longrightarrow> wf_db (forget E payload pattern ign d)"
  by (auto simp: wf_db_def rules_ok_def forget_def Let_def state_ok_def has_summary_def counter_ok_def
    sample_entry_ok_def rate_ok_def intro!: forget_table_keeps)

lemma management_wf:
  assumes "wf_db (k_db K)"
  shows "case management E p K of Inr (K', fx) \<Rightarrow> wf_db (k_db K') | Inl f \<Rightarrow> f = OutOfBounds \<or> f = BadConversion"
proof -
  have "wf_db (k_db (fst (mgmt_forget E p K)))"
    using forget_wf [OF assms] assms by (auto simp: mgmt_forget_def Let_def split: option.split)
  moreover have "fst (mgmt_state p K) = K" "k_db (fst (mgmt_del_keys p K)) = k_db K" "fst (mgmt_search_keys E p K) = K"
    by (auto simp: mgmt_state_def mgmt_del_keys_def mgmt_search_keys_def Let_def split: option.split)
  moreover have "case mgmt_dump E K of Inr (K', fx) \<Rightarrow> K' = K | Inl f \<Rightarrow> f = OutOfBounds"
    "case mgmt_get_events E p K of Inr (K', fx) \<Rightarrow> K' = K | Inl f \<Rightarrow> f = OutOfBounds"
    by (auto simp: mgmt_dump_def mgmt_get_events_def mapped_string_def Let_def split: sum.split)
  moreover have "case mgmt_savestate E K of Inr (K', fx) \<Rightarrow> K' = K | Inl f \<Rightarrow> f = OutOfBounds \<or> f = BadConversion"
    by (auto simp: mgmt_savestate_def dest: write_db_faults split: bind_res_split sum.split)
  ultimately show ?thesis
    using assms unfolding management_def
    by (auto simp: mgmt_get_keys_def case_prod_unfold split: sum.splits)
qed

text \<open>Messages handled one after the other; the environment may change in between.\<close>

inductive kernel_steps :: "kernel_t \<Rightarrow> kernel_t \<Rightarrow> bool" where
  start: "kernel_steps K0 K0"
| handle: "kernel_steps K0 K \<Longrightarrow> kernel_reactor E sock p K = Inr (CONTINUE, K', fx) \<Longrightarrow> kernel_steps K0 K'"

inductive_cases kernel_steps_handled: "kernel_steps K0 K"

lemma kernel_reactor_wf:
  assumes "wf_db (k_db K)"
  shows "case kernel_reactor E sock p K of Inr (v, K', fx) \<Rightarrow> wf_db (k_db K')
    | Inl f \<Rightarrow> (f = OutOfBounds \<or> f = BadConversion) \<and> (sock = S_listener \<longrightarrow> pdu_is p ''EVENT'' 4 4)"
  using tock_wf [OF assms, where E = E] management_wf [OF assms, where E = E and p = p] listener_wf [OF assms, where E = E and p = p] assms
  by (cases sock) (auto simp: kernel_reactor_def split: sum.splits bind_res_split)

lemma kernel_steps_wf: "kernel_steps K0 K \<Longrightarrow> wf_db (k_db K0) \<Longrightarrow> wf_db (k_db K)"
proof (induction rule: kernel_steps.induct)
  case (handle K0 K E sock p K' fx)
  then show ?case using kernel_reactor_wf [where E = E and sock = sock and p = p, of K] by simp
qed

text \<open>
  C8: in every state the kernel can reach from a well-formed database, the
  database is well-formed again; no message makes it divide by zero or follow a
  null pointer, and no submission other than an event makes it fault at all. The
  faults that remain are those of writing the save file, of the replies that
  are read from a mapping, and of the event buffer.
\<close>

theorem kernel_invariant:
  assumes "kernel_steps K0 K" and "wf_db (k_db K0)"
  shows "wf_db (k_db K) \<and> kernel_reactor E sock p K \<notin> {Inl DivByZero, Inl NullDeref} \<and>
    (\<forall>f. kernel_reactor E S_listener p K = Inl f \<longrightarrow> f = OutOfBounds \<and> hd p = ''EVENT'')"
proof -
  have w: "wf_db (k_db K)" by (rule kernel_steps_wf [OF assms])
  show ?thesis
    using w kernel_reactor_wf [OF w, where E = E and sock = sock and p = p] listener_wf [OF w, where E = E and p = p]
    by (auto simp: kernel_reactor_def pdu_is_def bind_res_Inl_iff split: sum.splits socket.splits if_splits)
qed

section \<open>Submissions\<close>

lemma strtoul_dec32: "n < 2 ^ 32 \<Longrightarrow> ucast (strtoul (dec n)) = (of_nat n :: 32 word)"
  by (simp add: ucast_narrow)

lemma known_state_submission:
  assumes "fmlookup (states (k_db K)) name = Some s" and "state_ignore s = 0"
    and "name \<noteq> []" and "msg \<noteq> []" and "t < 2 ^ 32" and "code < 256"
    and "s' = s\<lparr>state_status := of_nat code, state_summary := msg, state_last_seen := of_nat t,
       state_expiry := of_nat t + ucast (freshness (state_type s)), state_stale := 0\<rparr>"
  shows "kernel_reactor E S_listener [''STATE'', dec t, name, dec code, msg] K =
    Inr (CONTINUE, set_db ((k_db K)\<lparr>states := fmupd name s' (states (k_db K))\<rparr>) K,
      (if state_stale s \<noteq> 0 \<or> state_status s \<noteq> of_nat code then [broadcast_transition s'] else []) @
      [broadcast_state s'])"
proof -
  have "ucast (atoi (dec code)) = (of_nat code :: 8 word)"
  proof -
    have "strtol (dec code) = int code"
      using strtol_show_int [of "int code"] assms(6) by (simp add: show_int_def)
    then show ?thesis by (simp add: atoi_def ucast_narrow)
  qed
  with assms strtoul_dec32 [OF assms(5)] show ?thesis
    by (simp add: kernel_reactor_def listener_def pdu_is_def listen_state_def find_state_def
      state_update_def Let_def)
qed

text \<open>
  C9: a submission for a known state that is not ignored stores status,
  summary and time, makes the state fresh again until the freshness of its type
  has passed, changes nothing else in the kernel, and announces a \<open>TRANSITION\<close>
  exactly when the state was stale or its status differs, followed by the \<open>STATE\<close>.
\<close>

theorem state_submission:
  assumes "fmlookup (states (k_db K)) name = Some s" and "state_ignore s = 0"
    and "name \<noteq> []" and "msg \<noteq> []" and "t < 2 ^ 32" and "code < 256"
    and "s' = s\<lparr>state_status := of_nat code, state_summary := msg, state_last_seen := of_nat t,
       state_expiry := of_nat t + ucast (freshness (state_type s)), state_stale := 0\<rparr>"
  shows "kernel_reactor E S_listener [''STATE'', dec t, name, dec code, msg] K =
    Inr (CONTINUE, set_db ((k_db K)\<lparr>states := fmupd name s' (states (k_db K))\<rparr>) K,
      (if state_stale s \<noteq> 0 \<or> state_status s \<noteq> of_nat code then [broadcast_transition s'] else []) @
      [broadcast_state s'])"
  using assms by (rule known_state_submission)

definition only_entry :: "string \<Rightarrow> db_t \<Rightarrow> db_t \<Rightarrow> bool" where
  "only_entry n d d' \<longleftrightarrow>
     fmdrop n (states d') = fmdrop n (states d) \<and> fmdrop n (counters d') = fmdrop n (counters d) \<and>
     fmdrop n (samples d') = fmdrop n (samples d) \<and> fmdrop n (rates d') = fmdrop n (rates d) \<and>
     state_matches d' = state_matches d \<and> counter_matches d' = counter_matches d \<and>
     sample_matches d' = sample_matches d \<and> rate_matches d' = rate_matches d \<and>
     types d' = types d \<and> windows d' = windows d"

lemma only_entry_refl [simp]: "only_entry n d d"
  by (simp add: only_entry_def)

lemma only_entry_trans: "only_entry n d d1 \<Longrightarrow> only_entry n d1 d2 \<Longrightarrow> only_entry n d d2"
  by (simp add: only_entry_def)

lemma fmdrop_upd_same [simp]: "fmdrop n (fmupd n v m) = fmdrop n m"
  by (rule fmap_ext) simp

lemma only_entry_upd [simp]:
  "only_entry n d (d\<lparr>states := fmupd n s (states d)\<rparr>)" "only_entry n d (d\<lparr>counters := fmupd n c (counters d)\<rparr>)"
  "only_entry n d (d\<lparr>samples := fmupd n m (samples d)\<rparr>)" "only_entry n d (d\<lparr>rates := fmupd n r (rates d)\<rparr>)"
  "only_entry n d (d\<lparr>events := es, events_count := k\<rparr>)"
  by (simp_all add: only_entry_def)

lemma find_only_entry:
  "find_state E d n = (r1, d') \<Longrightarrow> only_entry n d d'" "find_counter E d n = (r2, d') \<Longrightarrow> only_entry n d d'"
  "find_sample E d n = (r3, d') \<Longrightarrow> only_entry n d d'" "find_rate E d n = (r4, d') \<Longrightarrow> only_entry n d d'"
  by (auto simp: find_state_def find_counter_def find_sample_def find_rate_def Let_def split: option.splits)

definition same_setup :: "kernel_t \<Rightarrow> kernel_t \<Rightarrow> bool" where
  "same_setup K K' \<longleftrightarrow> K' = K\<lparr>k_server := (k_server K)\<lparr>s_db := k_db K', s_keys := s_keys (k_server K')\<rparr>\<rparr>"

lemma same_setup_set [simp]: "same_setup K (set_db d K)" "same_setup K (set_keys m K)" "same_setup K K"
  by (simp_all add: same_setup_def set_db_def set_keys_def)

definition is_broadcast :: "effect \<Rightarrow> bool" where
  "is_broadcast e \<longleftrightarrow> (case e of Broadcast p \<Rightarrow> True | _ \<Rightarrow> False)"

lemma broadcasts [simp]:
  "is_broadcast (broadcast_state s)" "is_broadcast (broadcast_transition s)" "is_broadcast (broadcast_event ev)"
  by (simp_all add: is_broadcast_def broadcast_state_def broadcast_transition_def broadcast_event_def)

lemma metric_broadcasts:
  "broadcast_counter c = Inr e \<Longrightarrow> is_broadcast e" "broadcast_sample E m = Inr e \<Longrightarrow> is_broadcast e"
  "broadcast_rate E r = Inr e \<Longrightarrow> is_broadcast e"
  by (auto simp: is_broadcast_def broadcast_counter_def broadcast_sample_def broadcast_rate_def Let_def
    bind_res_Inr_iff)

lemma update_broadcasts:
  "counter_update ts x c = Inr (c', fx) \<Longrightarrow> list_all is_broadcast fx"
  "sample_update E ts vs m = Inr (m', fx) \<Longrightarrow> list_all is_broadcast fx"
  "rate_update E ts v r = Inr (r', fx) \<Longrightarrow> list_all is_broadcast fx"
  by (auto simp: counter_update_def sample_update_def rate_update_def Let_def bind_res_Inr_iff
    dest: metric_broadcasts split: if_splits)

lemma find_upd_only_entry:
  "find_state E d n = (r1, d') \<Longrightarrow> only_entry n d (d'\<lparr>states := fmupd n s (states d')\<rparr>)"
  "find_counter E d n = (r2, d') \<Longrightarrow> only_entry n d (d'\<lparr>counters := fmupd n c (counters d')\<rparr>)"
  "find_sample E d n = (r3, d') \<Longrightarrow> only_entry n d (d'\<lparr>samples := fmupd n m (samples d')\<rparr>)"
  "find_rate E d n = (r4, d') \<Longrightarrow> only_entry n d (d'\<lparr>rates := fmupd n r (rates d')\<rparr>)"
  by (rule only_entry_trans, erule find_only_entry, simp)+

lemmas entry_steps = find_only_entry find_upd_only_entry

lemma listen_state_frame:
  assumes "listen_state E p K = Inr (K', fx)"
  shows "same_setup K K' \<and> only_entry (p ! 2) (k_db K) (k_db K') \<and> list_all is_broadcast fx"
  using assms
  by (auto simp: listen_state_def state_update_def Let_def dest: entry_steps split: prod.splits option.splits if_splits)

lemma listen_counter_frame:
  assumes "listen_counter E p K = Inr (K', fx)"
  shows "same_setup K K' \<and> only_entry (p ! 2) (k_db K) (k_db K') \<and> list_all is_broadcast fx"
  using assms
  by (auto simp: listen_counter_def Let_def bind_res_Inr_iff dest: update_broadcasts entry_steps
    split: prod.splits option.splits if_splits)

lemma listen_sample_frame:
  assumes "listen_sample E p K = Inr (K', fx)"
  shows "same_setup K K' \<and> only_entry (p ! 2) (k_db K) (k_db K') \<and> list_all is_broadcast fx"
  using assms
  by (auto simp: listen_sample_def Let_def bind_res_Inr_iff dest: update_broadcasts entry_steps
    split: prod.splits option.splits if_splits)

lemma listen_rate_frame:
  assumes "listen_rate E p K = Inr (K', fx)"
  shows "same_setup K K' \<and> only_entry (p ! 2) (k_db K) (k_db K') \<and> list_all is_broadcast fx"
  using assms
  by (auto simp: listen_rate_def Let_def bind_res_Inr_iff dest: update_broadcasts entry_steps
    split: prod.splits option.splits if_splits)

lemma listen_event_frame:
  assumes "listen_event p K = Inr (K', fx)"
  shows "same_setup K K' \<and> only_entry (p ! 2) (k_db K) (k_db K') \<and> list_all is_broadcast fx"
  using assms
  by (auto simp: listen_event_def buffer_event_def Let_def bind_res_Inr_iff split: if_splits)

text \<open>
  Note: a message on the listener socket changes no state, counter, sample or
  rate other than those of the name it carries, nothing of the configuration,
  the matching rules and the timers, and sends nothing but broadcasts.
\<close>

theorem listener_frame:
  assumes "kernel_reactor E S_listener p K = Inr (v, K', fx)"
  shows "same_setup K K' \<and> only_entry (p ! 2) (k_db K) (k_db K') \<and> list_all is_broadcast fx"
  using assms listen_state_frame [of E p K] listen_counter_frame [of E p K] listen_sample_frame [of E p K]
    listen_rate_frame [of E p K] listen_event_frame [of p K]
  by (auto simp: kernel_reactor_def listener_def listen_set_keys_def bind_res_Inr_iff split: if_splits)

text \<open>
  When a tick closes the window of a metric, in whole seconds: the metric is in use, and the end
  of the window its last submission was in lies before \<open>limit\<close>. Times count from 1970 and the
  window ends before 2038.
\<close>

definition dated :: "window_t \<Rightarrow> 32 word \<Rightarrow> bool" where
  "dated w l \<longleftrightarrow> 0 \<le> sint l \<and> (sint l div sint (window_time w) + 1) * sint (window_time w) < 2 ^ 31"

definition window_ended :: "int \<Rightarrow> window_t \<Rightarrow> 32 word \<Rightarrow> byte \<Rightarrow> bool" where
  "window_ended limit w l ign \<longleftrightarrow> ign = 0 \<and> l \<noteq> 0 \<and>
     (sint l div sint (window_time w) + 1) * sint (window_time w) < limit"

definition start_text :: "window_t \<Rightarrow> 32 word \<Rightarrow> string" where
  "start_text w l = dec (nat (sint l div sint (window_time w) * sint (window_time w)))"

definition counter_over :: "int \<Rightarrow> counter_t \<Rightarrow> bool" where
  "counter_over limit c \<longleftrightarrow> window_ended limit (counter_window c) (counter_last_seen c) (counter_ignore c)"

definition sample_over :: "int \<Rightarrow> sample_t \<Rightarrow> bool" where
  "sample_over limit s \<longleftrightarrow> window_ended limit (sample_window s) (sample_last_seen s) (sample_ignore s)"

definition rate_over :: "int \<Rightarrow> rate_t \<Rightarrow> bool" where
  "rate_over limit r \<longleftrightarrow> window_ended limit (rate_window r) (rate_last_seen r) (rate_ignore r)"

definition counter_pdu :: "counter_t \<Rightarrow> pdu" where
  "counter_pdu c = [''COUNTER'', start_text (counter_window c) (counter_last_seen c), counter_name c, dec (unat (counter_value c))]"

definition sample_pdu :: "env \<Rightarrow> sample_t \<Rightarrow> pdu" where
  "sample_pdu E s = [''SAMPLE'', start_text (sample_window s) (sample_last_seen s), sample_name s, dec (unat (sample_n s) mod 2 ^ 32)] @
     map (fmt_e E \<circ> Finite) [sample_min s, sample_max s, sample_sum s, sample_mean s, sample_var s]"

definition rate_pdu :: "env \<Rightarrow> rate_t \<Rightarrow> pdu" where
  "rate_pdu E r = [''RATE'', start_text (rate_window r) (rate_last_seen r), rate_name r,
     show_int (sint (window_time (rate_window r))), fmt_e E (rate_calc r (window_time (rate_window r)))]"

lemma window_over_ended:
  assumes "good_window w" and "dated w l"
  shows "window_over ts w l ign = window_ended (sint ts) w l ign"
proof (cases "l = 0")
  case False
  then have "0 < sint l" using assms(2) by (auto simp: dated_def order_le_less signed_eq_0_iff)
  then show ?thesis using winend_pos [OF assms(1), of l] assms(2) False
    by (auto simp: window_over_def window_ended_def dated_def win_no_def)
qed (simp add: window_over_def window_ended_def)

lemma winstart_text:
  assumes "good_window w" and "dated w l"
  shows "\<exists>t. winstart w l = Inr t \<and> dec (unat t) = start_text w l"
proof -
  have l: "0 \<le> sint l" using assms(2) by (simp add: dated_def)
  have "unat (word_of_int (win_no w l * sint (window_time w)) :: 32 word) = nat (win_no w l * sint (window_time w))"
    using win_no_bounds(1,3) [OF assms(1) l] by (simp add: unat_eq_nat_uint uint_word_of_int del: of_int_mult)
  then have "dec (unat (word_of_int (win_no w l * sint (window_time w)) :: 32 word)) = start_text w l"
    by (simp only: start_text_def win_no_def)
  then show ?thesis using winstart_pos(1) [OF assms(1) l] by blast
qed

lemma broadcast_pdus:
  "good_window (counter_window c) \<Longrightarrow> dated (counter_window c) (counter_last_seen c) \<Longrightarrow>
    broadcast_counter c = Inr (Broadcast (counter_pdu c))"
  "good_window (sample_window s) \<Longrightarrow> dated (sample_window s) (sample_last_seen s) \<Longrightarrow>
    broadcast_sample E s = Inr (Broadcast (sample_pdu E s))"
  "good_window (rate_window r) \<Longrightarrow> dated (rate_window r) (rate_last_seen r) \<Longrightarrow>
    broadcast_rate E r = Inr (Broadcast (rate_pdu E r))"
  using winstart_text [of "counter_window c" "counter_last_seen c"] winstart_text [of "sample_window s" "sample_last_seen s"]
    winstart_text [of "rate_window r" "rate_last_seen r"]
  by (auto simp: broadcast_counter_def counter_pdu_def broadcast_sample_def sample_pdu_def broadcast_rate_def rate_pdu_def
      unsigned_ucast_eq take_bit_nat_def Let_def)

text \<open>
  C12: when the tick is due, every counter, sample and rate whose window ended
  before the time minus the grace period is cleared and any other is left as it is; the output is one
  broadcast for each of the former, with the start of the window and the values it had, and
  nothing else. Nothing else of the kernel changes but the time of the last tick.
\<close>

theorem tick_closes_windows:
  assumes d: "d = k_db K" "wf_db d" and "visits_all E" and due: "due (k_tick K) (time_s E)"
    and grace: "grace = sint (c_grace_period (s_config (k_server K)))" "0 \<le> grace" "grace \<le> sint (time_s E)"
    and limit: "limit = sint (time_s E) - grace"
    and dated: "fmpred (\<lambda>n c. dated (counter_window c) (counter_last_seen c)) (counters d)"
      "fmpred (\<lambda>n s. dated (sample_window s) (sample_last_seen s)) (samples d)"
      "fmpred (\<lambda>n r. dated (rate_window r) (rate_last_seen r)) (rates d)"
  shows "tick_step E K = Inr (set_db (d\<lparr>
      counters := fmmap (\<lambda>c. if counter_over limit c then c\<lparr>counter_last_seen := 0, counter_value := 0\<rparr> else c) (counters d),
      samples := fmmap (\<lambda>s. if sample_over limit s then s\<lparr>sample_last_seen := 0, sample_min := 0, sample_max := 0,
        sample_sum := 0, sample_n := 0, sample_mean := 0, sample_mean' := 0, sample_var := 0, sample_var' := 0\<rparr> else s) (samples d),
      rates := fmmap (\<lambda>r. if rate_over limit r then r\<lparr>rate_first_seen := 0, rate_last_seen := 0, rate_first := 0,
        rate_last := 0\<rparr> else r) (rates d)\<rparr>) (K\<lparr>k_tick := k_tick K\<lparr>timer_last := time_s E\<rparr>\<rparr>),
    map Broadcast (map counter_pdu (filter (counter_over limit) (table_entries E H_counters (counters d))) @
      map (sample_pdu E) (filter (sample_over limit) (table_entries E H_samples (samples d))) @
      map (rate_pdu E) (filter (rate_over limit) (table_entries E H_rates (rates d)))))"
proof -
  let ?ts = "time_s E - c_grace_period (s_config (k_server K))"
  have ts: "sint ?ts = limit" using grace limit sint_lt [of "time_s E"] by (simp add: sint_diff_small)
  note v = visits_allD [OF assms(3)] and w = wf_dbD [OF d(2)] and dt = dated [THEN fmpredD]
  have "for_each (tick_counter ?ts) (hash_order E H_counters (fmdom (counters d))) (counters d) =
      Inr (fmmap (\<lambda>c. if counter_over limit c then counter_reset c else c) (counters d),
        map (Broadcast \<circ> counter_pdu) (filter (counter_over limit) (table_entries E H_counters (counters d))))"
    unfolding table_entries_def
    by (rule win_counter.tick_walk [OF v])
      (use w(2) dt(1) in \<open>auto simp: fmpred_iff counter_ok_def window_over_ended ts counter_over_def broadcast_pdus\<close>)
  moreover have "for_each (tick_sample E ?ts) (hash_order E H_samples (fmdom (samples d))) (samples d) =
      Inr (fmmap (\<lambda>s. if sample_over limit s then sample_reset s else s) (samples d),
        map (Broadcast \<circ> sample_pdu E) (filter (sample_over limit) (table_entries E H_samples (samples d))))"
    unfolding table_entries_def
    by (rule win_sample.tick_walk [OF v])
      (use w(3) dt(2) in \<open>auto simp: fmpred_iff sample_entry_ok_def window_over_ended ts sample_over_def broadcast_pdus\<close>)
  moreover have "for_each (tick_rate E ?ts) (hash_order E H_rates (fmdom (rates d))) (rates d) =
      Inr (fmmap (\<lambda>r. if rate_over limit r then rate_reset r else r) (rates d),
        map (Broadcast \<circ> rate_pdu E) (filter (rate_over limit) (table_entries E H_rates (rates d))))"
    unfolding table_entries_def
    by (rule win_rate.tick_walk [OF v])
      (use w(4) dt(3) in \<open>auto simp: fmpred_iff rate_ok_def window_over_ended ts rate_over_def broadcast_pdus\<close>)
  ultimately show ?thesis
    using due unfolding counter_reset_def sample_reset_def rate_reset_def by (simp add: tick_step_def tick_windows_def d(1) [symmetric])
qed

section \<open>Forgetting\<close>

lemma foldl_drop_lookup:
  "fmlookup (foldl (\<lambda>m k. if hit k then fmdrop k m else m) m ks) k =
    (if hit k \<and> k \<in> set ks then None else fmlookup m k)"
  by (induction ks arbitrary: m) auto

lemma foldl_mark_lookup:
  "distinct ks \<Longrightarrow>
   fmlookup (foldl (\<lambda>m k. case fmlookup m k of None \<Rightarrow> m | Some v \<Rightarrow> if hit k then fmupd k (mark v) m else m) m ks) k =
    (if hit k \<and> k \<in> set ks then map_option mark (fmlookup m k) else fmlookup m k)"
proof (induction ks arbitrary: m)
  case (Cons j ks)
  then show ?case by (cases "fmlookup m j") auto
qed simp

text \<open>The keys of a table that a walk meets which removes the entries that match.\<close>

definition met :: "env \<Rightarrow> hash_name \<Rightarrow> string \<Rightarrow> (string, 'v) fmap \<Rightarrow> string set" where
  "met E h pattern m = set (unset_order E h (\<lambda>k. pcre_exec E pattern k = 0) (fmdom m))"

text \<open>What is left of a table of data points: \<open>hit\<close> tells which are selected.\<close>

definition left_over ::
  "bool \<Rightarrow> (string \<Rightarrow> bool) \<Rightarrow> string set \<Rightarrow> ('v \<Rightarrow> 'v) \<Rightarrow> (string, 'v) fmap \<Rightarrow> (string, 'v) fmap \<Rightarrow> bool" where
  "left_over ignore hit seen mark m m' \<longleftrightarrow>
     (\<forall>k. fmlookup m' k = (if \<not> hit k then fmlookup m k else if ignore then map_option mark (fmlookup m k)
        else if k \<in> seen then None else fmlookup m k))"

lemma forget_table_lookup:
  assumes "visits_all E"
  shows "fmlookup (forget_table E h pattern ign mark m) k =
    (if pcre_exec E pattern k \<noteq> 0 then fmlookup m k else if ign \<noteq> 0 then map_option mark (fmlookup m k)
     else if k \<in> met E h pattern m then None else fmlookup m k)"
proof (cases "ign = 0")
  case True
  then show ?thesis by (simp add: met_def forget_table_def Let_def foldl_drop_lookup)
next
  case False
  have "k \<in> set (hash_order E h (fmdom m)) \<or> fmlookup m k = None"
    unfolding visits_allD(2) [OF assms] by (cases "fmlookup m k") (simp_all add: fmdomI)
  with False show ?thesis
    by (auto simp add: forget_table_def Let_def foldl_mark_lookup [OF visits_allD(1) [OF assms]])
qed

text \<open>
  Note: \<open>FORGET\<close> marks ignored exactly the data points whose kind
  is in the payload mask and whose name matches the pattern. When it removes, it removes those of
  them that its walk meets. It touches nothing else.
\<close>

theorem forget_selected:
  assumes "visits_all E" and "d' = forget E payload pattern ign d"
    and "hit = (\<lambda>t k. payload_is payload t \<and> pcre_exec E pattern k = 0)"
  shows "left_over (ign \<noteq> 0) (hit PAYLOAD_STATE) (met E H_states pattern (states d)) (\<lambda>x. x\<lparr>state_ignore := 1\<rparr>) (states d) (states d') \<and>
    left_over (ign \<noteq> 0) (hit PAYLOAD_COUNTER) (met E H_counters pattern (counters d)) (\<lambda>x. x\<lparr>counter_ignore := 1\<rparr>) (counters d) (counters d') \<and>
    left_over (ign \<noteq> 0) (hit PAYLOAD_SAMPLE) (met E H_samples pattern (samples d)) (\<lambda>x. x\<lparr>sample_ignore := 1\<rparr>) (samples d) (samples d') \<and>
    left_over (ign \<noteq> 0) (hit PAYLOAD_RATE) (met E H_rates pattern (rates d)) (\<lambda>x. x\<lparr>rate_ignore := 1\<rparr>) (rates d) (rates d') \<and>
    events d' = events d \<and> rules_ok d' = rules_ok d"
  unfolding assms(2,3) left_over_def
  by (simp add: forget_def Let_def forget_table_lookup [OF assms(1)] rules_ok_def)

section \<open>Keys\<close>

text \<open>
  Note: after a \<open>SET.KEYS\<close> submission, \<open>GET.KEYS\<close> answers with the value that was
  set last for the key, or with the value it had before; after \<open>DEL.KEYS\<close> it does
  not list the key.
\<close>

theorem keys_set_get:
  assumes "kvs \<noteq> []" and "even (length kvs)" and "ks \<noteq> []"
  shows "\<exists>K' K''. kernel_reactor E S_listener (''SET.KEYS'' # kvs) K = Inr (CONTINUE, K', []) \<and>
    kernel_reactor E S_management [''GET.KEYS'', k] K' = Inr (CONTINUE, K', [Reply (''VALUES'' #
      (case map_of (rev (pair_up kvs)) k of Some v \<Rightarrow> [k, v]
       | None \<Rightarrow> (case fmlookup (s_keys (k_server K)) k of Some (Some v) \<Rightarrow> [k, v] | _ \<Rightarrow> [])))]) \<and>
    kernel_reactor E S_management (''DEL.KEYS'' # ks) K' = Inr (CONTINUE, K'', [Reply [''OK'']]) \<and>
    (k \<in> set ks \<longrightarrow> kernel_reactor E S_management [''GET.KEYS'', k] K'' =
      Inr (CONTINUE, K'', [Reply [''VALUES'']]))"
proof -
  let ?K' = "fst (listen_set_keys (''SET.KEYS'' # kvs) K)"
  let ?K'' = "fst (mgmt_del_keys (''DEL.KEYS'' # ks) ?K')"
  have l: "2 \<le> length kvs" using assms(1,2) by (cases kvs) (auto, cases "tl kvs", auto)
  have "kernel_reactor E S_listener (''SET.KEYS'' # kvs) K = Inr (CONTINUE, ?K', [])"
    using l assms(2) by (simp add: kernel_reactor_def listener_def pdu_is_def listen_set_keys_def)
  moreover have "kernel_reactor E S_management [''GET.KEYS'', k] ?K' = Inr (CONTINUE, ?K', [Reply (''VALUES'' #
      (case map_of (rev (pair_up kvs)) k of Some v \<Rightarrow> [k, v]
       | None \<Rightarrow> (case fmlookup (s_keys (k_server K)) k of Some (Some v) \<Rightarrow> [k, v] | _ \<Rightarrow> [])))])"
    by (simp add: kernel_reactor_def management_def pdu_is_def mgmt_get_keys_def listen_set_keys_def
      put_keys_lookup split: option.split)
  moreover have "kernel_reactor E S_management (''DEL.KEYS'' # ks) ?K' = Inr (CONTINUE, ?K'', [Reply [''OK'']])"
    using assms(3) by (cases ks) (simp_all add: kernel_reactor_def management_def pdu_is_def mgmt_del_keys_def)
  moreover have "kernel_reactor E S_management [''GET.KEYS'', k] ?K'' = Inr (CONTINUE, ?K'', [Reply [''VALUES'']])"
    if "k \<in> set ks"
    using that by (simp add: kernel_reactor_def management_def pdu_is_def mgmt_get_keys_def mgmt_del_keys_def
      del_keys_lookup)
  ultimately show ?thesis by blast
qed

section \<open>A started kernel is well-formed\<close>

lemma restore_wf:
  assumes "wf_db d"
  shows "wf_db (restore E d p)"
proof (cases p)
  case (P_state s)
  obtain r d' where f: "find_state E d (state_name s) = (r, d')" by fastforce
  show ?thesis using find_wf(1) [OF assms f] f P_state
    by (cases r) (auto simp: state_ok_def has_summary_def merge_state_def intro!: wf_db_entry)
next
  case (P_counter c)
  obtain r d' where f: "find_counter E d (counter_name c) = (r, d')" by fastforce
  show ?thesis using find_wf(2) [OF assms f] f P_counter
    by (cases r) (auto simp: counter_ok_def merge_counter_def intro!: wf_db_entry)
next
  case (P_sample m)
  obtain r d' where f: "find_sample E d (sample_name m) = (r, d')" by fastforce
  show ?thesis using find_wf(3) [OF assms f] f P_sample
    by (cases r) (auto simp: sample_entry_ok_def merge_sample_def intro!: wf_db_entry)
next
  case (P_event e)
  then show ?thesis using assms by (simp add: wf_db_def rules_ok_def)
next
  case (P_rate x)
  obtain r d' where f: "find_rate E d (rate_name x) = (r, d')" by fastforce
  show ?thesis using find_wf(4) [OF assms f] f P_rate
    by (cases r) (auto simp: rate_ok_def merge_rate_def intro!: wf_db_entry)
qed

lemma read_records_wf:
  "wf_db d \<Longrightarrow> read_records E content mapped n off d = Inr (r, d') \<Longrightarrow> wf_db d'"
proof (induction n arbitrary: off d)
  case (Suc n)
  then show ?case by (auto simp: bind_res_Inr_iff dest: restore_wf split: option.splits)
qed simp

lemma binf_read_wf: "wf_db d \<Longrightarrow> binf_read E d file sz = Inr (rc, d') \<Longrightarrow> wf_db d'"
  by (auto simp: binf_read_def Let_def bind_res_Inr_iff dest: read_records_wf split: if_splits option.splits)

lemma boot_db_wf: "wf_db (s_db S) \<Longrightarrow> boot_db E S = Inr S' \<Longrightarrow> wf_db (s_db S')"
  by (auto simp: boot_db_def bind_res_Inr_iff dest: binf_read_wf split: option.splits)

lemma core_kernel_thread_server:
  assumes "core_kernel_thread E S = Inr (rc, K)"
  shows "\<exists>S'. boot_db E S = Inr S' \<and> k_server K = S' \<and> k_savestate K = k_savestate (blank_kernel S) \<and>
    k_sweep K = k_sweep (blank_kernel S) \<and> k_freshness K = k_freshness (blank_kernel S) \<and>
    k_tick K = k_tick (blank_kernel S)"
  using assms
  by (auto simp: core_kernel_thread_def Let_def bind_res_Inr_iff case_prod_unfold split: if_splits)

text \<open>
  A kernel thread that was started on a well-formed configuration, with whatever save
  file and keys file, keeps the invariant of the database in every state it reaches.
\<close>

lemma kernel_started:
  assumes "wf_db (s_db S)" and "core_kernel_thread E S = Inr (rc, K0)" and "kernel_steps K0 K"
  shows "wf_db (k_db K) \<and> kernel_reactor E' sock p K \<notin> {Inl DivByZero, Inl NullDeref}"
proof -
  from core_kernel_thread_server [OF assms(2)] have "boot_db E S = Inr (k_server K0)" by auto
  from kernel_steps_wf [OF assms(3) boot_db_wf [OF assms(1) this]] have w: "wf_db (k_db K)" .
  show ?thesis
    using w kernel_reactor_wf [OF w, where E = E' and sock = sock and p = p] by (auto split: sum.splits)
qed

section \<open>A small kernel, for the witnesses\<close>

definition demo_db :: db_t where
  "demo_db = empty_db\<lparr>
     states := fmupd ''s'' \<lparr>state_type = \<lparr>type_name = ''t'', freshness = 60, type_status = 3, type_summary = Some ''no news''\<rparr>,
       state_name = ''s'', state_last_seen = 5, state_expiry = 65, state_status = 0, state_summary = ''fine'',
       state_stale = 0, state_ignore = 0\<rparr> fmempty,
     counters := fmupd ''c'' \<lparr>counter_window = \<lparr>window_name = None, window_time = 60\<rparr>, counter_name = ''c'',
       counter_last_seen = 100, counter_value = 7, counter_ignore = 0\<rparr> fmempty\<rparr>"

definition demo_server :: server_t where
  "demo_server = \<lparr>s_db = demo_db, s_keys = fmempty,
     s_config = \<lparr>c_listener = Some ''tcp://*:2999'', c_controller = None, c_broadcast = None, c_beacon = None,
       c_nsca_port = 0, c_log_level = None, c_log_facility = None, c_pidfile = None, c_runas_user = None,
       c_runas_group = None, c_savefile = None, c_keysfile = None, c_save_size = 4, c_interval = 15,
       c_events_max = 0, c_events_keep = 0, c_grace_period = 15\<rparr>,
     s_interval = \<lparr>i_tick = 1000, i_freshness = 2, i_sweep = 60, i_savestate = 15\<rparr>\<rparr>"

lemma demo_wf: "wf_db demo_db"
  by (auto simp: wf_db_def demo_db_def empty_db_def rules_ok_def state_ok_def has_summary_def counter_ok_def
    good_window_def)

lemma demo_kernel_db [simp]: "k_db (blank_kernel demo_server) = demo_db"
  by (simp add: blank_kernel_def demo_server_def Let_def)

theorem kernel_invariant_witness:
  "\<exists>K. kernel_reactor plain_env S_listener [''SET.KEYS'', ''k'', ''v''] (blank_kernel demo_server) = Inr (CONTINUE, K, []) \<and>
    wf_db (k_db K) \<and> kernel_reactor plain_env S_tock [''TOCK''] K \<notin> {Inl DivByZero, Inl NullDeref}"
proof -
  obtain K where k: "kernel_reactor plain_env S_listener [''SET.KEYS'', ''k'', ''v''] (blank_kernel demo_server) =
      Inr (CONTINUE, K, [])"
    by (simp add: kernel_reactor_def listener_def pdu_is_def listen_set_keys_def)
  have "kernel_steps (blank_kernel demo_server) K" by (rule kernel_steps.handle [OF kernel_steps.start k])
  from kernel_invariant [OF this] k demo_wf show ?thesis by auto
qed

theorem state_submission_witness:
  "\<exists>K' s'. kernel_reactor plain_env S_listener [''STATE'', dec 90, ''s'', dec 2, ''disk full''] (blank_kernel demo_server) =
    Inr (CONTINUE, K', [broadcast_transition s', broadcast_state s']) \<and>
    fmlookup (states (k_db K')) ''s'' = Some s' \<and> state_status s' = 2 \<and> state_expiry s' = 150"
proof -
  obtain s where s: "fmlookup (states (k_db (blank_kernel demo_server))) ''s'' = Some s"
    "state_ignore s = 0" "state_stale s = 0" "state_status s = 0" "freshness (state_type s) = 60"
    by (simp add: demo_db_def)
  from state_submission [OF s(1,2), where t = 90 and code = 2 and msg = "''disk full''" and E = plain_env, OF _ _ _ _ refl]
  show ?thesis using s by auto
qed

theorem listener_frame_witness:
  "\<exists>K'. kernel_reactor plain_env S_listener [''SET.KEYS'', ''k'', ''v''] (blank_kernel demo_server) = Inr (CONTINUE, K', []) \<and>
    same_setup (blank_kernel demo_server) K' \<and> only_entry ''v'' demo_db (k_db K')"
proof -
  obtain K where k: "kernel_reactor plain_env S_listener [''SET.KEYS'', ''k'', ''v''] (blank_kernel demo_server) =
      Inr (CONTINUE, K, [])"
    by (simp add: kernel_reactor_def listener_def pdu_is_def listen_set_keys_def)
  from listener_frame [OF k] k show ?thesis by auto
qed

theorem tick_closes_windows_witness:
  "\<exists>K'. tick_step plain_env (blank_kernel demo_server) = Inr (K', [Broadcast [''COUNTER'', ''60'', ''c'', ''7'']]) \<and>
    map_option counter_value (fmlookup (counters (k_db K')) ''c'') = Some 0"
proof -
  have t: "due (k_tick (blank_kernel demo_server)) (time_s plain_env)"
    by (simp add: due_def blank_kernel_def Let_def)
  have g: "c_grace_period (s_config (k_server (blank_kernel demo_server))) = 15"
    by (simp add: blank_kernel_def demo_server_def Let_def)
  have e: "table_entries plain_env H_counters (counters demo_db) = [the (fmlookup (counters demo_db) ''c'')]"
    "samples demo_db = fmempty" "rates demo_db = fmempty" "table_entries plain_env h fmempty = []" for h
    by (simp_all add: table_entries_def plain_env_def demo_db_def empty_db_def map_filter_simps)
  have c: "fmlookup (counters demo_db) ''c'' = Some \<lparr>counter_window = \<lparr>window_name = None, window_time = 60\<rparr>,
      counter_name = ''c'', counter_last_seen = 100, counter_value = 7, counter_ignore = 0\<rparr>"
    by (simp add: demo_db_def)
  have o: "counter_over 999999985 \<lparr>counter_window = \<lparr>window_name = None, window_time = 60\<rparr>,
      counter_name = ''c'', counter_last_seen = 100, counter_value = 7, counter_ignore = 0\<rparr>"
    by (simp add: counter_over_def window_ended_def)
  have t60: "dec 60 = ''60''" "dec 7 = ''7''" by code_simp+
  have dt: "fmpred (\<lambda>n c. dated (counter_window c) (counter_last_seen c)) (counters demo_db)"
    by (simp add: demo_db_def empty_db_def fmpred_iff dated_def)
  from tick_closes_windows [of demo_db "blank_kernel demo_server" plain_env 15 999999985, OF _ demo_wf _ t] dt g show ?thesis
    by (simp add: e c o t60 counter_pdu_def start_text_def)
qed

theorem forget_selected_witness:
  "fmlookup (states (forget plain_env 1 ''s'' 0 demo_db)) ''s'' = None \<and>
   fmlookup (counters (forget plain_env 1 ''s'' 0 demo_db)) ''c'' = fmlookup (counters demo_db) ''c''"
proof -
  have "''s'' \<in> met plain_env H_states ''s'' (states demo_db)" by (simp add: met_def plain_env_def demo_db_def)
  then show ?thesis
    using forget_selected [of plain_env "forget plain_env 1 ''s'' 0 demo_db" 1 "''s''" 0 demo_db, OF _ refl refl]
    unfolding left_over_def by (auto simp: payload_is_def)
qed

theorem keys_set_get_witness:
  "\<exists>K'. kernel_reactor plain_env S_listener [''SET.KEYS'', ''k'', ''1'', ''k'', ''2''] (blank_kernel demo_server) =
      Inr (CONTINUE, K', []) \<and>
    kernel_reactor plain_env S_management [''GET.KEYS'', ''k''] K' = Inr (CONTINUE, K', [Reply [''VALUES'', ''k'', ''2'']])"
  using keys_set_get [of "[''k'', ''1'', ''k'', ''2'']" "[''k'']" plain_env "blank_kernel demo_server" "''k''"]
  by auto

end
