(* ===== verification/Bolo_Config_Read.thy ===== *)
theory Bolo_Config_Read
  imports Bolo_Config Bolo_Kernel_Inv
begin

text \<open>
  Reading a configuration file: on a file of complete lines the lexer stays inside the
  line it is at, so the reader comes to its end; on a last line without newline it may
  not. The exact tokens of words, numbers and names, the effect of the text settings,
  and what a short number inherits from a longer one.
\<close>

section \<open>Lines that end with a newline\<close>

text \<open>
  A buffer that holds a line: the text up to the terminator ends with a newline and
  fits the array. On such a buffer no token ends at the terminator, so nothing behind
  it is read.
\<close>

definition lined :: "string \<Rightarrow> bool" where
  "lined m \<longleftrightarrow> cstr m \<noteq> [] \<and> last (cstr m) = CHR 0x0A \<and> length (cstr m) < LINE_BUF_SIZE"

lemma cstr_prefix: "\<exists>t. m = cstr m @ t \<and> (t = [] \<or> hd t = NUL)"
proof -
  have "m = cstr m @ dropWhile (\<lambda>c. c \<noteq> NUL) m" by (simp add: cstr_def)
  moreover have "dropWhile (\<lambda>c. c \<noteq> NUL) m = [] \<or> hd (dropWhile (\<lambda>c. c \<noteq> NUL) m) = NUL"
    using hd_dropWhile [of "\<lambda>c. c \<noteq> NUL" m] by blast
  ultimately show ?thesis by blast
qed

lemma ch_cstr:
  "i < length (cstr m) \<Longrightarrow> ch m i = cstr m ! i"
  "i < length (cstr m) \<Longrightarrow> ch m i \<noteq> NUL"
  "ch m (length (cstr m)) = NUL"
proof -
  obtain t where m: "m = cstr m @ t" and t: "t = [] \<or> hd t = NUL" using cstr_prefix by blast
  have len: "length m = length (cstr m) + length t" by (subst m) simp
  show a: "i < length (cstr m) \<Longrightarrow> ch m i = cstr m ! i"
    using len by (simp add: ch_def) (subst m, simp add: nth_append)
  have "NUL \<notin> set (cstr m)" using cstring_cstr by (simp add: cstring_def)
  with a show "i < length (cstr m) \<Longrightarrow> ch m i \<noteq> NUL" by (metis nth_mem)
  show "ch m (length (cstr m)) = NUL"
    using len t by (simp add: ch_def) (subst m, cases t, auto simp: nth_append)
qed

lemma ch_inside: "i \<le> length (cstr m) \<Longrightarrow> ch m i \<noteq> NUL \<Longrightarrow> i < length (cstr m)"
  using ch_cstr(3) [of m] by (metis le_neq_implies_less)

lemma lined_last: "lined m \<Longrightarrow> ch m (length (cstr m) - 1) = CHR 0x0A"
  using last_conv_nth [of "cstr m"] ch_cstr(1) [of "length (cstr m) - 1" m] by (auto simp: lined_def)

lemma ch_last: "lined m \<Longrightarrow> i < length (cstr m) \<Longrightarrow> ch m i \<noteq> CHR 0x0A \<Longrightarrow> Suc i < length (cstr m)"
  using lined_last [of m] by (cases "i = length (cstr m) - 1") auto

lemma cstr_drop: "i \<le> length (cstr m) \<Longrightarrow> cstr (drop i m) = drop i (cstr m)"
proof (induction i arbitrary: m)
  case (Suc i)
  then obtain c s where m: "m = c # s" "c \<noteq> NUL" "cstr m = c # cstr s"
    by (cases m) (auto simp: cstr_def split: if_splits)
  with Suc show ?case by simp
qed simp

lemma run_end_inside: "i < run_end P m j \<Longrightarrow> j \<le> i \<Longrightarrow> ch m i \<noteq> NUL \<and> P (ch m i)"
proof -
  let ?w = "takeWhile (\<lambda>c. c \<noteq> NUL \<and> P c) (drop j m)"
  assume i: "i < run_end P m j" "j \<le> i"
  then have k: "i - j < length ?w" by (auto simp: run_end_def)
  then have "?w ! (i - j) \<in> set ?w" by simp
  then have "?w ! (i - j) \<noteq> NUL \<and> P (?w ! (i - j))" by (auto dest: set_takeWhileD)
  moreover have "?w ! (i - j) = m ! i" "i < length m"
    using k i(2) length_takeWhile_le [of "\<lambda>c. c \<noteq> NUL \<and> P c" "drop j m"] by (auto simp: takeWhile_nth)
  ultimately show ?thesis by (simp add: ch_def)
qed

lemma run_end_bounds:
  assumes "i \<le> length (cstr m)"
  shows "i \<le> run_end P m i" and "run_end P m i \<le> length (cstr m)"
proof -
  show "i \<le> run_end P m i" by (simp add: run_end_def)
  show "run_end P m i \<le> length (cstr m)"
  proof (rule ccontr)
    assume "\<not> run_end P m i \<le> length (cstr m)"
    then have "length (cstr m) < run_end P m i" by simp
    from run_end_inside [OF this assms] ch_cstr(3) [of m] show False by simp
  qed
qed

lemma run_end_line:
  assumes "lined m" "i < length (cstr m)" "\<not> P (CHR 0x0A)"
  shows "run_end P m i < length (cstr m)"
proof (rule ccontr)
  let ?l = "length (cstr m) - 1"
  assume "\<not> run_end P m i < length (cstr m)"
  with run_end_bounds [of i m P] assms(2) have "?l < run_end P m i" "i \<le> ?l" by simp_all
  then have "P (ch m ?l)" using run_end_inside by blast
  moreover have "ch m ?l = CHR 0x0A" by (rule lined_last [OF assms(1)])
  ultimately show False using assms(3) by simp
qed

lemma pattern_end_bound: "lined m \<Longrightarrow> b \<le> length (cstr m) \<Longrightarrow> pattern_end m b \<le> length (cstr m)"
proof (induction m b rule: pattern_end.induct)
  case (1 m b)
  show ?case
  proof (cases "ch m b = NUL \<or> isspace (ch m b) \<or> ch m b = CHR ''/''")
    case True
    with 1(3) show ?thesis by (simp add: pattern_end.simps)
  next
    case False
    with 1(2,3) ch_inside [of b m] have b: "b < length (cstr m)" by blast
    from False have "ch m b \<noteq> CHR 0x0A" by (auto simp: isspace_def)
    from ch_last [OF 1(2) b this] 1(1) [OF False 1(2)] False show ?thesis
      by (simp add: pattern_end.simps [of m b])
  qed
qed

lemma literal_bound: "lined m \<Longrightarrow> b \<le> length (cstr m) \<Longrightarrow> snd (literal m b) \<le> length (cstr m)"
proof (induction m b rule: literal.induct)
  case (1 m b)
  show ?case
  proof (cases "ch m b = NUL \<or> ch m b = CHR 0x22 \<or> ch m b = CHR 0x0D \<or> ch m b = CHR 0x0A")
    case True
    with 1(3) show ?thesis by (simp add: literal.simps)
  next
    case False
    with 1(2,3) ch_inside [of b m] have b: "b < length (cstr m)" by blast
    from False have "ch m b \<noteq> CHR 0x0A" by blast
    from ch_last [OF 1(2) b this] 1(1) [OF False refl 1(2)] False show ?thesis
      by (simp add: literal.simps [of m b] case_prod_unfold Let_def)
  qed
qed

section \<open>One token\<close>

definition quiet :: "string \<Rightarrow> bool" where
  "quiet m \<longleftrightarrow> cstr m = [] \<or> lined m"

text \<open>A step of the lexer that stays inside the line: it fails, or takes something off its front.\<close>

definition advances :: "parser_t \<Rightarrow> (bool \<times> parser_t) res \<Rightarrow> bool" where
  "advances p r \<longleftrightarrow> (\<exists>ok q. r = Inr (ok, q) \<and> p_io q = p_io p \<and>
     (ok \<longrightarrow> quiet (p_buffer q) \<and> length (cstr (p_buffer q)) < length (cstr (p_buffer p))))"

lemma advances_fail [simp, intro!]: "advances p (lex_fail p)"
  by (auto simp: advances_def lex_fail_def)

lemma advances_ok:
  "p_io q = p_io p \<Longrightarrow> quiet (p_buffer q) \<Longrightarrow> length (cstr (p_buffer q)) < length (cstr (p_buffer p)) \<Longrightarrow>
    advances p (Inr (True, q))"
  by (auto simp: advances_def)

lemma cstr_overlay: "cstring s \<Longrightarrow> cstr (overlay (s @ [NUL]) m) = s"
  by (simp add: overlay_def)

lemma quiet_drop: "lined m \<Longrightarrow> cstr m' = drop c (cstr m) \<Longrightarrow> quiet m'"
  by (cases "c < length (cstr m)") (auto simp: quiet_def lined_def)

lemma accept_advances:
  assumes l: "lined (p_buffer p)" and b: "0 < b" "b \<le> length (cstr (p_buffer p))"
    and m: "drop b m' = drop b (p_buffer p)"
  shows "advances p (accept p t v m' b)"
proof -
  let ?m = "p_buffer p" and ?c = "run_end isspace (p_buffer p) b"
  have c: "run_end isspace m' b = ?c" by (simp add: run_end_def m)
  have bc: "b \<le> ?c" "?c \<le> length (cstr ?m)" using run_end_bounds [OF b(2), of isspace] by blast+
  have "drop ?c xs = drop (?c - b) (drop b xs)" for xs :: string using bc(1) by simp
  then have "drop ?c m' = drop ?c ?m" by (simp only: m)
  then have s: "cstr (drop ?c m') = drop ?c (cstr ?m)" using bc(2) by (simp add: cstr_drop)
  let ?n = "overlay (drop ?c (cstr ?m) @ [NUL]) m'"
  have "cstring (drop ?c (cstr ?m))" using cstring_cstr [of ?m] by (auto simp: cstring_def dest: in_set_dropD)
  then have n: "cstr ?n = drop ?c (cstr ?m)" by (rule cstr_overlay)
  have "b < LINE_BUF_SIZE" using b(2) l by (simp add: lined_def)
  then have a: "accept p t v m' b = Inr (True, p\<lparr>p_token := t, p_value := v, p_buffer := ?n\<rparr>)"
    by (simp add: accept_def c s)
  have "length (cstr ?n) < length (cstr ?m)" using n b bc by simp
  with quiet_drop [OF l n] show ?thesis unfolding a by (intro advances_ok) simp_all
qed

lemma accept_cut:
  assumes l: "lined (p_buffer p)" and b: "b < length (cstr (p_buffer p))"
  shows "advances p (accept p t v ((p_buffer p)[b := NUL]) b)"
proof -
  let ?m = "(p_buffer p)[b := NUL]"
  have len: "b < length (p_buffer p)"
    using b length_takeWhile_le [of "\<lambda>c. c \<noteq> NUL" "p_buffer p"] by (simp add: cstr_def)
  then obtain t where d: "drop b ?m = NUL # t" by (metis Cons_nth_drop_Suc length_list_update nth_list_update_eq)
  then have "run_end isspace ?m b = b" by (simp add: run_end_def)
  moreover have "cstr (drop b ?m) = []" by (simp add: d cstr_def)
  moreover have "b < LINE_BUF_SIZE" using b l by (simp add: lined_def)
  ultimately have a: "accept p t v ?m b = Inr (True, p\<lparr>p_token := t, p_value := v, p_buffer := overlay [NUL] ?m\<rparr>)" for t v
    by (simp add: accept_def)
  have n: "cstr (overlay [NUL] ?m) = []" using cstr_overlay [of "[]" ?m] by (simp add: cstring_def)
  show ?thesis unfolding a using b by (intro advances_ok) (auto simp: n quiet_def)
qed

lemma run_end_step: "ch m i \<noteq> NUL \<Longrightarrow> P (ch m i) \<Longrightarrow> i < run_end P m i"
  by (cases "drop i m") (auto simp: ch_def run_end_def hd_drop_conv_nth split: if_splits dest: drop_eq_Nil [THEN iffD1] arg_cong [of _ _ hd])

lemma literal_mono: "b \<le> snd (literal m b)"
proof (induction m b rule: literal.induct)
  case (1 m b)
  show ?case
  proof (cases "ch m b = NUL \<or> ch m b = CHR 0x22 \<or> ch m b = CHR 0x0D \<or> ch m b = CHR 0x0A")
    case True
    then show ?thesis by (simp add: literal.simps)
  next
    case False
    with 1(1) [OF False refl] show ?thesis
      by (cases "ch m b = CHR 0x5C") (auto simp: literal.simps [of m b] case_prod_unfold Let_def)
  qed
qed

text \<open>Each stage of the lexer, from a start \<open>b\<close> that is inside the line or at its end.\<close>

lemma lex_literal_advances:
  assumes "lined (p_buffer p)" "b \<le> length (cstr (p_buffer p))"
  shows "advances p (lex_literal p b)"
proof (cases "ch (p_buffer p) b = CHR 0x22")
  case True
  let ?m = "p_buffer p"
  have b: "b < length (cstr ?m)" using ch_inside [OF assms(2)] True by simp
  obtain s e where e: "literal ?m (b + 1) = (s, e)" by fastforce
  have "e \<le> length (cstr ?m)" using literal_bound [OF assms(1), of "b + 1"] b e by simp
  moreover have "b + 1 \<le> e" using literal_mono [of "b + 1" ?m] e by simp
  moreover have "ch ?m e = CHR 0x22 \<Longrightarrow> e < length (cstr ?m)" using ch_inside [of e ?m] calculation(1) by simp
  ultimately show ?thesis
    using True assms(1) by (auto simp: lex_literal_def Let_def e [simplified] intro!: accept_advances)
next
  case False
  then show ?thesis by (simp add: lex_literal_def Let_def)
qed

lemma lex_name_advances:
  assumes l: "lined (p_buffer p)" and "a \<le> length (cstr (p_buffer p))" "b \<le> length (cstr (p_buffer p))"
    and k: "\<And>i. i \<le> length (cstr (p_buffer p)) \<Longrightarrow> advances p (k p i)" and "sigil \<noteq> NUL" "sigil \<noteq> CHR 0x0A"
  shows "advances p (lex_name sigil t k p a b)"
proof (cases "ch (p_buffer p) b = sigil")
  case True
  let ?m = "p_buffer p" and ?e = "run_end name_char (p_buffer p) (b + 1)"
  have "b < length (cstr ?m)" using ch_inside [OF assms(3)] True assms(5) by simp
  from ch_last [OF l this] True assms(6) have b: "b + 1 < length (cstr ?m)" by simp
  have "?e < length (cstr ?m)" by (rule run_end_line [OF l b]) (simp add: name_char_def isalnum_def isalpha_def isdigit_def)
  then have "advances p (accept p t v (?m[?e := NUL]) (?e + 1))" for v
    by (intro accept_advances [OF l]) simp_all
  with True k [OF assms(2)] show ?thesis by (simp add: lex_name_def Let_def)
next
  case False
  with k [OF assms(3)] show ?thesis by (simp add: lex_name_def Let_def)
qed

lemma lex_names_advances:
  assumes "lined (p_buffer p)" "a \<le> length (cstr (p_buffer p))" "b \<le> length (cstr (p_buffer p))"
  shows "advances p (lex_names p a b)"
  unfolding lex_names_def using assms by (intro lex_name_advances lex_literal_advances) simp_all

lemma lex_word_advances:
  assumes l: "lined (p_buffer p)" and "a \<le> length (cstr (p_buffer p))" "b \<le> length (cstr (p_buffer p))"
  shows "advances p (lex_word p a b)"
proof (cases "isalnum (ch (p_buffer p) b) \<or> ch (p_buffer p) b = CHR ''/''")
  case True
  let ?m = "p_buffer p" and ?e = "run_end (\<lambda>c. isalnum c \<or> ispunct c) (p_buffer p) (b + 1)"
  from True have "ch ?m b \<noteq> NUL" "ch ?m b \<noteq> CHR 0x0A" by (auto simp: isalnum_def isalpha_def isdigit_def)
  with ch_inside [OF assms(3)] ch_last [OF l] have b: "b + 1 < length (cstr ?m)" by simp
  have "?e < length (cstr ?m)"
    by (rule run_end_line [OF l b]) (simp add: ispunct_def isalnum_def isalpha_def isdigit_def)
  then have "advances p (accept p t v (?m[?e := NUL]) (?e + 1))" for t v
    by (intro accept_advances [OF l]) simp_all
  with True lex_names_advances [OF l assms(2) assms(2)] show ?thesis by (simp add: lex_word_def Let_def)
next
  case False
  with lex_names_advances [OF assms] show ?thesis by (simp add: lex_word_def Let_def)
qed

lemma lex_pattern_advances:
  assumes l: "lined (p_buffer p)" and a: "a \<le> length (cstr (p_buffer p))" and b: "b \<le> length (cstr (p_buffer p))"
  shows "advances p (lex_pattern p a b)"
proof (cases "ch (p_buffer p) b = CHR ''m'' \<and> ch (p_buffer p) (b + 1) = CHR ''/''")
  case True
  let ?m = "p_buffer p" and ?e = "pattern_end (p_buffer p) (b + 2)"
  have "b < length (cstr ?m)" using ch_inside [OF b] True by simp
  then have "b + 1 < length (cstr ?m)" using ch_inside [of "b + 1" ?m] True by simp
  then have e: "?e \<le> length (cstr ?m)" by (intro pattern_end_bound [OF l]) simp
  then have "?e < LINE_BUF_SIZE" using l by (simp add: lined_def)
  moreover have "ch ?m ?e = CHR ''/'' \<Longrightarrow> advances p (accept p t v (?m[?e := NUL]) (?e + 1))" for t v
    using ch_inside [OF e] by (intro accept_advances [OF l]) simp_all
  ultimately show ?thesis using True by (simp add: lex_pattern_def Let_def)
next
  case False
  with lex_word_advances [OF l a] a b show ?thesis by (auto simp: lex_pattern_def Let_def)
qed

lemma lex_digits_advances:
  assumes l: "lined (p_buffer p)" and a: "a \<le> length (cstr (p_buffer p))"
  shows "advances p (lex_digits p a)"
proof (cases "isdigit (ch (p_buffer p) a)")
  case True
  let ?m = "p_buffer p" and ?e = "run_end isdigit (p_buffer p) a"
  have "ch ?m a \<noteq> NUL" using True by auto
  then have b: "a < length (cstr ?m)" by (rule ch_inside [OF a])
  have e: "?e < length (cstr ?m)" by (rule run_end_line [OF l b]) (simp add: isdigit_def)
  have "a < ?e" by (rule run_end_step) (use True \<open>ch ?m a \<noteq> NUL\<close> in simp_all)
  then have "advances p (accept p t v ?m ?e)" "advances p (accept p t v (?m[?e := NUL]) ?e)" for t v
    using e by (auto intro!: accept_advances [OF l] accept_cut [OF l])
  with True lex_pattern_advances [OF l a, of ?e] e show ?thesis by (auto simp: lex_digits_def Let_def at_end_def)
next
  case False
  with lex_pattern_advances [OF l a a] show ?thesis by (simp add: lex_digits_def Let_def)
qed

lemma lex_token_advances:
  assumes "lined (p_buffer p)"
  shows "advances p (lex_token p)"
proof -
  let ?m = "p_buffer p" and ?a = "run_end isspace (p_buffer p) 0"
  have a: "?a \<le> length (cstr ?m)" using run_end_bounds(2) [of 0 ?m isspace] by simp
  have "ch ?m ?a \<noteq> NUL \<Longrightarrow> advances p (accept p t v ?m (?a + 1))" for t v
    using ch_inside [OF a] by (intro accept_advances [OF assms]) simp_all
  with lex_digits_advances [OF assms a] show ?thesis by (simp add: lex_token_def Let_def)
qed

section \<open>A text file is read to its end\<close>

text \<open>
  The text of a file as the list of its lines: every line ends with a newline and fits
  the buffer, and there is no null character.
\<close>

definition file_text :: "string list \<Rightarrow> string" where
  "file_text ls = concat (map (\<lambda>l. l @ [CHR 0x0A]) ls)"

definition line_ok :: "string \<Rightarrow> bool" where
  "line_ok l \<longleftrightarrow> list_all (\<lambda>c. c \<noteq> CHR 0x0A \<and> c \<noteq> NUL) l \<and> length l < 8191"

definition text_state :: "parser_t \<Rightarrow> bool" where
  "text_state p \<longleftrightarrow> (\<exists>ls. p_io p = file_text ls \<and> list_all line_ok ls) \<and> quiet (p_buffer p)"

definition left :: "parser_t \<Rightarrow> nat" where
  "left p = length (cstr (p_buffer p)) + length (p_io p)"

lemma file_text_simps [simp]: "file_text [] = []" "file_text (l # ls) = l @ CHR 0x0A # file_text ls"
  by (simp_all add: file_text_def)

lemma fgets_file_text: "line_ok l \<Longrightarrow> fgets 8191 (file_text (l # ls)) = (l @ [CHR 0x0A], file_text ls)"
  using fgets_line [of l 8191 "file_text ls"] by (auto simp: line_ok_def list_all_iff)

lemma dropWhile_suffix: "\<exists>k \<le> length s. dropWhile P s = drop k s"
  using dropWhile_eq_drop [of P s] length_takeWhile_le [of P s] by blast

text \<open>What a line leaves in the buffer is a suffix of it.\<close>

lemma skip_blank_suffix: "\<exists>k \<le> length (cstr raw). skip_blank raw = drop k (cstr raw)"
proof -
  let ?a = "dropWhile isspace (cstr raw)"
  obtain i where i: "i \<le> length (cstr raw)" "?a = drop i (cstr raw)" using dropWhile_suffix by blast
  obtain j where j: "j \<le> length ?a"
    "(if at_char ?a = CHR ''#'' then dropWhile (\<lambda>c. c \<noteq> CHR 0x0A) ?a else ?a) = drop j ?a"
  proof (cases "at_char ?a = CHR ''#''")
    case True
    with dropWhile_suffix [of ?a] that show thesis by auto
  next
    case False
    with that [of 0] show thesis by simp
  qed
  obtain k where k: "k \<le> length (drop j ?a)" "dropWhile isspace (drop j ?a) = drop k (drop j ?a)"
    using dropWhile_suffix by blast
  have "skip_blank raw = drop (k + j + i) (cstr raw)"
    unfolding skip_blank_def Let_def j(2) k(2) by (simp add: i(2) add.assoc)
  moreover have "k + j + i \<le> length (cstr raw)" using i j(1) k(1) by simp
  ultimately show ?thesis by blast
qed

lemma get_line_text:
  assumes "p_io p = file_text ls" "list_all line_ok ls" "get_line p = (True, q)"
  shows "text_state q \<and> lined (p_buffer q) \<and> left q \<le> length (p_io p)"
  using assms
proof (induction ls arbitrary: p)
  case Nil
  then show ?case by (simp add: get_line.simps)
next
  case (Cons l ls)
  let ?raw = "l @ [CHR 0x0A]"
  from Cons.prems have f: "fgets 8191 (p_io p) = (?raw, file_text ls)" and ls: "list_all line_ok ls"
    using fgets_file_text [of l ls] by auto
  have "cstring ?raw" using Cons.prems(2) by (simp add: line_ok_def cstring_def list_all_iff) blast
  then have raw: "cstr ?raw = ?raw" by (rule cstr_id)
  have len: "length ?raw < LINE_BUF_SIZE" using Cons.prems(2) by (simp add: line_ok_def)
  obtain k where k: "k \<le> length ?raw" "skip_blank ?raw = drop k ?raw"
    using skip_blank_suffix [of ?raw] unfolding raw by blast
  let ?p = "p\<lparr>p_io := file_text ls, p_line := p_line p + 1,
    p_eof := p_eof p \<or> length ?raw < 8191 \<and> last ?raw \<noteq> CHR 0x0A\<rparr>"
  have io: "p_io p \<noteq> []" using Cons.prems(1) by simp
  show ?case
  proof (cases "skip_blank ?raw = []")
    case True
    then have "get_line p = get_line ?p" by (subst get_line.simps) (simp add: io f Let_def)
    with Cons.IH [of ?p] Cons.prems ls show ?thesis by simp
  next
    case False
    let ?q = "?p\<lparr>p_buffer := overlay (drop k ?raw @ [NUL]) (p_buffer ?p)\<rparr>"
    from False have "get_line p = (True, ?q)" unfolding k(2) [symmetric] by (subst get_line.simps) (simp add: io f Let_def)
    with Cons.prems(3) have q: "q = ?q" by simp
    have "cstring (drop k ?raw)" using raw cstring_cstr [of ?raw] by (auto simp: cstring_def dest: in_set_dropD)
    then have "cstr (overlay (drop k ?raw @ [NUL]) (p_buffer p)) = drop k ?raw" by (rule cstr_overlay)
    then have b: "cstr (p_buffer q) = drop k ?raw" unfolding q by simp
    have "drop k ?raw \<noteq> []" using False by (simp add: k(2))
    then have "last (drop k ?raw) = CHR 0x0A" by (metis last_drop last_snoc drop_all not_le)
    then have "lined (p_buffer q)" using b len \<open>drop k ?raw \<noteq> []\<close> by (simp add: lined_def)
    moreover have "left q \<le> length (p_io p)" using b Cons.prems(1) by (simp add: left_def q)
    moreover have "text_state q"
      unfolding text_state_def quiet_def using \<open>lined (p_buffer q)\<close> ls by (auto simp: q)
    ultimately show ?thesis by blast
  qed
qed

lemma start_token_simps [simp]: "p_buffer (start_token p) = p_buffer p" "p_io (start_token p) = p_io p"
  "p_eof (start_token p) = p_eof p"
  by (simp_all add: start_token_def)

text \<open>On a text file \<open>lex\<close> never faults, and a token takes something off what is left.\<close>

lemma lex_text:
  "text_state p \<Longrightarrow> \<exists>ok q. lex p = Inr (ok, q) \<and> (ok \<longrightarrow> text_state q \<and> left q < left p)"
proof (induction p rule: lex.induct)
  case (1 p)
  obtain ls where ls: "p_io p = file_text ls" "list_all line_ok ls" and b: "quiet (p_buffer p)"
    using 1(3) by (auto simp: text_state_def)
  let ?s = "start_token p"
  consider (empty) "ch (p_buffer p) 0 = NUL"
    | (comment) "ch (p_buffer p) 0 \<noteq> NUL" "ch (p_buffer p) (run_end isspace (p_buffer p) 0) = CHR ''#''"
    | (tok) "ch (p_buffer p) 0 \<noteq> NUL" "ch (p_buffer p) (run_end isspace (p_buffer p) 0) \<noteq> CHR ''#''" by blast
  then show ?case
  proof cases
    case empty
    obtain ok q where g: "get_line p = (ok, q)" by fastforce
    show ?thesis
    proof (cases ok)
      case True
      from get_line_text [OF ls] g True have t: "text_state q" "left q \<le> length (p_io p)" by auto
      from 1(1) [OF empty g [symmetric] _ t(1)] True empty g t(2) show ?thesis
        by (subst lex.simps) (auto simp: left_def)
    next
      case False
      with empty g show ?thesis by (subst lex.simps) auto
    qed
  next
    case comment
    obtain ok q where g: "get_line ?s = (ok, q)" by fastforce
    show ?thesis
    proof (cases ok)
      case True
      have "p_io ?s = file_text ls" using ls by simp
      from get_line_text [OF this ls(2)] g True have t: "text_state q" "left q \<le> length (p_io p)" by auto
      from 1(2) [OF comment(1) refl _ g [symmetric] _ t(1)] True comment g t(2) show ?thesis
        by (subst lex.simps) (auto simp: left_def)
    next
      case False
      with comment g show ?thesis by (subst lex.simps) auto
    qed
  next
    case tok
    have "lined (p_buffer ?s)" using b tok(1) ch_cstr(3) [of "p_buffer p"] by (auto simp: quiet_def)
    from lex_token_advances [OF this] obtain ok q where q: "lex_token ?s = Inr (ok, q)" "p_io q = p_io p"
      "ok \<longrightarrow> quiet (p_buffer q) \<and> length (cstr (p_buffer q)) < length (cstr (p_buffer p))"
      by (auto simp: advances_def)
    have "lex p = Inr (ok, q)" using tok q(1) by (subst lex.simps) (simp add: Let_def)
    moreover have "ok \<longrightarrow> text_state q \<and> left q < left p" using q ls by (auto simp: text_state_def left_def)
    ultimately show ?thesis by blast
  qed
qed

text \<open>
  A directive that reads on from a text file: it does not fault, and if the loop goes
  on, at most \<open>n\<close> characters are left.
\<close>

definition reads :: "nat \<Rightarrow> cstep \<Rightarrow> bool" where
  "reads n r \<longleftrightarrow> (\<exists>ok q c. r = Inr (ok, q, c) \<and> (ok \<longrightarrow> text_state q \<and> left q \<le> n))"

named_theorems reading \<open>directives that read on from a text file\<close>

lemma reads_bail [reading]: "reads n (bail q c)"
  by (auto simp: reads_def bail_def)

lemma reads_go_on [reading]: "text_state q \<Longrightarrow> left q \<le> n \<Longrightarrow> reads n (go_on q c)"
  by (auto simp: reads_def go_on_def)

lemma reads_NEXT [reading]:
  assumes "text_state p" "left p \<le> n" "\<And>q. text_state q \<Longrightarrow> left q \<le> n \<Longrightarrow> reads n (k q)"
  shows "reads n (NEXT p c k)"
proof -
  obtain ok q where l: "lex p = Inr (ok, q)" "ok \<longrightarrow> text_state q \<and> left q < left p"
    using lex_text [OF assms(1)] by blast
  show ?thesis
  proof (cases ok)
    case True
    with l assms(2,3) show ?thesis by (simp add: NEXT_def)
  next
    case False
    with l show ?thesis by (simp add: NEXT_def reads_bail)
  qed
qed

lemma reads_if [reading]: "(P \<Longrightarrow> reads n a) \<Longrightarrow> (\<not> P \<Longrightarrow> reads n b) \<Longrightarrow> reads n (if P then a else b)"
  by simp

lemma reads_option [reading]:
  "(x = None \<Longrightarrow> reads n a) \<Longrightarrow> (\<And>y. x = Some y \<Longrightarrow> reads n (f y)) \<Longrightarrow> reads n (case x of None \<Rightarrow> a | Some y \<Rightarrow> f y)"
  by (cases x) auto

lemma reads_bind [reading]:
  assumes "reads n r" "\<And>ok q c. (ok \<longrightarrow> text_state q \<and> left q \<le> n) \<Longrightarrow> reads n (k ok q c)"
  shows "reads n (bind_res r (\<lambda>(ok, q, c). k ok q c))"
  using assms by (auto simp: reads_def)

lemma reads_SERVER_STRING [reading]: "text_state p \<Longrightarrow> left p \<le> n \<Longrightarrow> reads n (SERVER_STRING f p c)"
  unfolding SERVER_STRING_def by (intro reading)

lemma reads_number [reading]: "text_state p \<Longrightarrow> left p \<le> n \<Longrightarrow> reads n (number_directive f p c)"
  unfolding number_directive_def by (intro reading)

lemma reads_pick_window [reading]:
  assumes "text_state p" "left p \<le> n" "\<And>q c w. text_state q \<Longrightarrow> left q \<le> n \<Longrightarrow> reads n (k q c w)"
  shows "reads n (pick_window p c k)"
  unfolding pick_window_def Let_def by (intro reading assms)

lemma reads_metric [reading]: "text_state p \<Longrightarrow> left p \<le> n \<Longrightarrow> reads n (metric_directive E entry rule p c)"
  unfolding metric_directive_def by (intro reading)

lemma reads_state [reading]: "text_state p \<Longrightarrow> left p \<le> n \<Longrightarrow> reads n (state_directive E p c)"
  unfolding state_directive_def declare_state_def Let_def by (intro reading)

lemma reads_log [reading]: "text_state p \<Longrightarrow> left p \<le> n \<Longrightarrow> reads n (log_directive p c)"
  unfolding log_directive_def by (intro reading) auto

lemma reads_window [reading]: "text_state p \<Longrightarrow> left p \<le> n \<Longrightarrow> reads n (window_directive p c)"
  unfolding window_directive_def Let_def by (intro reading)

lemma reads_directive: "text_state p \<Longrightarrow> left p \<le> n \<Longrightarrow> reads n (directive E p c)"
  unfolding directive_def counter_directive_def sample_directive_def rate_directive_def use_directive_def
    max_events_directive_def
  by (cases "p_token p"; simp; intro reading; assumption)

section \<open>The loops\<close>

lemma type_attribute_text:
  assumes "text_state p"
  shows "\<exists>ok q c' t'. type_attribute t p c = Inr (ok, q, c', t') \<and> (ok \<longrightarrow> text_state q \<and> left q \<le> left p)"
proof -
  obtain ok q where l: "lex p = Inr (ok, q)" "ok \<longrightarrow> text_state q \<and> left q < left p"
    using lex_text [OF assms] by blast
  then show ?thesis
    by (cases ok; cases "p_token q = T_NUMBER"; cases "p_token q = T_STRING") (auto simp: type_attribute_def Let_def)
qed

lemma type_loop_text:
  "text_state p \<Longrightarrow> left p < n \<Longrightarrow>
    \<exists>ok q c' t'. type_loop n t p c = Some (Inr (ok, q, c', t')) \<and> (ok \<longrightarrow> text_state q \<and> left q \<le> left p)"
proof (induction n arbitrary: t p c)
  case (Suc n)
  obtain ok q where l: "lex p = Inr (ok, q)" "ok \<longrightarrow> text_state q \<and> left q < left p"
    using lex_text [OF Suc.prems(1)] by blast
  show ?case
  proof (cases "ok \<and> p_token q \<noteq> T_CLOSE_BRACE")
    case True
    with l have q: "text_state q" "left q < left p" by auto
    obtain ok2 q2 c2 t2 where a: "type_attribute t q c = Inr (ok2, q2, c2, t2)"
      "ok2 \<longrightarrow> text_state q2 \<and> left q2 \<le> left q" using type_attribute_text [OF q(1)] by blast
    show ?thesis
    proof (cases ok2)
      case ok2: True
      with a q Suc.prems(2) have "left q2 < n" "text_state q2" by auto
      from Suc.IH [OF this(2,1)] obtain ok3 q3 c3 t3 where "type_loop n t2 q2 c2 = Some (Inr (ok3, q3, c3, t3))"
        "ok3 \<longrightarrow> text_state q3 \<and> left q3 \<le> left q2" by blast
      with True ok2 l a q show ?thesis by auto
    next
      case False
      with True l a show ?thesis by auto
    qed
  next
    case False
    with l have "type_loop (Suc n) t p c = Some (Inr (ok, q, c, t))" by (cases ok) simp_all
    with l(2) show ?thesis by fastforce
  qed
qed simp

lemma type_directive_text:
  assumes "text_state p" "left p < n"
  shows "\<exists>r. type_directive n p c = Some r \<and> reads (left p) r"
proof -
  obtain ok q where l: "lex p = Inr (ok, q)" "ok \<longrightarrow> text_state q \<and> left q < left p"
    using lex_text [OF assms(1)] by blast
  show ?thesis
  proof (cases "ok \<and> p_token q = T_TYPENAME")
    case True
    then obtain ok2 q2 where l2: "lex q = Inr (ok2, q2)" "ok2 \<longrightarrow> text_state q2 \<and> left q2 < left q"
      using lex_text l(2) by blast
    let ?t = "\<lparr>type_name = tok_value q, freshness = 300, type_status = WARNING, type_summary = None\<rparr>"
    show ?thesis
    proof (cases "ok2 \<and> p_token q2 = T_OPEN_BRACE")
      case ok2: True
      with l l2 True assms(2) have q2: "text_state q2" "left q2 < n" "left q2 \<le> left p" by auto
      from type_loop_text [OF q2(1,2)] obtain ok3 q3 c3 t3 where
        "type_loop n ?t q2 (put_type ?t c) = Some (Inr (ok3, q3, c3, t3))"
        "ok3 \<longrightarrow> text_state q3 \<and> left q3 \<le> left q2" by blast
      with True ok2 l l2 q2(3) show ?thesis
        by (auto simp: type_directive_def Let_def reads_def type_end_def)
    next
      case False
      with True l l2 show ?thesis by (auto simp: type_directive_def Let_def reads_bail)
    qed
  next
    case False
    with l show ?thesis by (auto simp: type_directive_def reads_bail)
  qed
qed

lemma config_loop_text:
  "text_state p \<Longrightarrow> left p < n \<Longrightarrow> \<exists>x. config_loop n E p c = Some (Inr x)"
proof (induction n arbitrary: p c)
  case (Suc n)
  obtain ok q where l: "lex p = Inr (ok, q)" "ok \<longrightarrow> text_state q \<and> left q < left p"
    using lex_text [OF Suc.prems(1)] by blast
  show ?case
  proof (cases ok)
    case True
    with l Suc.prems(2) have q: "text_state q" "left q < n" by auto
    have t: "\<exists>r. type_directive n q c = Some r \<and> reads (left q) r" by (rule type_directive_text [OF q])
    obtain r where r: "(if p_token q = T_KEYWORD_TYPE then type_directive n q c else Some (directive E q c)) = Some r"
      "reads (left q) r" using t reads_directive [OF q(1) order_refl, of E c] by (cases "p_token q = T_KEYWORD_TYPE") auto
    from r(2) obtain ok2 q2 c2 where q2: "r = Inr (ok2, q2, c2)" "ok2 \<longrightarrow> text_state q2 \<and> left q2 \<le> left q"
      by (auto simp: reads_def)
    then show ?thesis using Suc.IH [of q2 c2] q(2) l True r(1) by (cases ok2) (auto simp: bail_def)
  next
    case False
    with l show ?thesis by simp
  qed
qed simp

text \<open>
  C16: reading a configuration file whose lines all end with a newline, fit
  the line buffer and hold no null character comes to an end, within as many steps as
  the file has characters, and never reads outside the buffers, whatever the file says.
\<close>

theorem config_returns:
  assumes "file_data E path = file_text ls" "list_all line_ok ls" "length (file_text ls) < fuel"
  shows "\<exists>rc s'. configure fuel E path s = Some (Inr (rc, s'))"
proof -
  let ?p = "fresh_parser (file_text ls)"
  have "cstr (p_buffer ?p) = []" by (simp add: fresh_parser_def cstr_def)
  then have "text_state ?p" "left ?p < fuel"
    using assms(2,3) by (auto simp: text_state_def quiet_def left_def fresh_parser_def)
  from config_loop_text [OF this] obtain x where
    "config_loop fuel E ?p \<lparr>cf_server = clear_db s, cf_default_type = None, cf_default_win = None\<rparr> = Some (Inr x)" by blast
  then show ?thesis by (cases x) (auto simp: configure_def assms(1) Let_def)
qed

theorem config_returns_witness:
  "\<exists>rc s'. configure 100 (plain_env\<lparr>file_data := (\<lambda>_. file_text [''# types'', ''type :t {'', ''}''])\<rparr>) ''/etc/bolo.conf'' demo_server =
    Some (Inr (rc, s'))"
  by (rule config_returns [where ls = "[''# types'', ''type :t {'', ''}'']"]) (simp_all add: line_ok_def)

section \<open>Words and numbers, exactly\<close>

lemma takeWhile_cstr: "takeWhile (\<lambda>c. c \<noteq> NUL \<and> P c) s = takeWhile P (cstr s)"
  by (induction s) (auto simp: cstr_def)

lemma run_end_cstr: "i \<le> length (cstr m) \<Longrightarrow> run_end P m i = i + length (takeWhile P (drop i (cstr m)))"
  by (simp add: run_end_def takeWhile_cstr cstr_drop)

text \<open>
  What a token leaves: the stream as it was, the token and its text, and the rest of
  the line without leading white space.
\<close>

definition gives :: "parser_t \<Rightarrow> token \<Rightarrow> string \<Rightarrow> string \<Rightarrow> (bool \<times> parser_t) res \<Rightarrow> bool" where
  "gives p t v rest r \<longleftrightarrow> (\<exists>q. r = Inr (True, q) \<and> p_io q = p_io p \<and> p_eof q = p_eof p \<and> p_token q = t \<and>
     p_value q = v \<and> cstr (p_buffer q) = dropWhile isspace rest)"

lemma start_value [simp]: "p_value (start_token p) = overlay [NUL] (p_value p)"
  by (simp add: start_token_def)

lemma gives_start [simp]: "gives (start_token p) t v rest r = gives p t v rest r"
  by (simp add: gives_def start_token_def)

lemma accept_gives:
  assumes b: "b \<le> length (cstr (p_buffer p))" "b < LINE_BUF_SIZE" and m: "drop b m' = drop b (p_buffer p)"
  shows "gives p t v (drop b (cstr (p_buffer p))) (accept p t v m' b)"
proof -
  let ?m = "p_buffer p" and ?c = "run_end isspace (p_buffer p) b"
  have c: "run_end isspace m' b = ?c" by (simp add: run_end_def m)
  have bc: "b \<le> ?c" "?c \<le> length (cstr ?m)" using run_end_bounds [OF b(1), of isspace] by blast+
  have "drop ?c xs = drop (?c - b) (drop b xs)" for xs :: string using bc(1) by simp
  then have "drop ?c m' = drop ?c ?m" by (simp only: m)
  then have s: "cstr (drop ?c m') = drop ?c (cstr ?m)" using bc(2) by (simp add: cstr_drop)
  have d: "drop ?c (cstr ?m) = dropWhile isspace (drop b (cstr ?m))"
    using b(1) by (simp add: run_end_cstr dropWhile_eq_drop add.commute)
  have "cstring (drop ?c (cstr ?m))" using cstring_cstr [of ?m] by (auto simp: cstring_def dest: in_set_dropD)
  then have "cstr (overlay (drop ?c (cstr ?m) @ [NUL]) m') = drop ?c (cstr ?m)" by (rule cstr_overlay)
  then show ?thesis using b(2) by (auto simp: gives_def accept_def c s d)
qed

lemma takeWhile_until: "list_all P w \<Longrightarrow> \<not> P c \<Longrightarrow> takeWhile P (w @ c # r) = w"
  by (induction w) auto

lemma ch_append: "cstr m = w @ c # r \<Longrightarrow> ch m (length w) = c"
  by (subst ch_cstr(1)) auto

lemma isspace_classes: "isspace c \<Longrightarrow> \<not> isdigit c \<and> \<not> isalnum c \<and> \<not> ispunct c \<and> c \<noteq> NUL"
  by (auto simp: isspace_def isdigit_def isalnum_def isalpha_def ispunct_def)

lemma isalpha_not_isdigit: "isalpha c \<Longrightarrow> \<not> isdigit c"
  using order_trans [of "CHR ''a''" c "CHR ''9''"] order_trans [of "CHR ''A''" c "CHR ''9''"]
  by (auto simp: isdigit_def isalpha_def)

lemma bytes_prefix: "n \<le> length m \<Longrightarrow> bytes m 0 n = take n m"
  by (auto simp: bytes_def ch_def intro!: nth_equalityI)

lemma take_cstr: "n \<le> length (cstr m) \<Longrightarrow> take n m = take n (cstr m)"
  using cstr_prefix [of m] by (metis take_append diff_is_0_eq' take_0 append_Nil2)

lemma length_cstr_le: "length (cstr m) \<le> length m"
  by (simp add: cstr_def length_takeWhile_le)

text \<open>A number: its digits go to the start of the value, without a terminator.\<close>

lemma lex_number:
  assumes m: "cstr (p_buffer p) = d @ c # r" "length d + length r < 8190" and d: "d \<noteq> []" "list_all isdigit d"
    and c: "isspace c"
  shows "gives p T_NUMBER (overlay d (overlay [NUL] (p_value p))) r (lex p)"
proof -
  let ?m = "p_buffer p" and ?q = "start_token p"
  obtain x xs where x: "d = x # xs" "isdigit x" using d by (cases d) auto
  have h: "ch ?m 0 = x" using m(1) x by (subst ch_cstr(1)) auto
  have x': "x \<noteq> NUL" "\<not> isspace x" "x \<notin> {CHR ''#'', CHR ''{'', CHR ''}''}"
    using x(2) by (auto simp: isdigit_def isspace_def)
  have 0: "run_end isspace ?m 0 = 0" using m(1) x x' by (simp add: run_end_cstr)
  have e: "run_end isdigit ?m 0 = length d"
    using takeWhile_until [OF d(2), of c r] isspace_classes [OF c] by (simp add: run_end_cstr m(1))
  have b: "bytes ?m 0 (length d) = d"
    using length_cstr_le [of ?m] take_cstr [of "length d" ?m] m(1) by (simp add: bytes_prefix)
  have "lex p = accept ?q T_NUMBER (overlay d (p_value ?q)) ?m (length d)"
    using h x(2) x' 0 e b ch_append [OF m(1)] c
    by (subst lex.simps) (simp add: Let_def lex_token_def lex_digits_def at_end_def)
  moreover have "gives ?q T_NUMBER (overlay d (p_value ?q)) (drop (length d) (cstr (p_buffer ?q)))
      (accept ?q T_NUMBER (overlay d (p_value ?q)) ?m (length d))"
    using m by (intro accept_gives) auto
  ultimately show ?thesis using m(1) c by (simp add: gives_def)
qed

text \<open>A word that is neither a number nor a pattern.\<close>

definition plain_word :: "string \<Rightarrow> bool" where
  "plain_word w \<longleftrightarrow> w \<noteq> [] \<and> (isalpha (hd w) \<or> hd w = CHR ''/'') \<and> list_all (\<lambda>c. isalnum c \<or> ispunct c) w \<and>
     take 2 w \<noteq> ''m/''"

lemma lex_plain:
  assumes m: "cstr (p_buffer p) = w @ c # r" "length w + length r < 8190" and w: "plain_word w" and c: "isspace c"
  shows "gives p (if keyword w = T_NONE then T_STRING else keyword w)
    (if keyword w = T_NONE then overlay (w @ [NUL]) (overlay [NUL] (p_value p)) else overlay [NUL] (p_value p)) r (lex p)"
proof -
  let ?m = "p_buffer p" and ?q = "start_token p"
  obtain x xs where x: "w = x # xs" "isalpha x \<or> x = CHR ''/''" using w by (cases w) (auto simp: plain_word_def)
  have h: "ch ?m 0 = x" using m(1) x by (subst ch_cstr(1)) auto
  have x': "x \<noteq> NUL" "\<not> isspace x" "\<not> isdigit x" "x \<notin> {CHR ''#'', CHR ''{'', CHR ''}''}" "isalnum x \<or> x = CHR ''/''"
    using x(2) isalpha_not_isdigit [of x] by (auto simp: isdigit_def isspace_def isalpha_def isalnum_def)
  have 0: "run_end isspace ?m 0 = 0" using m(1) x x' by (simp add: run_end_cstr)
  have pat: "\<not> (x = CHR ''m'' \<and> ch ?m 1 = CHR ''/'')"
  proof
    assume a: "x = CHR ''m'' \<and> ch ?m 1 = CHR ''/''"
    have "ch ?m 1 = (case xs of [] \<Rightarrow> c | y # _ \<Rightarrow> y)"
      using m(1) x(1) by (subst ch_cstr(1)) (auto split: list.split)
    with a w c x(1) show False by (auto simp: plain_word_def isspace_def split: list.splits)
  qed
  let ?P = "\<lambda>c. isalnum c \<or> ispunct c"
  have "list_all ?P xs" using w x(1) by (simp add: plain_word_def)
  then have e: "run_end ?P ?m (Suc 0) = length w"
    using takeWhile_until [of ?P xs c r] isspace_classes [OF c] by (simp add: run_end_cstr m(1) x(1))
  let ?n = "?m[length w := NUL]"
  have len: "Suc (length w) \<le> length ?m" using length_cstr_le [of ?m] m(1) by simp
  have tk: "take (length w) ?m = w" using take_cstr [of "length w" ?m] m(1) by simp
  have n: "take (Suc (length w)) ?n = w @ [NUL]"
    using len tk by (simp add: take_Suc_conv_app_nth take_update_cancel)
  have cw: "cstring w" using cstring_cstr [of ?m] m(1) by (auto simp: cstring_def)
  have "?n = w @ NUL # drop (Suc (length w)) ?m" using len tk by (subst upd_conv_take_nth_drop) auto
  then have k: "cstr ?n = w" using cstr_append_NUL [OF cw] by simp
  have b: "bytes ?n 0 (Suc (length w)) = w @ [NUL]" using len n by (subst bytes_prefix) simp_all
  let ?t = "if keyword w = T_NONE then T_STRING else keyword w"
  let ?v = "if keyword w = T_NONE then overlay (w @ [NUL]) (overlay [NUL] (p_value p)) else overlay [NUL] (p_value p)"
  have word: "lex_word ?q 0 0 = accept ?q ?t ?v ?n (Suc (length w))"
    using h x'(5) e ch_append [OF m(1)] c k b by (simp add: lex_word_def Let_def at_end_def)
  have "lex_pattern ?q 0 0 = lex_word ?q 0 0"
    using h pat by (simp add: lex_pattern_def Let_def)
  then have "lex p = accept ?q ?t ?v ?n (Suc (length w))"
    using h x' 0 by (subst lex.simps) (simp add: Let_def lex_token_def lex_digits_def word)
  moreover have "gives ?q ?t ?v (drop (Suc (length w)) (cstr (p_buffer ?q))) (accept ?q ?t ?v ?n (Suc (length w)))"
    using m by (intro accept_gives) auto
  ultimately show ?thesis using m(1) by (simp split del: if_split)
qed

section \<open>Settings\<close>

text \<open>The next line of the file, when nothing of the last one is left.\<close>

lemma get_line_step:
  assumes "p_io p = l @ CHR 0x0A # rest" "line_ok l" "l \<noteq> []" "\<not> isspace (hd l)" "hd l \<noteq> CHR ''#''"
  shows "get_line p = (True, p\<lparr>p_io := rest, p_line := p_line p + 1, p_buffer := overlay (l @ [CHR 0x0A, NUL]) (p_buffer p)\<rparr>)"
proof -
  let ?raw = "l @ [CHR 0x0A]"
  have f: "fgets 8191 (p_io p) = (?raw, rest)"
    using fgets_line [of l 8191 rest] assms(1,2) by (auto simp: line_ok_def list_all_iff)
  have c: "cstring ?raw" using assms(2) by (simp add: line_ok_def cstring_def list_all_iff) blast
  obtain x xs where x: "l = x # xs" using assms(3) by (cases l) auto
  have s: "skip_blank ?raw = ?raw" using assms(4,5) x cstr_id [OF c] by (simp add: skip_blank_def Let_def)
  have "p_io p \<noteq> []" using assms(1) by simp
  then show ?thesis by (subst get_line.simps) (simp add: f s Let_def)
qed

lemma lex_next_line:
  assumes "cstr (p_buffer p) = []" "p_io p = l @ CHR 0x0A # rest" "line_ok l" "l \<noteq> []" "\<not> isspace (hd l)" "hd l \<noteq> CHR ''#''"
  shows "\<exists>q. lex p = lex q \<and> p_io q = rest \<and> p_eof q = p_eof p \<and> p_value q = p_value p \<and>
    cstr (p_buffer q) = l @ [CHR 0x0A]"
proof -
  let ?q = "p\<lparr>p_io := rest, p_line := p_line p + 1, p_buffer := overlay (l @ [CHR 0x0A, NUL]) (p_buffer p)\<rparr>"
  have "ch (p_buffer p) 0 = NUL" using ch_cstr(3) [of "p_buffer p"] assms(1) by simp
  then have "lex p = lex ?q" using get_line_step [OF assms(2-)] by (subst lex.simps) simp
  moreover have "cstring (l @ [CHR 0x0A])" using assms(3) by (simp add: line_ok_def cstring_def list_all_iff) blast
  then have "cstr (p_buffer ?q) = l @ [CHR 0x0A]" using cstr_overlay [of "l @ [CHR 0x0A]"] by simp
  ultimately show ?thesis by (intro exI [of _ ?q]) simp
qed

lemma plain_hd: "plain_word w \<Longrightarrow> w \<noteq> [] \<and> \<not> isspace (hd w) \<and> hd w \<noteq> CHR ''#'' \<and> \<not> isdigit (hd w)"
  using isalpha_not_isdigit [of "hd w"] by (auto simp: plain_word_def isspace_def isdigit_def isalpha_def)

lemma plain_chars: "plain_word w \<Longrightarrow> c \<in> set w \<Longrightarrow> c \<noteq> CHR 0x0A \<and> c \<noteq> NUL"
  by (auto simp: plain_word_def list_all_iff isalnum_def isalpha_def isdigit_def ispunct_def)

text \<open>The line \<open>key word\<close>: a keyword and then its word.\<close>

lemma lex_setting:
  assumes "cstr (p_buffer p) = []" "p_io p = k @ CHR '' '' # w @ CHR 0x0A # rest" "plain_word k" "plain_word w"
    "keyword k \<noteq> T_NONE" "keyword w = T_NONE" "length k + length w < 8180"
  shows "\<exists>q1 q2. lex p = Inr (True, q1) \<and> p_token q1 = keyword k \<and> lex q1 = Inr (True, q2) \<and> p_token q2 = T_STRING \<and>
    tok_value q2 = w \<and> p_io q2 = rest \<and> p_eof q2 = p_eof p \<and> cstr (p_buffer q2) = []"
proof -
  let ?l = "k @ CHR '' '' # w"
  have "line_ok ?l" using assms(3,4,7) by (auto simp: line_ok_def list_all_iff dest: plain_chars)
  moreover have "?l \<noteq> []" "hd ?l = hd k" using plain_hd [OF assms(3)] by (auto simp: hd_append)
  ultimately obtain q where q: "lex p = lex q" "p_io q = rest" "p_eof q = p_eof p"
    "cstr (p_buffer q) = k @ CHR '' '' # w @ [CHR 0x0A]"
    using lex_next_line [of p ?l rest] assms(1,2) plain_hd [OF assms(3)] by auto
  obtain y ys where w: "w = y # ys" "\<not> isspace y" using plain_hd [OF assms(4)] by (cases w) auto
  from lex_plain [OF q(4) _ assms(3)] assms(5,7) w obtain q1 where q1: "lex q = Inr (True, q1)" "p_io q1 = rest"
    "p_eof q1 = p_eof p" "p_token q1 = keyword k" "cstr (p_buffer q1) = w @ [CHR 0x0A]"
    by (auto simp: gives_def q isspace_def)
  have sp: "isspace (CHR 0x0A)" by (simp add: isspace_def)
  from lex_plain [OF q1(5) _ assms(4) sp] assms(6,7) obtain q2 where q2: "lex q1 = Inr (True, q2)" "p_io q2 = rest"
    "p_eof q2 = p_eof p" "p_token q2 = T_STRING" "p_value q2 = overlay (w @ [NUL]) (overlay [NUL] (p_value q1))"
    "cstr (p_buffer q2) = []"
    by (auto simp: gives_def q1)
  have "cstring w" using plain_chars [OF assms(4)] by (auto simp: cstring_def)
  then have "tok_value q2 = w" by (simp add: tok_value_def q2(5) cstr_overlay)
  with q q1 q2 show ?thesis by auto
qed

definition string_settings :: "(string \<times> (string option \<Rightarrow> config_t \<Rightarrow> config_t)) list" where
  "string_settings =
     [(''listener'', \<lambda>v f. f\<lparr>c_listener := v\<rparr>), (''controller'', \<lambda>v f. f\<lparr>c_controller := v\<rparr>),
      (''broadcast'', \<lambda>v f. f\<lparr>c_broadcast := v\<rparr>), (''beacon'', \<lambda>v f. f\<lparr>c_beacon := v\<rparr>),
      (''user'', \<lambda>v f. f\<lparr>c_runas_user := v\<rparr>), (''group'', \<lambda>v f. f\<lparr>c_runas_group := v\<rparr>),
      (''pidfile'', \<lambda>v f. f\<lparr>c_pidfile := v\<rparr>), (''savefile'', \<lambda>v f. f\<lparr>c_savefile := v\<rparr>),
      (''keysfile'', \<lambda>v f. f\<lparr>c_keysfile := v\<rparr>)]"

definition setting_ok :: "string \<times> string \<Rightarrow> bool" where
  "setting_ok = (\<lambda>(k, w). map_of string_settings k \<noteq> None \<and> plain_word w \<and> keyword w = T_NONE \<and> length w < 8160)"

definition apply_setting :: "string \<times> string \<Rightarrow> config_t \<Rightarrow> config_t" where
  "apply_setting = (\<lambda>(k, w) f. case map_of string_settings k of Some g \<Rightarrow> g (Some w) f | None \<Rightarrow> f)"

lemma setting_keyword:
  assumes "map_of string_settings k = Some g"
  shows "plain_word k \<and> keyword k \<noteq> T_NONE \<and> keyword k \<noteq> T_KEYWORD_TYPE \<and> length k < 20"
    and "p_token q = keyword k \<Longrightarrow> directive E q c = SERVER_STRING g q c"
proof -
  have k: "k \<in> {''listener'', ''controller'', ''broadcast'', ''beacon'', ''user'', ''group'', ''pidfile'', ''savefile'', ''keysfile''}"
    using assms by (auto simp: string_settings_def split: if_splits)
  then have p: "plain_word k" by (elim insertE emptyE) (simp_all add: plain_word_def isalpha_def isalnum_def)
  from k have "length k < 20" by (elim insertE emptyE) simp_all
  moreover from k have "keyword k \<noteq> T_NONE \<and> keyword k \<noteq> T_KEYWORD_TYPE"
    by (elim insertE emptyE) (simp_all add: keyword_def keyword_table_def)
  ultimately show "plain_word k \<and> keyword k \<noteq> T_NONE \<and> keyword k \<noteq> T_KEYWORD_TYPE \<and> length k < 20" using p by simp
  assume "p_token q = keyword k"
  with k assms show "directive E q c = SERVER_STRING g q c"
    by (elim insertE emptyE) (simp_all add: string_settings_def keyword_def keyword_table_def directive_def)
qed

definition settings_text :: "(string \<times> string) list \<Rightarrow> string" where
  "settings_text kvs = concat (map (\<lambda>(k, w). k @ '' '' @ w @ [CHR 0x0A]) kvs)"

text \<open>The reader passes lines of settings one step each, and comes to what follows them.\<close>

lemma settings_run:
  assumes "list_all setting_ok kvs" "cstr (p_buffer p) = []" "p_io p = settings_text kvs @ rest"
  shows "\<exists>q. cstr (p_buffer q) = [] \<and> p_io q = rest \<and> (\<forall>n. config_loop n E p c =
    (if n < length kvs then None else config_loop (n - length kvs) E q (upd_config (fold apply_setting kvs) c)))"
  using assms
proof (induction kvs arbitrary: p c)
  case Nil
  then show ?case by (intro exI [of _ p]) (simp add: settings_text_def upd_config_def)
next
  case (Cons kw kvs)
  obtain k w where kw: "kw = (k, w)" by fastforce
  obtain g where g: "map_of string_settings k = Some g" using Cons.prems(1) by (auto simp: kw setting_ok_def)
  note key = setting_keyword(1) [OF g]
  have "p_io p = k @ CHR '' '' # w @ CHR 0x0A # settings_text kvs @ rest" using Cons.prems(3) by (simp add: settings_text_def kw)
  then obtain q1 q2 where q: "lex p = Inr (True, q1)" "p_token q1 = keyword k" "lex q1 = Inr (True, q2)" "p_token q2 = T_STRING"
    "tok_value q2 = w" "p_io q2 = settings_text kvs @ rest" "cstr (p_buffer q2) = []"
    using lex_setting [OF Cons.prems(2) _ _ _ _ _, of k w "settings_text kvs @ rest"] key Cons.prems(1) by (auto simp: kw setting_ok_def)
  have d: "directive E q1 c = go_on q2 (upd_config (apply_setting kw) c)"
    using q by (simp add: setting_keyword(2) [OF g q(2)] SERVER_STRING_def NEXT_def apply_setting_def kw g)
  have t: "p_token q1 \<noteq> T_KEYWORD_TYPE" using q(2) key by simp
  from Cons.IH [OF _ q(7,6), of "upd_config (apply_setting kw) c"] Cons.prems(1) obtain q3
    where q3: "cstr (p_buffer q3) = []" "p_io q3 = rest" "\<And>n. config_loop n E q2 (upd_config (apply_setting kw) c) =
      (if n < length kvs then None
       else config_loop (n - length kvs) E q3 (upd_config (fold apply_setting kvs) (upd_config (apply_setting kw) c)))"
    by auto
  have "config_loop n E p c = (if n < length (kw # kvs) then None
      else config_loop (n - length (kw # kvs)) E q3 (upd_config (fold apply_setting (kw # kvs)) c))" for n
    using q(1) t d q3(3) by (cases n) (simp_all add: go_on_def upd_config_def)
  with q3(1,2) show ?case by blast
qed

lemma settings_loop:
  assumes "list_all setting_ok kvs" "cstr (p_buffer p) = []" "p_io p = settings_text kvs" "length kvs < n"
  shows "\<exists>q. config_loop n E p c = Some (Inr (True, q, upd_config (fold apply_setting kvs) c))"
proof -
  obtain q where q: "cstr (p_buffer q) = []" "p_io q = []"
    "config_loop n E p c = config_loop (n - length kvs) E q (upd_config (fold apply_setting kvs) c)"
    using settings_run [OF assms(1,2), of "[]" E c] assms(3,4) by auto
  have "ch (p_buffer q) 0 = NUL" using ch_cstr(3) [of "p_buffer q"] q(1) by simp
  then have "lex q = Inr (False, q\<lparr>p_eof := True\<rparr>)"
    using q(2) by (subst lex.simps) (simp add: get_line.simps)
  moreover obtain m where "n - length kvs = Suc m" using assms(4) by (cases "n - length kvs") auto
  ultimately show ?thesis by (simp add: q(3))
qed

text \<open>
  C17: a file of lines \<open>key word\<close>, where each key is one of the nine text
  settings and each word is a plain word, is accepted and changes exactly these
  settings, a later line overriding an earlier one; the tables of the database come
  out empty.
\<close>

theorem config_settings:
  assumes "file_data E path = settings_text kvs" "sys_ok E Sys_fopen path" "list_all setting_ok kvs" "length kvs < fuel"
  shows "configure fuel E path s =
    Some (Inr (0, (clear_db s)\<lparr>s_config := fold apply_setting kvs (s_config s)\<rparr>))"
proof -
  let ?c = "\<lparr>cf_server = clear_db s, cf_default_type = None, cf_default_win = None\<rparr>"
  have "cstr (p_buffer (fresh_parser (settings_text kvs))) = []" by (simp add: fresh_parser_def cstr_def)
  from settings_loop [OF assms(3) this _ assms(4), of E ?c] obtain q where
    "config_loop fuel E (fresh_parser (settings_text kvs)) ?c = Some (Inr (True, q, upd_config (fold apply_setting kvs) ?c))"
    by (auto simp: fresh_parser_def)
  then show ?thesis by (simp add: configure_def assms(1,2) Let_def upd_config_def clear_db_def)
qed

theorem config_settings_witness:
  "configure 3 (plain_env\<lparr>file_data := (\<lambda>_. settings_text [(''listener'', ''tcp://*:2999''), (''user'', ''bolo'')])\<rparr>)
     ''/etc/bolo.conf'' demo_server =
   Some (Inr (0, (clear_db demo_server)\<lparr>s_config :=
     (s_config demo_server)\<lparr>c_listener := Some ''tcp://*:2999'', c_runas_user := Some ''bolo''\<rparr>\<rparr>))"
proof -
  let ?kvs = "[(''listener'', ''tcp://*:2999''), (''user'', ''bolo'')]"
  have "list_all setting_ok ?kvs"
    by (simp add: setting_ok_def string_settings_def plain_word_def keyword_def keyword_table_def isalpha_def isalnum_def
      isdigit_def ispunct_def)
  moreover have "fold apply_setting ?kvs (s_config demo_server) =
      (s_config demo_server)\<lparr>c_listener := Some ''tcp://*:2999'', c_runas_user := Some ''bolo''\<rparr>"
    by (simp add: apply_setting_def string_settings_def)
  ultimately show ?thesis
    by (subst config_settings [where kvs = ?kvs]) (simp_all add: plain_env_def)
qed

section \<open>A file that is never read to its end\<close>

lemmas lex_eval = lex.simps lex_token_def lex_digits_def lex_pattern_def lex_word_def accept_def start_token_def
  run_end_def ch_def at_end_def bytes_def keyword_def keyword_table_def overlay_def cstr_def isspace_def isdigit_def
  isalnum_def isalpha_def ispunct_def Let_def

text \<open>After the last word the lexer goes on behind the terminator of the buffer, where the copy of that word still is.\<close>

lemma dumpfiles_again:
  assumes "p_buffer p = ''dumpfiles'' @ NUL # ''dumpfiles'' @ NUL # tail"
  shows "lex p = Inr (True, (start_token p)\<lparr>p_token := T_KEYWORD_DUMPFILES\<rparr>)"
  using assms by (simp add: lex_eval)

lemma dumpfiles_loop:
  assumes "p_buffer p = ''dumpfiles'' @ NUL # ''dumpfiles'' @ NUL # tail"
  shows "config_loop n E p c = None"
  using assms
proof (induction n arbitrary: p)
  case (Suc n)
  let ?q = "(start_token p)\<lparr>p_token := T_KEYWORD_DUMPFILES\<rparr>"
  have "config_loop n E ?q c = None" by (rule Suc.IH) (simp add: Suc.prems)
  then show ?case by (simp add: dumpfiles_again [OF Suc.prems] directive_def go_on_def)
qed simp

lemma fgets_end: "CHR 10 \<notin> set s \<Longrightarrow> length s \<le> n \<Longrightarrow> fgets n s = (s, [])"
  by (induction n s rule: fgets.induct) (auto split: prod.splits)

lemma dumpfiles_last_line:
  assumes "cstr (p_buffer p) = []" "p_io p = ''dumpfiles dumpfiles''"
  shows "config_loop n E p c = None"
proof (cases n)
  case (Suc m)
  let ?l = "p\<lparr>p_io := [], p_line := p_line p + 1, p_eof := True, p_buffer := overlay (''dumpfiles dumpfiles'' @ [NUL]) (p_buffer p)\<rparr>"
  have g: "get_line p = (True, ?l)"
    by (subst get_line.simps) (simp add: assms(2) fgets_end Let_def skip_blank_def cstr_def isspace_def)
  have "ch (p_buffer p) 0 = NUL" using ch_cstr(3) [of "p_buffer p"] assms(1) by simp
  then have "lex p = lex ?l" by (subst lex.simps) (simp add: g)
  moreover obtain q rest where q: "lex ?l = Inr (True, q)" "p_token q = T_KEYWORD_DUMPFILES"
    "p_buffer q = ''dumpfiles'' @ NUL # ''dumpfiles'' @ NUL # rest"
    by (simp add: lex_eval)
  ultimately show ?thesis
    using dumpfiles_loop [OF q(3), of m E c] by (simp add: Suc directive_def go_on_def)
qed simp

text \<open>
  C18: a configuration file of any text settings, each on a line of its own, followed by the
  words \<open>dumpfiles dumpfiles\<close> and no newline is never read to its end, whatever number of steps the
  reader is given.
\<close>

theorem config_hang:
  assumes "file_data E path = settings_text kvs @ ''dumpfiles dumpfiles''" "list_all setting_ok kvs" "sys_ok E Sys_fopen path"
  shows "configure fuel E path s = None"
proof -
  let ?p = "fresh_parser (file_data E path)"
  let ?c = "\<lparr>cf_server = clear_db s, cf_default_type = None, cf_default_win = None\<rparr>"
  have "cstr (p_buffer ?p) = []" "p_io ?p = settings_text kvs @ ''dumpfiles dumpfiles''"
    by (simp_all add: fresh_parser_def cstr_def assms(1))
  from settings_run [OF assms(2) this, of E ?c] have "config_loop fuel E ?p ?c = None"
    using dumpfiles_last_line by (cases "fuel < length kvs") auto
  then show ?thesis by (simp add: configure_def assms(3) Let_def)
qed

theorem config_hang_witness:
  "configure 1000 (plain_env\<lparr>file_data := (\<lambda>_. settings_text [(''user'', ''bolo'')] @ ''dumpfiles dumpfiles'')\<rparr>) ''/etc/bolo.conf''
    demo_server = None"
proof (rule config_hang [where kvs = "[(''user'', ''bolo'')]"])
  show "list_all setting_ok [(''user'', ''bolo'')]"
    by (simp add: setting_ok_def string_settings_def plain_word_def keyword_def keyword_table_def isalpha_def isalnum_def
      isdigit_def ispunct_def)
qed (simp_all add: plain_env_def)

section \<open>Numbers\<close>

lemma overlay_start: "d \<noteq> [] \<Longrightarrow> overlay d (overlay [NUL] v) = overlay d v"
  by (cases d) (auto simp: overlay_def drop_Cons')

text \<open>The line \<open>key number\<close>: the digits are written over what the value held before.\<close>

lemma lex_number_setting:
  assumes "cstr (p_buffer p) = []" "p_io p = k @ CHR '' '' # d @ CHR 0x0A # rest" "plain_word k" "keyword k \<noteq> T_NONE"
    "d \<noteq> []" "list_all isdigit d" "length k + length d < 8180"
  shows "\<exists>q1 q2. lex p = Inr (True, q1) \<and> p_token q1 = keyword k \<and> lex q1 = Inr (True, q2) \<and> p_token q2 = T_NUMBER \<and>
    p_value q2 = overlay d (p_value p) \<and> p_io q2 = rest \<and> cstr (p_buffer q2) = []"
proof -
  let ?l = "k @ CHR '' '' # d"
  have d: "c \<in> set d \<Longrightarrow> c \<noteq> CHR 0x0A \<and> c \<noteq> NUL \<and> \<not> isspace c" for c
    using assms(6) by (auto simp: list_all_iff isdigit_def isspace_def)
  have "line_ok ?l" using assms(3,7) by (auto simp: line_ok_def list_all_iff dest: plain_chars d)
  moreover have "?l \<noteq> []" "hd ?l = hd k" using plain_hd [OF assms(3)] by (auto simp: hd_append)
  ultimately obtain q where q: "lex p = lex q" "p_io q = rest" "p_value q = p_value p"
    "cstr (p_buffer q) = k @ CHR '' '' # d @ [CHR 0x0A]"
    using lex_next_line [of p ?l rest] assms(1,2) plain_hd [OF assms(3)] by auto
  obtain y ys where y: "d = y # ys" "\<not> isspace y" using assms(5) d by (cases d) auto
  from lex_plain [OF q(4) _ assms(3)] assms(4,7) y obtain q1 where q1: "lex q = Inr (True, q1)" "p_io q1 = rest"
    "p_value q1 = overlay [NUL] (p_value p)" "p_token q1 = keyword k" "cstr (p_buffer q1) = d @ [CHR 0x0A]"
    by (auto simp: gives_def q isspace_def)
  have sp: "isspace (CHR 0x0A)" by (simp add: isspace_def)
  from lex_number [OF q1(5) _ assms(5,6) sp] assms(7) obtain q2 where q2: "lex q1 = Inr (True, q2)" "p_io q2 = rest"
    "p_token q2 = T_NUMBER" "p_value q2 = overlay d (overlay [NUL] (p_value q1))" "cstr (p_buffer q2) = []"
    by (auto simp: gives_def q1)
  with q q1 assms(5) show ?thesis by (auto simp: overlay_start)
qed

lemma number_keywords:
  "plain_word ''save.size'' \<and> keyword ''save.size'' = T_KEYWORD_SAVE_SIZE"
  "plain_word ''sweep'' \<and> keyword ''sweep'' = T_KEYWORD_SWEEP"
  by (simp_all add: plain_word_def isalpha_def isalnum_def isdigit_def ispunct_def keyword_def keyword_table_def)

lemma cstring_digits: "list_all isdigit d \<Longrightarrow> cstring d"
  by (auto simp: cstring_def list_all_iff)

text \<open>
  Note: a number that is shorter than the one read before it keeps the
  tail of that one, because the lexer does not terminate the copy: with
  \<open>save.size 100\<close> before it, \<open>sweep 5\<close> sets the sweep interval to 500.
\<close>

theorem config_stale_digits:
  assumes "file_data E path = ''save.size '' @ d1 @ [CHR 0x0A] @ ''sweep '' @ d2 @ [CHR 0x0A]" "sys_ok E Sys_fopen path"
    "list_all isdigit d1" "list_all isdigit d2" "d2 \<noteq> []" "length d2 \<le> length d1" "length d1 < 8000" "2 < fuel"
  shows "\<exists>s'. configure fuel E path s = Some (Inr (0, s')) \<and> c_save_size (s_config s') = atoi d1 \<and>
    i_sweep (s_interval s') = ucast (atoi (d2 @ drop (length d2) d1))"
proof -
  define p where "p = fresh_parser (file_data E path)"
  let ?c = "\<lparr>cf_server = clear_db s, cf_default_type = None, cf_default_win = None\<rparr>"
  have p: "cstr (p_buffer p) = []" "p_value p = []"
    "p_io p = ''save.size'' @ CHR '' '' # d1 @ CHR 0x0A # ''sweep'' @ CHR '' '' # d2 @ [CHR 0x0A]"
    by (simp_all add: p_def assms(1) fresh_parser_def cstr_def)
  have d1: "d1 \<noteq> []" using assms(5,6) by auto
  obtain q1 q2 where q: "lex p = Inr (True, q1)" "p_token q1 = T_KEYWORD_SAVE_SIZE" "lex q1 = Inr (True, q2)"
    "p_token q2 = T_NUMBER" "p_value q2 = d1" "p_io q2 = ''sweep'' @ CHR '' '' # d2 @ [CHR 0x0A]" "cstr (p_buffer q2) = []"
    using lex_number_setting [OF p(1,3) _ _ d1 assms(3)] number_keywords(1) p(2) assms(7) by (auto simp: overlay_def)
  obtain q3 q4 where r: "lex q2 = Inr (True, q3)" "p_token q3 = T_KEYWORD_SWEEP" "lex q3 = Inr (True, q4)"
    "p_token q4 = T_NUMBER" "p_value q4 = d2 @ drop (length d2) d1" "p_io q4 = []" "cstr (p_buffer q4) = []"
    using lex_number_setting [OF q(7) _ _ _ assms(5,4), of "''sweep''" "[]"] number_keywords(2) q(5,6) assms(6,7)
    by (auto simp: overlay_def)
  have e: "lex q4 = Inr (False, q4\<lparr>p_eof := True\<rparr>)"
    using r(6,7) ch_cstr(3) [of "p_buffer q4"] by (subst lex.simps) (simp add: get_line.simps)
  have "list_all isdigit (d2 @ drop (length d2) d1)" using assms(3,4) by (auto simp: list_all_iff dest: in_set_dropD)
  from cstr_id [OF cstring_digits [OF this]] cstr_id [OF cstring_digits [OF assms(3)]]
  have v: "tok_value q2 = d1" "tok_value q4 = d2 @ drop (length d2) d1" by (simp_all add: tok_value_def q r)
  obtain n where n: "fuel = Suc (Suc (Suc n))" using assms(8) by (metis add_2_eq_Suc less_iff_Suc_add)
  show ?thesis
    by (simp add: configure_def assms(2) Let_def p_def [symmetric] n q r e v directive_def number_directive_def NEXT_def go_on_def
      upd_config_def upd_interval_def)
qed

theorem config_stale_digits_witness:
  "\<exists>s'. configure 3 (plain_env\<lparr>file_data := (\<lambda>_. ''save.size '' @ ''100'' @ [CHR 0x0A] @ ''sweep '' @ ''5'' @ [CHR 0x0A])\<rparr>)
      ''/etc/bolo.conf'' demo_server = Some (Inr (0, s')) \<and> i_sweep (s_interval s') = 500"
proof -
  have "atoi ''500'' = 500"
    by (simp add: atoi_def strtol_def strip_sign_def isspace_def isdigit_def digits_val_def digit_val_def)
  then show ?thesis
    using config_stale_digits [of "plain_env\<lparr>file_data := (\<lambda>_. ''save.size '' @ ''100'' @ [CHR 0x0A] @ ''sweep '' @ ''5'' @ [CHR 0x0A])\<rparr>"
        "''/etc/bolo.conf''" "''100''" "''5''" 3 demo_server]
    by (auto simp: isdigit_def plain_env_def)
qed

end
