(* ===== verification/Bolo_Config_Inv.thy ===== *)
theory Bolo_Config_Inv
  imports Bolo_Config_Read
begin

text \<open>
  What an accepted configuration promises the kernel: everything of the database
  invariant but the length of the windows, and what a window of no length does.
\<close>

section \<open>What a configuration promises the kernel\<close>

text \<open>
  After every directive: entries are listed under their own names, states and state
  rules have a type with a summary, and so has every type that can be named.
\<close>

definition declared_ok :: "db_t \<Rightarrow> bool" where
  "declared_ok d \<longleftrightarrow> fmpred state_ok (states d) \<and> fmpred (\<lambda>k c. counter_name c = k) (counters d) \<and>
     fmpred (\<lambda>k s. sample_name s = k) (samples d) \<and> fmpred (\<lambda>k r. rate_name r = k) (rates d) \<and>
     list_all (\<lambda>r. type_summary (re_state_type r) \<noteq> None) (state_matches d) \<and>
     fmpred (\<lambda>k t. type_summary t \<noteq> None) (types d)"

definition windows_ok :: "db_t \<Rightarrow> bool" where
  "windows_ok d \<longleftrightarrow> fmpred (\<lambda>k c. good_window (counter_window c)) (counters d) \<and>
     fmpred (\<lambda>k s. good_window (sample_window s)) (samples d) \<and> fmpred (\<lambda>k r. good_window (rate_window r)) (rates d) \<and>
     list_all (\<lambda>r. good_window (re_window r)) (counter_matches d @ sample_matches d @ rate_matches d)"

lemma declared_wf: "declared_ok d \<Longrightarrow> windows_ok d \<Longrightarrow> wf_db d"
  by (auto simp: declared_ok_def windows_ok_def wf_db_def rules_ok_def counter_ok_def sample_entry_ok_def rate_ok_def
    fmpred_iff)

definition keeps :: "cstep \<Rightarrow> bool" where
  "keeps r \<longleftrightarrow> (\<forall>q c. r = Inr (True, q, c) \<longrightarrow> declared_ok (cf_db c))"

named_theorems keeping \<open>directives that keep what a configuration promises\<close>

lemma keeps_bail [keeping]: "keeps (bail q c)"
  by (auto simp: keeps_def bail_def)

lemma keeps_go_on [keeping]: "declared_ok (cf_db c) \<Longrightarrow> keeps (go_on q c)"
  by (auto simp: keeps_def go_on_def)

lemma keeps_NEXT [keeping]: "(\<And>q. keeps (k q)) \<Longrightarrow> keeps (NEXT p c k)"
  by (auto simp: keeps_def NEXT_def bind_res_Inr_iff bail_def split: if_splits)

lemma keeps_if [keeping]: "(P \<Longrightarrow> keeps a) \<Longrightarrow> (\<not> P \<Longrightarrow> keeps b) \<Longrightarrow> keeps (if P then a else b)"
  by simp

lemma keeps_option [keeping]:
  "(x = None \<Longrightarrow> keeps a) \<Longrightarrow> (\<And>y. x = Some y \<Longrightarrow> keeps (f y)) \<Longrightarrow> keeps (case x of None \<Rightarrow> a | Some y \<Rightarrow> f y)"
  by (cases x) auto

lemma keeps_bind:
  "keeps r \<Longrightarrow> (\<And>q c. declared_ok (cf_db c) \<Longrightarrow> keeps (k True q c)) \<Longrightarrow> (\<And>q c. keeps (k False q c)) \<Longrightarrow>
    keeps (bind_res r (\<lambda>(ok, q, c). k ok q c))"
  unfolding keeps_def by (auto simp: bind_res_Inr_iff) (metis (full_types))

lemma upd_simps [simp]:
  "cf_db (upd_config f c) = cf_db c" "cf_db (upd_interval g c) = cf_db c" "cf_db (upd_db h c) = h (cf_db c)"
  by (simp_all add: upd_config_def upd_interval_def upd_db_def)

lemma declared_tables:
  assumes "declared_ok d"
  shows "declared_ok (d\<lparr>windows := ws\<rparr>)" "declared_ok (d\<lparr>anon_windows := as\<rparr>)" "declared_ok (d\<lparr>counter_matches := cs\<rparr>)"
    "declared_ok (d\<lparr>sample_matches := cs\<rparr>)" "declared_ok (d\<lparr>rate_matches := cs\<rparr>)" "declared_ok (counter_entry n w d)"
    "declared_ok (sample_entry n w d)" "declared_ok (rate_entry n w d)"
    "type_summary t \<noteq> None \<Longrightarrow> declared_ok (d\<lparr>types := fmupd m t (types d)\<rparr>)"
  using assms by (auto simp: declared_ok_def counter_entry_def sample_entry_def rate_entry_def)

lemma keeps_pick_window [keeping]:
  assumes "declared_ok (cf_db c)" "\<And>q c w. declared_ok (cf_db c) \<Longrightarrow> keeps (k q c w)"
  shows "keeps (pick_window p c k)"
  unfolding pick_window_def Let_def by (intro keeping assms) (simp_all add: assms declared_tables)

lemma keeps_metric [keeping]:
  assumes "declared_ok (cf_db c)" "\<And>n w d. declared_ok d \<Longrightarrow> declared_ok (entry n w d)"
    "\<And>r d. declared_ok d \<Longrightarrow> declared_ok (rule r d)"
  shows "keeps (metric_directive E entry rule p c)"
  unfolding metric_directive_def by (intro keeping assms) (simp_all add: assms)

lemma keeps_state [keeping]:
  assumes "declared_ok (cf_db c)"
  shows "keeps (state_directive E p c)"
proof -
  have "keeps (declare_state E type q c)" if "\<And>t. type = Some t \<Longrightarrow> type_summary t \<noteq> None" for type q
    unfolding declare_state_def Let_def using assms that
    by (intro keeping) (auto simp: declared_ok_def state_ok_def has_summary_def)
  moreover have "fmlookup (types (cf_db c)) n = Some t \<Longrightarrow> type_summary t \<noteq> None" for n t
    using assms by (auto simp: declared_ok_def dest: fmpredD)
  ultimately show ?thesis
    unfolding state_directive_def Let_def by (intro keeping) (auto split: option.splits)
qed

lemma keeps_directive:
  assumes "declared_ok (cf_db c)"
  shows "keeps (directive E p c)"
  unfolding directive_def counter_directive_def sample_directive_def rate_directive_def use_directive_def
    max_events_directive_def SERVER_STRING_def number_directive_def window_directive_def log_directive_def Let_def
  by (cases "p_token p"; simp; intro keeping keeps_bind; simp add: assms declared_tables)

lemma fmupd_twice: "fmupd k v (fmupd k w m) = fmupd k v m"
  by (rule fmap_ext) simp

lemma put_type_again: "type_name t' = type_name t \<Longrightarrow> put_type t' (put_type t c) = put_type t' c"
  by (simp add: put_type_def upd_db_def fmupd_twice)

lemma type_attribute_table:
  assumes "type_attribute t p (put_type t c) = Inr (ok, q, c', t')"
  shows "c' = put_type t' c \<and> type_name t' = type_name t"
  using assms
  by (auto simp: type_attribute_def Let_def bind_res_Inr_iff put_type_again split: if_splits option.splits)

lemma type_loop_table:
  "type_loop n t p (put_type t c) = Some (Inr (ok, q, c', t')) \<Longrightarrow> c' = put_type t' c \<and> type_name t' = type_name t"
proof (induction n arbitrary: t p)
  case (Suc n)
  then obtain b r where l: "lex p = Inr (b, r)" by (auto split: sum.splits)
  show ?case
  proof (cases "b \<and> p_token r \<noteq> T_CLOSE_BRACE")
    case True
    with Suc.prems l obtain b2 r2 c2 t2 where a: "type_attribute t r (put_type t c) = Inr (b2, r2, c2, t2)"
      by (auto split: sum.splits)
    from type_attribute_table [OF a] have c2: "c2 = put_type t2 c" "type_name t2 = type_name t" by auto
    show ?thesis
    proof (cases b2)
      case True
      with Suc.prems l a \<open>b \<and> p_token r \<noteq> T_CLOSE_BRACE\<close> c2 have
        "type_loop n t2 r2 (put_type t2 c) = Some (Inr (ok, q, c', t'))" by simp
      from Suc.IH [OF this] c2 show ?thesis by simp
    next
      case False
      with Suc.prems l a \<open>b \<and> p_token r \<noteq> T_CLOSE_BRACE\<close> c2 show ?thesis by auto
    qed
  next
    case False
    with Suc.prems l show ?thesis by (auto split: if_splits)
  qed
qed simp

lemma keeps_type:
  assumes d: "declared_ok (cf_db c)" and r: "type_directive n p c = Some r"
  shows "keeps r"
  unfolding keeps_def
proof (intro allI impI)
  fix q c' assume ok: "r = Inr (True, q, c')"
  with r obtain q1 q2 c2 t2 where
    loop: "type_loop n \<lparr>type_name = tok_value q1, freshness = 300, type_status = WARNING, type_summary = None\<rparr> q2
      (put_type \<lparr>type_name = tok_value q1, freshness = 300, type_status = WARNING, type_summary = None\<rparr> c) = Some (Inr (True, q, c2, t2))"
    and c': "c' = (if type_summary t2 = None then put_type (t2\<lparr>type_summary := Some (default_summary (freshness t2))\<rparr>) c2 else c2)"
    by (auto simp: type_directive_def Let_def bail_def bind_res_Inr_iff type_end_def split: sum.splits if_splits)
  from type_loop_table [OF loop] have "c2 = put_type t2 c" by blast
  with c' have "c' = put_type (if type_summary t2 = None then t2\<lparr>type_summary := Some (default_summary (freshness t2))\<rparr> else t2) c"
    by (simp add: put_type_again)
  then show "declared_ok (cf_db c')" using d by (auto simp: put_type_def intro!: declared_tables)
qed

lemma config_loop_declared:
  "declared_ok (cf_db c) \<Longrightarrow> config_loop n E p c = Some (Inr (True, q, c')) \<Longrightarrow> declared_ok (cf_db c')"
proof (induction n arbitrary: p c)
  case (Suc n)
  then obtain b r where l: "lex p = Inr (b, r)" by (auto split: sum.splits)
  show ?case
  proof (cases b)
    case True
    let ?d = "if p_token r = T_KEYWORD_TYPE then type_directive n r c else Some (directive E r c)"
    from Suc.prems(2) l True obtain b2 r2 c2 where d: "?d = Some (Inr (b2, r2, c2))"
      by (auto split: option.splits sum.splits)
    show ?thesis
    proof (cases b2)
      case b2: True
      with d have "keeps (Inr (True, r2, c2))"
        using keeps_type [OF Suc.prems(1), of n r] keeps_directive [OF Suc.prems(1), of E r] by (auto split: if_splits)
      then have "declared_ok (cf_db c2)" by (simp add: keeps_def)
      moreover have "config_loop n E r2 c2 = Some (Inr (True, q, c'))" using Suc.prems(2) l True d b2 by simp
      ultimately show ?thesis by (rule Suc.IH)
    next
      case False
      with Suc.prems(2) l True d show ?thesis by (simp add: bail_def)
    qed
  next
    case False
    with Suc.prems l show ?thesis by simp
  qed
qed simp

lemma configure_declared:
  assumes "configure fuel E path S = Some (Inr (0, S'))"
  shows "declared_ok (s_db S')"
proof -
  let ?c = "\<lparr>cf_server = clear_db S, cf_default_type = None, cf_default_win = None\<rparr>"
  have "declared_ok (cf_db ?c)" by (simp add: clear_db_def empty_db_def declared_ok_def)
  moreover from assms obtain q c' where "config_loop fuel E (fresh_parser (file_data E path)) ?c = Some (Inr (True, q, c'))"
    "S' = cf_server c'"
    by (auto simp: configure_def Let_def bind_res_Inr_iff split: if_splits)
  ultimately show ?thesis using config_loop_declared by blast
qed

section \<open>Windows of no length\<close>

text \<open>The name of a type or of a window.\<close>

lemma lex_sigil:
  assumes m: "cstr (p_buffer p) = x # n @ c # r" "length n + length r < 8180" and n: "list_all name_char n" and c: "isspace c"
    and x: "x = CHR '':'' \<and> t = T_TYPENAME \<or> x = CHR ''@'' \<and> t = T_WINDOWNAME"
  shows "gives p t (overlay (x # n @ [NUL]) (overlay [NUL] (p_value p))) r (lex p)"
proof -
  let ?m = "p_buffer p" and ?q = "start_token p" and ?w = "x # n"
  have m': "cstr ?m = ?w @ c # r" using m(1) by simp
  have h: "ch ?m 0 = x" using m(1) by (subst ch_cstr(1)) auto
  have x': "x \<noteq> NUL" "\<not> isspace x" "\<not> isdigit x" "\<not> isalnum x" "x \<notin> {CHR ''#'', CHR ''{'', CHR ''}'', CHR ''m'', CHR ''/''}"
    using x by (auto simp: isdigit_def isspace_def isalpha_def isalnum_def)
  have 0: "run_end isspace ?m 0 = 0" using m(1) x' by (simp add: run_end_cstr)
  have nc: "\<not> name_char c" using isspace_classes [OF c] c by (auto simp: name_char_def isspace_def)
  have e: "run_end name_char ?m (Suc 0) = length ?w"
    using takeWhile_until [OF n nc, of r] by (simp add: run_end_cstr m(1))
  let ?n = "?m[length ?w := NUL]"
  have len: "Suc (length ?w) \<le> length ?m" using length_cstr_le [of ?m] m(1) by simp
  have tk: "take (length ?w) ?m = ?w" using take_cstr [of "length ?w" ?m] m(1) by simp
  have b: "bytes ?n 0 (Suc (length ?w)) = ?w @ [NUL]"
    using len tk by (subst bytes_prefix) (simp_all add: take_Suc_conv_app_nth take_update_cancel del: list.size)
  have fin: "at_end ?m (length ?w)" using ch_append [OF m'] c by (simp add: at_end_def)
  have name: "lex_name x t k ?q 0 0 = accept ?q t (overlay (?w @ [NUL]) (p_value ?q)) ?n (Suc (length ?w))" for k
    using h e b fin by (simp add: lex_name_def Let_def del: list.size)
  have "lex_names ?q 0 0 = accept ?q t (overlay (?w @ [NUL]) (p_value ?q)) ?n (Suc (length ?w))"
  proof (cases "x = CHR '':''")
    case True
    with x name show ?thesis by (simp add: lex_names_def del: list.size)
  next
    case False
    then have "lex_name (CHR '':'') T_TYPENAME k ?q 0 0 = k ?q 0" for k using h by (simp add: lex_name_def Let_def)
    with x False name show ?thesis by (simp add: lex_names_def del: list.size)
  qed
  moreover have "lex p = lex_names ?q 0 0"
    using h x' 0 by (subst lex.simps) (simp add: Let_def lex_token_def lex_digits_def lex_pattern_def lex_word_def)
  moreover have "gives ?q t (overlay (?w @ [NUL]) (p_value ?q)) (drop (Suc (length ?w)) (cstr (p_buffer ?q)))
      (accept ?q t (overlay (?w @ [NUL]) (p_value ?q)) ?n (Suc (length ?w)))"
    using m by (intro accept_gives) auto
  ultimately show ?thesis using m(1) by simp
qed

text \<open>
  A file that declares a window of 0 seconds and a counter of that window. The number of a line is written over what the
  value buffer held, so the name of the window must not begin with a digit for the window to have that length.
\<close>

definition zero_window_text :: "string \<Rightarrow> string \<Rightarrow> string" where
  "zero_window_text w n = (''window @'' @ w @ '' 0'') @ CHR 0x0A # (''counter @'' @ w @ '' '' @ n) @ [CHR 0x0A]"

definition zero_names :: "string \<Rightarrow> string \<Rightarrow> bool" where
  "zero_names w n \<longleftrightarrow> w \<noteq> [] \<and> list_all name_char w \<and> \<not> isdigit (hd w) \<and> plain_word n \<and> keyword n = T_NONE \<and>
     length w + length n < 8000"

lemma name_char_plain: "name_char c \<Longrightarrow> c \<noteq> CHR 0x0A \<and> c \<noteq> NUL"
  by (auto simp: name_char_def isalnum_def isalpha_def isdigit_def)

lemma zero_window_tokens:
  assumes "zero_names w n"
  shows "\<exists>q1 q2 q3 q4 q5 q6 q7. lex (fresh_parser (zero_window_text w n)) = Inr (True, q1) \<and> p_token q1 = T_KEYWORD_WINDOW \<and>
     lex q1 = Inr (True, q2) \<and> p_token q2 = T_WINDOWNAME \<and> tok_value q2 = CHR ''@'' # w \<and>
     lex q2 = Inr (True, q3) \<and> p_token q3 = T_NUMBER \<and> tok_value q3 = CHR ''0'' # w \<and>
     lex q3 = Inr (True, q4) \<and> p_token q4 = T_KEYWORD_COUNTER \<and>
     lex q4 = Inr (True, q5) \<and> p_token q5 = T_WINDOWNAME \<and> tok_value q5 = CHR ''@'' # w \<and>
     lex q5 = Inr (True, q6) \<and> p_token q6 = T_STRING \<and> tok_value q6 = n \<and> lex q6 = Inr (False, q7) \<and> p_eof q7"
proof -
  let ?p = "fresh_parser (zero_window_text w n)"
  let ?l1 = "''window @'' @ w @ '' 0''" and ?l2 = "''counter @'' @ w @ '' '' @ n"
  have w: "list_all name_char w" "cstring w" and n: "plain_word n" "keyword n = T_NONE" "cstring n" and len: "length w + length n < 8000"
    using assms by (auto simp: zero_names_def cstring_def list_all_iff dest: name_char_plain plain_chars)
  note cls = isalpha_def isalnum_def isdigit_def ispunct_def isspace_def
  have k: "plain_word ''window''" "plain_word ''counter''" by (simp_all add: plain_word_def cls)
  have ok: "line_ok ?l1" "line_ok ?l2"
    using w n len by (auto simp: line_ok_def list_all_iff dest: name_char_plain plain_chars)
  obtain q0 where q0: "lex ?p = lex q0" "p_io q0 = ?l2 @ [CHR 0x0A]" "p_value q0 = []"
    "cstr (p_buffer q0) = ''window'' @ CHR '' '' # (CHR ''@'' # w @ '' 0'') @ [CHR 0x0A]"
    using lex_next_line [of ?p ?l1 "?l2 @ [CHR 0x0A]"] ok by (auto simp: fresh_parser_def zero_window_text_def cstr_def isspace_def)
  obtain q1 where q1: "lex q0 = Inr (True, q1)" "p_token q1 = T_KEYWORD_WINDOW" "p_io q1 = p_io q0"
    "cstr (p_buffer q1) = CHR ''@'' # w @ CHR '' '' # ''0'' @ [CHR 0x0A]" "p_value q1 = [NUL]"
    using lex_plain [OF q0(4) _ k(1)] len q0(3) by (auto simp: gives_def isspace_def keyword_def keyword_table_def overlay_def)
  obtain q2 where q2: "lex q1 = Inr (True, q2)" "p_token q2 = T_WINDOWNAME" "p_io q2 = p_io q0"
    "cstr (p_buffer q2) = ''0'' @ CHR 0x0A # []" "p_value q2 = CHR ''@'' # w @ [NUL]"
    using lex_sigil [OF q1(4) _ w(1), where t = T_WINDOWNAME] len q1(3,5) by (auto simp: gives_def isspace_def overlay_def)
  obtain q3 where q3: "lex q2 = Inr (True, q3)" "p_token q3 = T_NUMBER" "p_io q3 = p_io q0"
    "cstr (p_buffer q3) = []" "p_value q3 = CHR ''0'' # w @ [NUL]"
    using lex_number [OF q2(4)] q2(3,5) by (auto simp: gives_def isspace_def isdigit_def overlay_def)
  obtain q3' where q3': "lex q3 = lex q3'" "p_io q3' = []"
    "cstr (p_buffer q3') = ''counter'' @ CHR '' '' # (CHR ''@'' # w @ '' '' @ n) @ [CHR 0x0A]"
    using lex_next_line [OF q3(4), of ?l2 "[]"] ok q3 q0(2) by (auto simp: isspace_def)
  obtain q4 where q4: "lex q3' = Inr (True, q4)" "p_token q4 = T_KEYWORD_COUNTER" "p_io q4 = []"
    "cstr (p_buffer q4) = CHR ''@'' # w @ CHR '' '' # n @ [CHR 0x0A]"
    using lex_plain [OF q3'(3) _ k(2)] len q3'(2) by (auto simp: gives_def isspace_def keyword_def keyword_table_def overlay_def)
  have n0: "dropWhile isspace (n @ [CHR 0x0A]) = n @ [CHR 0x0A]"
    using plain_hd [OF n(1)] by (cases n) auto
  obtain q5 where q5: "lex q4 = Inr (True, q5)" "p_token q5 = T_WINDOWNAME" "p_io q5 = []"
    "cstr (p_buffer q5) = n @ CHR 0x0A # []" "p_value q5 = overlay (CHR ''@'' # w @ [NUL]) (overlay [NUL] (p_value q4))"
    using lex_sigil [OF q4(4) _ w(1), where t = T_WINDOWNAME] len q4(3) n0 by (auto simp: gives_def isspace_def)
  obtain q6 where q6: "lex q5 = Inr (True, q6)" "p_token q6 = T_STRING" "p_io q6 = []"
    "cstr (p_buffer q6) = []" "p_value q6 = overlay (n @ [NUL]) (overlay [NUL] (p_value q5))"
    using lex_plain [OF q5(4) _ n(1)] len n(2) q5(3) by (auto simp: gives_def isspace_def)
  have e: "lex q6 = Inr (False, q6\<lparr>p_eof := True\<rparr>)"
    using q6(3,4) ch_cstr(3) [of "p_buffer q6"] by (subst lex.simps) (simp add: get_line.simps)
  have c: "cstring (CHR ''@'' # w)" "cstring (CHR ''0'' # w)" using w(2) by (simp_all add: cstring_def)
  have "tok_value q2 = CHR ''@'' # w" using cstr_append_NUL [OF c(1), of "[]"] q2(5) by (simp add: tok_value_def)
  moreover have "tok_value q3 = CHR ''0'' # w" using cstr_append_NUL [OF c(2), of "[]"] q3(5) by (simp add: tok_value_def)
  moreover have "tok_value q5 = CHR ''@'' # w" using cstr_overlay [OF c(1)] q5(5) by (simp add: tok_value_def)
  moreover have "tok_value q6 = n" using cstr_overlay [OF n(3)] q6(5) by (simp add: tok_value_def)
  ultimately show ?thesis using q0(1) q1 q2 q3 q3'(1) q4 q5 q6 e by auto
qed

lemma zero_window_configured:
  assumes "file_data E path = zero_window_text w n" "zero_names w n" "sys_ok E Sys_fopen path" "2 < fuel"
  shows "\<exists>S'. configure fuel E path S = Some (Inr (0, S')) \<and> fmlookup (counters (s_db S')) n =
    Some \<lparr>counter_window = \<lparr>window_name = Some (CHR ''@'' # w), window_time = 0\<rparr>, counter_name = n, counter_last_seen = 0,
      counter_value = 0, counter_ignore = 0\<rparr>"
proof -
  define p where "p = fresh_parser (zero_window_text w n)"
  obtain m where m: "fuel = Suc (Suc (Suc m))" using assms(4) by (metis add_2_eq_Suc less_iff_Suc_add)
  obtain x xs where x: "w = x # xs" "\<not> isdigit x" using assms(2) by (cases w) (auto simp: zero_names_def)
  have "takeWhile isdigit (CHR ''0'' # w) = ''0''" using x by (simp add: isdigit_def [of "CHR ''0''"])
  then have a: "atoi (CHR ''0'' # w) = 0"
    by (simp add: atoi_def strtol_def strip_sign_def isspace_def digits_val_def digit_val_def del: takeWhile.simps)
  obtain q1 q2 q3 q4 q5 q6 q7 where q: "lex p = Inr (True, q1)" "p_token q1 = T_KEYWORD_WINDOW"
     "lex q1 = Inr (True, q2)" "p_token q2 = T_WINDOWNAME" "tok_value q2 = CHR ''@'' # w"
     "lex q2 = Inr (True, q3)" "p_token q3 = T_NUMBER" "tok_value q3 = CHR ''0'' # w"
     "lex q3 = Inr (True, q4)" "p_token q4 = T_KEYWORD_COUNTER"
     "lex q4 = Inr (True, q5)" "p_token q5 = T_WINDOWNAME" "tok_value q5 = CHR ''@'' # w"
     "lex q5 = Inr (True, q6)" "p_token q6 = T_STRING" "tok_value q6 = n" "lex q6 = Inr (False, q7)" "p_eof q7"
    using zero_window_tokens [OF assms(2)] unfolding p_def by blast
  show ?thesis
    by (simp add: configure_def assms(1,3) Let_def m p_def [symmetric] q a directive_def window_directive_def NEXT_def
      go_on_def counter_directive_def metric_directive_def pick_window_def counter_entry_def upd_db_def)
qed

text \<open>
  C19: a file that declares a window of 0 seconds and a counter of that window, under any names
  (the window's not beginning with a digit), is accepted. Of two submissions to that counter with different times the first
  is taken, and the second makes the kernel divide by zero.
\<close>

theorem config_zero_window:
  assumes "file_data E path = zero_window_text w n" "zero_names w n" "sys_ok E Sys_fopen path" "2 < fuel"
    and t: "0 < t1" "t1 < 2 ^ 31" "t2 < 2 ^ 31" "t1 \<noteq> t2"
  shows "\<exists>S'. configure fuel E path S = Some (Inr (0, S')) \<and> (\<forall>K. k_server K = S' \<longrightarrow> (\<exists>K'.
    kernel_reactor E S_listener [''COUNTER'', dec t1, n, v1] K = Inr (CONTINUE, K', []) \<and>
    kernel_reactor E S_listener [''COUNTER'', dec t2, n, v2] K' = Inl DivByZero))"
proof -
  obtain S' where S': "configure fuel E path S = Some (Inr (0, S'))" "fmlookup (counters (s_db S')) n =
      Some \<lparr>counter_window = \<lparr>window_name = Some (CHR ''@'' # w), window_time = 0\<rparr>, counter_name = n, counter_last_seen = 0,
        counter_value = 0, counter_ignore = 0\<rparr>"
    using zero_window_configured [OF assms(1-4)] by blast
  note u = ucast_narrow(1)
  have n: "n \<noteq> []" using assms(2) by (simp add: zero_names_def plain_word_def)
  have s: "0 < sint (of_nat t1 :: 32 word)"
    using t sint_word_of_int_small [of "int t1"] by simp
  have ne: "(of_nat t1 :: 32 word) \<noteq> of_nat t2"
    using t by (simp add: word_of_nat_eq_iff take_bit_nat_eq_self)
  have "\<exists>K'. kernel_reactor E S_listener [''COUNTER'', dec t1, n, v1] K = Inr (CONTINUE, K', []) \<and>
      kernel_reactor E S_listener [''COUNTER'', dec t2, n, v2] K' = Inl DivByZero" if "k_server K = S'" for K
    using S'(2) that t s ne n
    by (simp add: kernel_reactor_def listener_def pdu_is_def listen_counter_def find_counter_def counter_update_def
      rollover_def winstart_def smod32_def u Let_def set_db_def)
  with S'(1) show ?thesis by blast
qed

theorem config_zero_window_witness:
  "\<exists>E S'. zero_names ''w'' ''hits'' \<and> configure 3 E ''/etc/bolo.conf'' demo_server = Some (Inr (0, S')) \<and>
    (\<exists>K K'. k_server K = S' \<and>
      kernel_reactor E S_listener [''COUNTER'', dec 100, ''hits'', ''1''] K = Inr (CONTINUE, K', []) \<and>
      kernel_reactor E S_listener [''COUNTER'', dec 160, ''hits'', ''1''] K' = Inl DivByZero)"
proof -
  let ?E = "plain_env\<lparr>file_data := (\<lambda>_. zero_window_text ''w'' ''hits'')\<rparr>"
  have z: "zero_names ''w'' ''hits''"
    by (simp add: zero_names_def name_char_def plain_word_def keyword_def keyword_table_def isalpha_def isalnum_def isdigit_def ispunct_def)
  obtain S' where S': "configure 3 ?E ''/etc/bolo.conf'' demo_server = Some (Inr (0, S'))" "\<forall>K. k_server K = S' \<longrightarrow> (\<exists>K'.
      kernel_reactor ?E S_listener [''COUNTER'', dec 100, ''hits'', ''1''] K = Inr (CONTINUE, K', []) \<and>
      kernel_reactor ?E S_listener [''COUNTER'', dec 160, ''hits'', ''1''] K' = Inl DivByZero)"
    using config_zero_window [of ?E "''/etc/bolo.conf''" "''w''" "''hits''" 3 100 160 demo_server "''1''" "''1''"] z
    unfolding plain_env_def by auto
  have "k_server (blank_kernel S') = S'" by (simp add: blank_kernel_def Let_def)
  with S' z show ?thesis by blast
qed

end
