(* ===== verification/Bolo_Aggregator.thy ===== *)
theory Bolo_Aggregator
  imports Bolo_Config_Inv
begin

text \<open>
  The command \<open>bolo aggr\<close> (\<open>src/src/bolo/cmd_aggregator.c\<close>): options, the built-in
  settings, reading the configuration, printing it, and starting the threads.

  \<open>getopt_long\<close> is given by the options it returns, each with its argument. Texts on
  standard error and the help texts are left out.
\<close>

section \<open>Options and defaults\<close>

record aggr_options =
  opt_config_file :: string
  opt_foreground :: bool
  opt_dump_config :: bool

fun aggr_getopt :: "(char \<times> string) list \<Rightarrow> aggr_options \<Rightarrow> int + aggr_options" where
  "aggr_getopt [] opt = Inr opt"
| "aggr_getopt ((c, optarg) # os) opt =
     (if c = CHR ''h'' \<or> c = CHR ''?'' \<or> c = CHR ''V'' then Inl 0
      else if c = CHR ''F'' then aggr_getopt os (opt\<lparr>opt_foreground := True\<rparr>)
      else if c = CHR ''c'' then aggr_getopt os (opt\<lparr>opt_config_file := optarg\<rparr>)
      else if c = CHR ''D'' then aggr_getopt os (opt\<lparr>opt_foreground := True, opt_dump_config := True\<rparr>)
      else Inl 1)"

definition default_options :: aggr_options where
  "default_options = \<lparr>opt_config_file = ''/etc/bolo.conf'', opt_foreground = False, opt_dump_config = False\<rparr>"

definition default_server :: server_t where
  "default_server = \<lparr>s_db = empty_db, s_keys = fmempty,
     s_config = \<lparr>c_listener = Some ''tcp://*:2999'', c_controller = Some ''tcp://127.0.0.1:2998'',
       c_broadcast = Some ''tcp://*:2997'', c_beacon = None, c_nsca_port = 0, c_log_level = Some ''error'',
       c_log_facility = Some ''daemon'', c_pidfile = Some ''/var/run/bolo.pid'', c_runas_user = Some ''bolo'',
       c_runas_group = Some ''bolo'', c_savefile = Some ''/var/lib/bolo/save.db'',
       c_keysfile = Some ''/var/lib/bolo/keys.db'', c_save_size = 4, c_interval = 0, c_events_max = 0,
       c_events_keep = EVENTS_KEEP_NUMBER, c_grace_period = 15\<rparr>,
     s_interval = \<lparr>i_tick = 1000, i_freshness = 2, i_sweep = 60, i_savestate = 15\<rparr>\<rparr>"

section \<open>Printing the configuration\<close>

text \<open>\<open>printf\<close> prints a null pointer as \<open>(null)\<close>.\<close>

definition show_str :: "string option \<Rightarrow> string" where
  "show_str s = (case s of None \<Rightarrow> ''(null)'' | Some t \<Rightarrow> t)"

abbreviation newline :: string where
  "newline \<equiv> [CHR 0x0A]"

definition pad9 :: "string \<Rightarrow> string" where
  "pad9 s = s @ replicate (9 - length s) (CHR '' '')"

definition dump_settings :: "string \<Rightarrow> config_t \<Rightarrow> string" where
  "dump_settings file c =
     ''# bolo configuration'' @ newline @ ''# (from '' @ file @ '')'' @ newline @ newline @
     ''listener    '' @ show_str (c_listener c) @ newline @
     ''controller  '' @ show_str (c_controller c) @ newline @
     ''broadcast   '' @ show_str (c_broadcast c) @ newline @ newline @
     ''user        '' @ show_str (c_runas_user c) @ newline @
     ''group       '' @ show_str (c_runas_group c) @ newline @
     ''pidfile     '' @ show_str (c_pidfile c) @ newline @ newline @
     ''savefile    '' @ show_str (c_savefile c) @ newline @
     ''keysfile    '' @ show_str (c_keysfile c) @ newline @
     ''max.events  '' @ (if c_events_keep c = EVENTS_KEEP_NUMBER then dec (unat (c_events_max c))
        else dec (unat (word_of_int (sint (c_events_max c) sdiv 60) :: 32 word)) @ ''m'') @ newline @ newline @
     ''grace.period '' @ dec (unat (c_grace_period c)) @ newline @
     ''log '' @ show_str (c_log_level c) @ '' '' @ show_str (c_log_facility c) @ newline @ newline"

definition dump_type :: "string \<Rightarrow> type_t \<Rightarrow> string" where
  "dump_type k t =
     ''type '' @ k @ '' {'' @ newline @ ''    freshness '' @ dec (unat (freshness t)) @ newline @
     ''    '' @ pad9 (if type_status t = WARNING then ''warning'' else if type_status t = CRITICAL then ''critical'' else ''unknown'') @
     '' '' @ [CHR 0x22] @ show_str (type_summary t) @ [CHR 0x22] @ newline @ ''}'' @ newline @ newline"

definition dump_metric :: "string \<Rightarrow> window_t \<Rightarrow> string \<Rightarrow> string" where
  "dump_metric kind w name =
     kind @ '' '' @ (case window_name w of Some n \<Rightarrow> n | None \<Rightarrow> dec (unat (window_time w))) @ '' '' @ name @ newline"

text \<open>One line per entry, in the order of the table, and a blank line after a table that is not empty.\<close>

definition dump_table :: "env \<Rightarrow> hash_name \<Rightarrow> (string \<Rightarrow> 'v \<Rightarrow> string) \<Rightarrow> (string, 'v) fmap \<Rightarrow> string" where
  "dump_table E h f m = concat (map (\<lambda>k. case fmlookup m k of None \<Rightarrow> [] | Some v \<Rightarrow> f k v) (hash_order E h (fmdom m)))"

definition spaced :: "string \<Rightarrow> string" where
  "spaced t = (if t = [] then [] else t @ newline)"

definition dump_config :: "env \<Rightarrow> string \<Rightarrow> server_t \<Rightarrow> string" where
  "dump_config E path s =
     (let d = s_db s in
      dump_settings path (s_config s) @
      dump_table E H_types dump_type (types d) @
      spaced (dump_table E H_states (\<lambda>k x. ''state '' @ type_name (state_type x) @ '' '' @ state_name x @ newline) (states d)) @
      spaced (dump_table E H_windows (\<lambda>k w. ''window '' @ k @ '' '' @ dec (unat (window_time w)) @ newline) (windows d)) @
      spaced (dump_table E H_counters (\<lambda>k c. dump_metric ''counter'' (counter_window c) (counter_name c)) (counters d)) @
      spaced (dump_table E H_samples (\<lambda>k c. dump_metric ''sample'' (sample_window c) (sample_name c)) (samples d)) @
      dump_table E H_rates (\<lambda>k c. dump_metric ''rate'' (rate_window c) (rate_name c)) (rates d))"

section \<open>The command\<close>

text \<open>
  The return code, what is printed on standard output, and the kernel if it was
  started.
\<close>

definition start_threads :: "env \<Rightarrow> server_t \<Rightarrow> (int \<times> signal) list \<Rightarrow> (int \<times> string \<times> kernel_t option) res" where
  "start_threads E S sigs =
     bind_res (core_kernel_thread E S) (\<lambda>(rc, K).
       if rc \<noteq> 0 then Inr (2, [], None)
       else if core_scheduler_thread E \<noteq> 0 then Inr (2, [], Some K)
       else Inr (fst (core_supervisor E sigs), [], Some K))"

definition cmd_aggregator :: "nat \<Rightarrow> env \<Rightarrow> (char \<times> string) list \<Rightarrow> (int \<times> signal) list \<Rightarrow>
    (int \<times> string \<times> kernel_t option) res option" where
  "cmd_aggregator fuel E os sigs =
     (case aggr_getopt os default_options of
        Inl rc \<Rightarrow> Some (Inr (rc, [], None))
      | Inr opt \<Rightarrow>
          map_option (\<lambda>r. bind_res r (\<lambda>(rc, S).
            if rc \<noteq> 0 then Inr (1, [], None)
            else if opt_dump_config opt then Inr (0, dump_config E (opt_config_file opt) S, None)
            else if \<not> sys_ok E Sys_zmq_ctx [] then Inr (2, [], None)
            else if \<not> opt_foreground opt \<and> sys_rc E Sys_daemonize (show_str (c_pidfile (s_config S))) \<noteq> 0 then Inr (2, [], None)
            else if sys_rc E Sys_sigmask [] \<noteq> 0 then Inr (2, [], None)
            else start_threads E S sigs))
          (configure fuel E (opt_config_file opt) default_server))"

text \<open>
  C1: whatever the options and the configuration file are, once \<open>bolo aggr\<close>
  has started the kernel on a configuration whose windows all have a positive length,
  the invariant of the database holds in every state the kernel reaches, and no
  message makes it divide by zero or follow a null pointer.
\<close>

theorem aggregator_safe:
  assumes "aggr_getopt os default_options = Inr opt"
    and S: "configure fuel E (opt_config_file opt) default_server = Some (Inr (0, S))" and "windows_ok (s_db S)"
    and "cmd_aggregator fuel E os sigs = Some (Inr (rc, out, Some K0))" and "kernel_steps K0 K"
  shows "wf_db (k_db K) \<and> kernel_reactor E' sock p K \<notin> {Inl DivByZero, Inl NullDeref}"
proof -
  have "core_kernel_thread E S = Inr (0, K0)"
    using assms(1,2,4) by (auto simp: cmd_aggregator_def start_threads_def bind_res_Inr_iff split: if_splits)
  moreover have "wf_db (s_db S)" by (rule declared_wf [OF configure_declared [OF S] assms(3)])
  ultimately show ?thesis using kernel_started assms(5) by blast
qed

text \<open>A first start: there is no save file yet.\<close>

definition first_env :: env where
  "first_env = plain_env\<lparr>sys_ok := (\<lambda>c f. c \<noteq> Sys_open)\<rparr>"

lemma first_env_simps [simp]:
  "sys_ok first_env c f \<longleftrightarrow> c \<noteq> Sys_open" "sys_rc first_env c f = 0" "file_data first_env f = []"
  by (simp_all add: first_env_def plain_env_def)

lemma configure_empty:
  "configure 1 first_env ''/etc/bolo.conf'' default_server = Some (Inr (0, default_server))"
  by (simp add: configure_def Let_def fresh_parser_def lex.simps get_line.simps ch_def
    clear_db_def default_server_def empty_db_def)

theorem aggregator_safe_witness:
  "\<exists>K0. cmd_aggregator 1 first_env [(CHR ''F'', [])] [(0, SIGTERM)] = Some (Inr (0, [], Some K0)) \<and> wf_db (k_db K0)"
proof -
  have opt: "aggr_getopt [(CHR ''F'', [])] default_options = Inr (default_options\<lparr>opt_foreground := True\<rparr>)" by simp
  have path: "opt_config_file (default_options\<lparr>opt_foreground := True\<rparr>) = ''/etc/bolo.conf''"
    "opt_dump_config (default_options\<lparr>opt_foreground := True\<rparr>) = False"
    by (simp_all add: default_options_def)
  obtain K0 where "core_kernel_thread first_env default_server = Inr (0, K0)"
    by (simp add: core_kernel_thread_def boot_db_def default_server_def core_connect_supervisor_def binf_read_def
      read_keys_def read_lines.simps core_connect_scheduler_def bind_socket_def reactor_setup_def Let_def)
  then have c: "cmd_aggregator 1 first_env [(CHR ''F'', [])] [(0, SIGTERM)] = Some (Inr (0, [], Some K0))"
    by (simp add: cmd_aggregator_def opt path configure_empty [simplified] start_threads_def core_scheduler_thread_def
      core_connect_supervisor_def core_supervisor_def Let_def)
  have "windows_ok (s_db default_server)" by (simp add: windows_ok_def default_server_def empty_db_def)
  from aggregator_safe [OF opt _ this c kernel_steps.start] configure_empty c show ?thesis by (auto simp: path)
qed

end
