(* ===== verification/Bolo_Pdu.thy ===== *)
theory Bolo_Pdu
  imports Bolo_Kernel_Inv
begin

text \<open>
  Making the PDUs of a submission (\<open>src/src/bolo_pdu.c\<close>), from the words of a command
  line or of a line of text, and from values. \<open>None\<close> is the null pointer. The PDU
  library appends one frame per \<open>pdu_extendf\<close>.
\<close>

section \<open>From words\<close>

definition stamp :: "env \<Rightarrow> string option \<Rightarrow> string" where
  "stamp E ts = (case ts of Some t \<Rightarrow> t | None \<Rightarrow> show_int (sint (time_s E)))"

definition status_code :: "string \<Rightarrow> byte" where
  "status_code code =
     (if list_ex (strcaseeq code) [''0'', ''ok'', ''okay''] then OK
      else if list_ex (strcaseeq code) [''1'', ''warn'', ''warning''] then WARNING
      else if list_ex (strcaseeq code) [''2'', ''crit'', ''critical''] then CRITICAL
      else UNKNOWN)"

definition bolo_parse_state_pdu :: "env \<Rightarrow> string list \<Rightarrow> string option \<Rightarrow> pdu option" where
  "bolo_parse_state_pdu E argv ts =
     (if length argv < 3 then None
      else Some [''STATE'', stamp E ts, argv ! 0, dec (unat (status_code (argv ! 1))), strings_join E (drop 2 argv)])"

definition bolo_parse_counter_pdu :: "env \<Rightarrow> string list \<Rightarrow> string option \<Rightarrow> pdu option" where
  "bolo_parse_counter_pdu E argv ts =
     (if length argv < 1 then None
      else let incr = (if length argv = 2 then atoi (argv ! 1) else 1)
           in Some [''COUNTER'', stamp E ts, argv ! 0, dec (unat incr)])"

definition bolo_parse_sample_pdu :: "env \<Rightarrow> string list \<Rightarrow> string option \<Rightarrow> pdu option" where
  "bolo_parse_sample_pdu E argv ts =
     (if length argv < 2 then None else Some ([''SAMPLE'', stamp E ts, argv ! 0] @ drop 1 argv))"

definition bolo_parse_rate_pdu :: "env \<Rightarrow> string list \<Rightarrow> string option \<Rightarrow> pdu option" where
  "bolo_parse_rate_pdu E argv ts =
     (if length argv < 2 then None else Some [''RATE'', stamp E ts, argv ! 0, argv ! 1])"

definition key_value :: "string \<Rightarrow> string list" where
  "key_value s =
     (let k = takeWhile (\<lambda>c. c \<noteq> CHR ''='') s
      in [k, case dropWhile (\<lambda>c. c \<noteq> CHR ''='') s of [] \<Rightarrow> ''1'' | _ # v \<Rightarrow> v])"

definition bolo_parse_setkeys_pdu :: "string list \<Rightarrow> pdu option" where
  "bolo_parse_setkeys_pdu argv =
     (if length argv < 1 then None else Some (''SET.KEYS'' # concat (map key_value argv)))"

text \<open>Without extra words the code frees the empty literal that stands for them.\<close>

definition bolo_parse_event_pdu :: "env \<Rightarrow> string list \<Rightarrow> string option \<Rightarrow> pdu option res" where
  "bolo_parse_event_pdu E argv ts =
     (if length argv < 1 then Inr None
      else if length argv < 2 then Inl BadFree
      else Inr (Some [''EVENT'', stamp E ts, argv ! 0, strings_join E (drop 1 argv)]))"

text \<open>
  One line of text. The words are an array that ends with a null pointer: with only
  one word the time stamp is that pointer and no word is left.
\<close>

definition bolo_stream_pdu :: "env \<Rightarrow> string \<Rightarrow> pdu option res" where
  "bolo_stream_pdu E line =
     (let line = dropWhile isspace line in
      if line = [] then Inr None
      else case strings_split E line of
             [] \<Rightarrow> Inl NullDeref
           | w # ws \<Rightarrow>
               let ts = (case ws of [] \<Rightarrow> None | t # _ \<Rightarrow> Some t); args = drop 1 ws
               in if strcaseeq w ''STATE'' then Inr (bolo_parse_state_pdu E args ts)
                  else if strcaseeq w ''COUNTER'' then Inr (bolo_parse_counter_pdu E args ts)
                  else if strcaseeq w ''SAMPLE'' then Inr (bolo_parse_sample_pdu E args ts)
                  else if strcaseeq w ''RATE'' then Inr (bolo_parse_rate_pdu E args ts)
                  else if strcaseeq w ''KEY'' then Inr (bolo_parse_setkeys_pdu ws)
                  else if strcaseeq w ''EVENT'' then bolo_parse_event_pdu E args ts
                  else Inr None)"

section \<open>From values\<close>

definition bolo_forget_pdu :: "16 word \<Rightarrow> string \<Rightarrow> byte \<Rightarrow> pdu" where
  "bolo_forget_pdu payload regex ignore = [''FORGET'', dec (unat payload), regex, dec (unat ignore)]"

definition bolo_state_pdu :: "env \<Rightarrow> string \<Rightarrow> 32 word \<Rightarrow> string \<Rightarrow> pdu" where
  "bolo_state_pdu E name status msg = [''STATE'', stamp E None, name, dec (unat status), msg]"

definition bolo_counter_pdu :: "env \<Rightarrow> string \<Rightarrow> 32 word \<Rightarrow> pdu" where
  "bolo_counter_pdu E name value = [''COUNTER'', stamp E None, name, dec (unat value)]"

definition vsample_pdu :: "env \<Rightarrow> string \<Rightarrow> real list \<Rightarrow> pdu" where
  "vsample_pdu E name vs = [''SAMPLE'', stamp E None, name] @ map (fmt_lf E) vs"

definition bolo_sample_pdu :: "env \<Rightarrow> string \<Rightarrow> real list \<Rightarrow> pdu" where
  "bolo_sample_pdu E name vs = vsample_pdu E name vs"

definition bolo_rate_pdu :: "env \<Rightarrow> string \<Rightarrow> 64 word \<Rightarrow> pdu" where
  "bolo_rate_pdu E name value = [''RATE'', stamp E None, name, dec (unat value)]"

definition vsetkeys_pdu :: "string list \<Rightarrow> pdu" where
  "vsetkeys_pdu kvs = ''SET.KEYS'' # concat (map key_value kvs)"

definition bolo_setkeys_pdu :: "string list \<Rightarrow> pdu" where
  "bolo_setkeys_pdu kvs = vsetkeys_pdu kvs"

definition bolo_event_pdu :: "env \<Rightarrow> string \<Rightarrow> string option \<Rightarrow> pdu" where
  "bolo_event_pdu E name extra = [''EVENT'', stamp E None, name, case extra of None \<Rightarrow> [] | Some x \<Rightarrow> x]"

section \<open>Lines of text\<close>

lemma unwords_head: "word_ok w \<Longrightarrow> \<not> isspace (hd w) \<Longrightarrow> dropWhile isspace (unwords (w # ws)) = unwords (w # ws) \<and> unwords (w # ws) \<noteq> []"
  by (cases w; cases ws) (auto simp: word_ok_def)

lemma tolower_space: "isspace (tolower c) \<longleftrightarrow> isspace c"
proof (cases "CHR ''A'' \<le> c \<and> c \<le> CHR ''Z''")
  case True
  then have "65 \<le> (of_char c :: nat)" "(of_char c :: nat) \<le> 90" by (simp_all add: less_eq_char_def)
  with True show ?thesis by (auto simp: tolower_def isspace_def dest: arg_cong [of _ _ "of_char :: char \<Rightarrow> nat"])
qed (auto simp: tolower_def)

lemma strcaseeq_trans: "strcaseeq w v \<Longrightarrow> strcaseeq w u = strcaseeq v u"
  by (simp add: strcaseeq_def)

lemma strcaseeq_hd: "strcaseeq w v \<Longrightarrow> w \<noteq> [] \<Longrightarrow> isspace (hd w) = isspace (hd v)"
  unfolding strcaseeq_def by (cases w; cases v) (auto dest: arg_cong [of _ _ isspace] simp: tolower_space)

lemma stream_words:
  assumes "splits_words E" "list_all word_ok (w # ws)" "\<not> isspace (hd w)"
  shows "bolo_stream_pdu E (unwords (w # ws)) =
    (let ts = (case ws of [] \<Rightarrow> None | t # _ \<Rightarrow> Some t); args = drop 1 ws
     in if strcaseeq w ''STATE'' then Inr (bolo_parse_state_pdu E args ts)
        else if strcaseeq w ''COUNTER'' then Inr (bolo_parse_counter_pdu E args ts)
        else if strcaseeq w ''SAMPLE'' then Inr (bolo_parse_sample_pdu E args ts)
        else if strcaseeq w ''RATE'' then Inr (bolo_parse_rate_pdu E args ts)
        else if strcaseeq w ''KEY'' then Inr (bolo_parse_setkeys_pdu ws)
        else if strcaseeq w ''EVENT'' then bolo_parse_event_pdu E args ts
        else Inr None)"
proof -
  have "strings_split E (unwords (w # ws)) = w # ws" using assms(1,2) by (simp add: splits_words_def)
  with unwords_head [of w ws] assms(2,3) show ?thesis by (simp add: bolo_stream_pdu_def)
qed



text \<open>
  Note: a line \<open>EVENT time name\<close> without further words makes
  \<open>bolo_parse_event_pdu\<close> free a string literal.
\<close>

theorem stream_event_fault:
  assumes "splits_words E" "list_all word_ok [w, t, name]" "strcaseeq w ''EVENT''"
  shows "bolo_stream_pdu E (unwords [w, t, name]) = Inl BadFree"
proof -
  have "\<not> isspace (hd w)" using strcaseeq_hd [OF assms(3)] assms(2) by (simp add: word_ok_def isspace_def)
  moreover have "\<not> strcaseeq ''EVENT'' ''STATE''" "\<not> strcaseeq ''EVENT'' ''COUNTER''" "\<not> strcaseeq ''EVENT'' ''SAMPLE''"
    "\<not> strcaseeq ''EVENT'' ''RATE''" "\<not> strcaseeq ''EVENT'' ''KEY''"
    by code_simp+
  ultimately show ?thesis
    using stream_words [OF assms(1,2)] assms(3) by (simp add: strcaseeq_trans [OF assms(3)] bolo_parse_event_pdu_def)
qed

theorem stream_event_fault_witness: "bolo_stream_pdu plain_env (unwords [''EVENT'', ''1000'', ''deploy'']) = Inl BadFree"
  by (rule stream_event_fault) (simp_all add: word_ok_def strcaseeq_def)

end
