(* ===== verification/Bolo_Agent.thy ===== *)
theory Bolo_Agent
  imports Bolo_Pdu
begin

text \<open>
  The agent \<open>dbolo\<close> (\<open>src/src/dbolo/main.c\<close>): it runs the commands of a file at their
  intervals, cuts their output into lines, and sends the PDU of each line; it can watch
  the beacon of the aggregator and reconnect.

  Processes, pipes, sockets and \<open>epoll\<close> are given by what their calls return. The
  heartbeat functions of the vigor library are parameters. The splay is a real number.
\<close>

section \<open>The connection\<close>

record agent_socket =
  sk_connected :: bool
  sk_endpoint :: string
  sk_lifetime :: "32 word"
  sk_expires :: "64 word"

definition s_socket :: "string \<Rightarrow> 32 word \<Rightarrow> agent_socket" where
  "s_socket endpoint lifetime = \<lparr>sk_connected = False, sk_endpoint = endpoint, sk_lifetime = lifetime, sk_expires = 0\<rparr>"

definition s_reconnect :: "env \<Rightarrow> agent_socket \<Rightarrow> agent_socket" where
  "s_reconnect E s =
     (let now = time_ms E in
      if sint (sk_expires s) > sint now then s
      else s\<lparr>sk_connected := True, sk_expires := now + scast (sk_lifetime s)\<rparr>)"

section \<open>Single-precision numbers\<close>

text \<open>
  The conversion of an integer to \<open>float\<close>: 24 bits of significand, rounded to the nearest
  number and to the even one of two that are equally near. The product of two such
  integers is an integer again, so this is all of the arithmetic of \<open>beacon_ping\<close>.
\<close>

fun float_shift :: "nat \<Rightarrow> nat" where
  "float_shift n = (if n < 2 ^ 24 then 0 else Suc (float_shift (n div 2)))"

declare float_shift.simps [simp del]

definition float_of_nat :: "nat \<Rightarrow> nat" where
  "float_of_nat n =
     (let u = 2 ^ float_shift n; q = n div u; r = n mod u
      in if u < 2 * r \<or> u = 2 * r \<and> odd q then (q + 1) * u else q * u)"

definition float_of_int :: "int \<Rightarrow> int" where
  "float_of_int i = sgn i * int (float_of_nat (nat \<bar>i\<bar>))"

section \<open>The beacon\<close>

record hb_t =
  hb_interval :: "64 word"
  hb_backoff :: int
  hb_missed :: nat

record hb_lib =
  hb_init :: "hb_t \<Rightarrow> 64 word \<Rightarrow> nat \<Rightarrow> real \<Rightarrow> 64 word \<Rightarrow> hb_t"
  hb_miss :: "hb_t \<Rightarrow> int \<times> hb_t"
  hb_ping :: "hb_t \<Rightarrow> hb_t"

text \<open>\<open>b_zocket\<close> tells whether there is a socket, and \<open>b_ev_fd\<close> is the descriptor in \<open>ev\<close>.\<close>

record beacon_t =
  b_zocket :: bool
  b_endpoint :: string
  b_lifetime :: "32 word"
  b_reconnects :: "32 word"
  b_bfd :: int
  b_expires :: "64 word"
  b_hb :: hb_t
  b_ev_fd :: int

definition beacon_socket :: "env \<Rightarrow> string \<Rightarrow> 32 word \<Rightarrow> int \<Rightarrow> beacon_t" where
  "beacon_socket E endpoint lifetime ev_fd = \<lparr>b_zocket = False, b_endpoint = endpoint, b_lifetime = lifetime,
     b_reconnects = 0, b_bfd = 0, b_expires = time_ms E, b_hb = \<lparr>hb_interval = 0, hb_backoff = 0, hb_missed = 0\<rparr>,
     b_ev_fd = ev_fd\<rparr>"

text \<open>\<open>fd\<close> is the descriptor that \<open>zmq_getsockopt\<close> gives.\<close>

definition beacon_connect :: "env \<Rightarrow> int \<Rightarrow> beacon_t \<Rightarrow> int \<times> beacon_t" where
  "beacon_connect E fd s =
     (let ep = b_endpoint s; s = s\<lparr>b_zocket := True\<rparr> in
      if sys_rc E Sys_connect ep \<noteq> 0 then (1, s)
      else if sys_rc E Sys_setsockopt ep \<noteq> 0 then (1, s)
      else if sys_rc E Sys_getsockopt ep \<noteq> 0 then (1, s)
      else
        let s = s\<lparr>b_bfd := fd, b_ev_fd := fd\<rparr> in
        if sys_rc E Sys_epoll_ctl ep \<noteq> 0 then (2, s) else (0, s))"

definition beacon_close :: "beacon_t \<Rightarrow> beacon_t" where
  "beacon_close s = s\<lparr>b_ev_fd := b_bfd s\<rparr>"

text \<open>
  The loop of up to three attempts, each in the environment of its moment: the number
  of attempts and the beacon.
\<close>

fun connect_tries :: "nat \<Rightarrow> (env \<times> int) list \<Rightarrow> beacon_t \<Rightarrow> nat \<times> beacon_t" where
  "connect_tries (Suc tries) ((E, fd) # Es) s =
     (let (rc, s) = beacon_connect E fd (beacon_close s) in
      if rc > 0 \<and> tries > 0 then let (n, s) = connect_tries tries Es s in (Suc n, s) else (1, s))"
| "connect_tries _ _ s = (0, s)"

text \<open>
  The result tells whether the timer fired and how often it tried to connect; \<open>Es\<close> are
  the moments of the attempts. Sleeping is not modelled.
\<close>

definition beacon_timer :: "hb_lib \<Rightarrow> 32 word \<Rightarrow> env \<Rightarrow> (env \<times> int) list \<Rightarrow> beacon_t \<Rightarrow> agent_socket \<Rightarrow>
    bool \<times> nat \<times> beacon_t \<times> agent_socket" where
  "beacon_timer H limit E Es s ps =
     (if time_ms E > b_expires s then
        let s = s\<lparr>b_expires := b_expires s + hb_interval (b_hb s)\<rparr>; (m, hb) = hb_miss H (b_hb s); s = s\<lparr>b_hb := hb\<rparr>
        in if m = 0 then
             if sint (b_reconnects s) < sint limit then
               let s = s\<lparr>b_reconnects := b_reconnects s + 2\<rparr>; ps = s_reconnect E ps; (n, s) = connect_tries 3 Es s
               in (True, n, s, ps)
             else (True, 0, s\<lparr>b_reconnects := 0\<rparr>, ps)
           else (True, 0, s, ps)
      else (False, 0, s, ps))"

text \<open>
  One received PDU; \<open>now\<close> is the time at which the loop was entered. \<open>2 - ts / now\<close> is
  computed in unsigned 64-bit integers before it becomes a float; \<open>pdu_string\<close> returns a
  null pointer for a missing frame.
\<close>

definition beacon_pdu :: "hb_lib \<Rightarrow> 64 word \<Rightarrow> env \<Rightarrow> pdu \<Rightarrow> beacon_t \<Rightarrow> beacon_t res" where
  "beacon_pdu H now E p s =
     (if hd p = ''BEACON'' then
        if length p < 3 then Inl NullDeref
        else
          let ts = strtoul (p ! 1); interval = word_of_int (strtol (p ! 2)) :: 32 word in
          if now = 0 then Inl DivByZero
          else
            let latency = float_of_int (uint (2 - ts div now));
                expires = float_of_int (latency * float_of_int (sint (ucast interval + time_ms E)))
            in if expires < 0 \<or> expires \<ge> 2 ^ 64 then Inl BadConversion
               else Inr (s\<lparr>b_expires := word_of_int expires,
                 b_reconnects := (if sint (b_reconnects s) > 0 then b_reconnects s - 1 else b_reconnects s),
                 b_hb := hb_ping H ((b_hb s)\<lparr>hb_interval := ucast interval, hb_backoff := latency\<rparr>)\<rparr>)
      else Inr s)"

primrec beacon_pdus :: "hb_lib \<Rightarrow> 64 word \<Rightarrow> (env \<times> pdu) list \<Rightarrow> beacon_t \<Rightarrow> beacon_t res" where
  "beacon_pdus H now [] s = Inr s"
| "beacon_pdus H now (p # ps) s = bind_res (beacon_pdu H now (fst p) (snd p) s) (beacon_pdus H now ps)"

definition beacon_ping :: "hb_lib \<Rightarrow> env \<Rightarrow> (env \<times> pdu) list \<Rightarrow> beacon_t \<Rightarrow> beacon_t res" where
  "beacon_ping H E ps s = beacon_pdus H (time_ms E) ps s"

section \<open>The commands file\<close>

text \<open>
  A command: \<open>cmd_buffer\<close> holds the \<open>nread\<close> characters of the array \<open>buffer\<close>, and \<open>cmd_pipe\<close>
  is the output that is still in the pipe.
\<close>

record command_t =
  cmd_interval :: "32 word"
  cmd_exec :: string
  cmd_next_run :: "64 word"
  cmd_pid :: int
  cmd_fd :: int
  cmd_buffer :: string
  cmd_pipe :: string

text \<open>
  One line, without its newline: \<open>None\<close> if it is skipped. The number of the interval
  is a 32-bit integer that may overflow.
\<close>

definition parse_digits :: "string \<Rightarrow> 32 word" where
  "parse_digits s = foldl (\<lambda>x c. x * 10 + of_nat (digit_val c)) 0 s"

definition command_line :: "string \<Rightarrow> (32 word \<times> string) option" where
  "command_line line =
     (let a = dropWhile isspace (cstr line) in
      if at_char a \<noteq> CHR ''@'' then None
      else
        let x = parse_digits (takeWhile isdigit (tl a)); a = dropWhile isdigit (tl a) in
        if x = 0 then None
        else case (if at_char a = CHR ''h'' then Some (x * 3600) else if at_char a = CHR ''m'' then Some (x * 60)
                   else if at_char a = CHR ''s'' then Some x else None) of
               None \<Rightarrow> None
             | Some x \<Rightarrow>
                 let a = tl a in
                 if sint x < 0 \<or> \<not> isspace (at_char a) then None else Some (x, dropWhile isspace a))"

text \<open>A new command; \<open>r\<close> is the number \<open>rand()\<close> returns and 2147483647 is \<open>RAND_MAX\<close>.\<close>

definition splay_offset :: "real \<Rightarrow> nat \<Rightarrow> 32 word \<Rightarrow> 32 word res" where
  "splay_offset splay r x =
     (let off = real r * splay * real_of_int (sint x) / 2147483647
      in if off \<le> - 1 \<or> off \<ge> 2 ^ 32 then Inl BadConversion else Inr (word_of_int (max 0 \<lfloor>off\<rfloor>)))"

definition new_command :: "env \<Rightarrow> real \<Rightarrow> nat \<Rightarrow> 32 word \<times> string \<Rightarrow> command_t res" where
  "new_command E splay r = (\<lambda>(x, ex).
     bind_res (splay_offset splay r x) (\<lambda>offset.
     Inr \<lparr>cmd_interval = x * 1000, cmd_exec = ex, cmd_next_run = (scast (time_s E) + ucast offset) * 1000,
       cmd_pid = - 1, cmd_fd = - 1, cmd_buffer = [], cmd_pipe = []\<rparr>))"

text \<open>The loop over the file; \<open>rs\<close> are the numbers of \<open>rand()\<close>, one for each command.\<close>

function parse_commands :: "env \<Rightarrow> real \<Rightarrow> nat list \<Rightarrow> string \<Rightarrow> command_t list res" where
  "parse_commands E splay rs content =
     (if content = [] then Inr []
      else let (line, rest) = fgets 8191 content in
        case (if CHR 10 \<in> set (cstr line) then command_line (takeWhile (\<lambda>c. c \<noteq> CHR 10) line) else None) of
          None \<Rightarrow> parse_commands E splay rs rest
        | Some spec \<Rightarrow>
            bind_res (new_command E splay (hd rs) spec) (\<lambda>c.
            bind_res (parse_commands E splay (tl rs) rest) (\<lambda>cs. Inr (c # cs))))"
  by pat_completeness auto

lemma fgets_8191: "content \<noteq> [] \<Longrightarrow> fgets 8191 content = (line, rest) \<Longrightarrow> length rest < length content"
  using fgets_shorter [of content 8190] by simp

termination parse_commands
  by (relation "measure (\<lambda>(E, splay, rs, content). length content)") (auto dest: fgets_8191 [OF _ sym])

declare parse_commands.simps [simp del]

definition s_parse :: "env \<Rightarrow> real \<Rightarrow> nat list \<Rightarrow> string \<Rightarrow> (int \<times> command_t list) res" where
  "s_parse E splay rs path =
     (if \<not> sys_ok E Sys_fopen path then Inr (1, [])
      else bind_res (parse_commands E splay rs (file_data E path)) (\<lambda>cs. Inr (0, cs)))"

section \<open>The output of a command\<close>

text \<open>
  The inner loop of \<open>s_sink\<close>: the complete lines of the buffer, up to a null character,
  are taken off its front. The buffer is the list of its \<open>nread\<close> characters.
\<close>

function sink_lines :: "env \<Rightarrow> string \<Rightarrow> (string \<times> pdu list) res" where
  "sink_lines E b =
     (if CHR 10 \<notin> set (cstr b) then Inr (b, [])
      else let l = takeWhile (\<lambda>c. c \<noteq> CHR 10) b in
        bind_res (bolo_stream_pdu E l) (\<lambda>p.
        bind_res (sink_lines E (drop (Suc (length l)) b)) (\<lambda>(b, ps).
        Inr (b, (case p of None \<Rightarrow> [] | Some p \<Rightarrow> [p]) @ ps))))"
  by pat_completeness auto
termination
  by (relation "measure (\<lambda>(E, b). length b)")
    (auto simp: cstr_def dest!: set_takeWhileD intro!: diff_less length_pos_if_in_set)

declare sink_lines.simps [simp del]

text \<open>
  The outer loop: \<open>data\<close> is what the command has written and the agent has not read;
  each read returns what is there, at most what fits the buffer, and at most the size
  the system chooses. A read of nothing ends the loop.
\<close>

primrec s_sink :: "env \<Rightarrow> nat list \<Rightarrow> string \<Rightarrow> string \<Rightarrow> (string \<times> string \<times> pdu list) res" where
  "s_sink E [] data b = Inr (b, data, [])"
| "s_sink E (k # ks) data b =
     (let n = min k (min (8191 - length b) (length data)) in
      if n = 0 then Inr (b, data, [])
      else bind_res (sink_lines E (b @ take n data)) (\<lambda>(b, ps).
           bind_res (s_sink E ks (drop n data) b) (\<lambda>(b, data, qs). Inr (b, data, ps @ qs))))"

section \<open>Start\<close>

text \<open>
  The options; \<open>getopt_long\<close> is given by the options it returns, each with its argument.
  \<open>strtof\<close> gives the number and what follows it; a text that is not a number stops the
  agent.
\<close>

record agent_options =
  o_endpoint :: string
  o_commands :: string
  o_verbose :: "32 word"
  o_daemonize :: bool
  o_splay :: real
  o_pidfile :: string
  o_user :: string
  o_group :: string
  o_beacon :: "string option"
  o_reconnects :: "32 word"
  o_timeout :: "64 word"

definition agent_defaults :: agent_options where
  "agent_defaults = \<lparr>o_endpoint = ''tcp://127.0.0.1:2999'', o_commands = ''/etc/dbolo.conf'', o_verbose = 0,
     o_daemonize = True, o_splay = 1 / 2, o_pidfile = ''/var/run/dbolo.pid'', o_user = ''root'', o_group = ''root'',
     o_beacon = None, o_reconnects = 8, o_timeout = 300000\<rparr>"

fun agent_getopt :: "(string \<Rightarrow> real \<times> string) \<Rightarrow> (char \<times> string) list \<Rightarrow> agent_options \<Rightarrow> int + agent_options" where
  "agent_getopt strtof [] opt = Inr opt"
| "agent_getopt strtof ((c, optarg) # os) opt =
     (if c = CHR ''h'' \<or> c = CHR ''?'' then Inl 0
      else if c = CHR ''v'' then agent_getopt strtof os (opt\<lparr>o_verbose := o_verbose opt + 1\<rparr>)
      else if c = CHR ''q'' then agent_getopt strtof os (opt\<lparr>o_verbose := 0\<rparr>)
      else if c = CHR ''e'' then agent_getopt strtof os (opt\<lparr>o_endpoint := optarg\<rparr>)
      else if c = CHR ''F'' then agent_getopt strtof os (opt\<lparr>o_daemonize := False\<rparr>)
      else if c = CHR ''c'' then agent_getopt strtof os (opt\<lparr>o_commands := optarg\<rparr>)
      else if c = CHR ''s'' then
        if snd (strtof optarg) \<noteq> [] then Inl 1 else agent_getopt strtof os (opt\<lparr>o_splay := fst (strtof optarg)\<rparr>)
      else if c = CHR ''p'' then agent_getopt strtof os (opt\<lparr>o_pidfile := optarg\<rparr>)
      else if c = CHR ''u'' then agent_getopt strtof os (opt\<lparr>o_user := optarg\<rparr>)
      else if c = CHR ''g'' then agent_getopt strtof os (opt\<lparr>o_group := optarg\<rparr>)
      else if c = CHR ''b'' then agent_getopt strtof os (opt\<lparr>o_beacon := Some optarg\<rparr>)
      else if c = CHR ''r'' then agent_getopt strtof os (opt\<lparr>o_reconnects := 2 * atoi optarg\<rparr>)
      else if c = CHR ''t'' then agent_getopt strtof os (opt\<lparr>o_timeout := scast (atoi optarg)\<rparr>)
      else Inl 1)"

record agent_t =
  a_options :: agent_options
  a_sock :: agent_socket
  a_commands :: "command_t list"
  a_beacon :: "beacon_t option"

text \<open>
  Up to the loop: a return code, or the agent. \<open>rs\<close> are the random numbers, and \<open>fd\<close> is
  the descriptor of the beacon socket. A beacon that cannot be connected is ignored.
\<close>

definition start_beacon :: "hb_lib \<Rightarrow> env \<Rightarrow> int \<Rightarrow> 64 word \<Rightarrow> string \<Rightarrow> beacon_t" where
  "start_beacon H E fd timeout ep =
     (let s = beacon_socket E ep 60000 0; s = s\<lparr>b_hb := hb_init H (b_hb s) (timeout div 5) 5 (11 / 10) timeout\<rparr>
      in snd (beacon_connect E fd s))"

definition agent_start :: "hb_lib \<Rightarrow> (string \<Rightarrow> real \<times> string) \<Rightarrow> env \<Rightarrow> nat list \<Rightarrow> int \<Rightarrow> (char \<times> string) list \<Rightarrow> (int + agent_t) res" where
  "agent_start H strtof E rs fd os =
     (case agent_getopt strtof os agent_defaults of
        Inl rc \<Rightarrow> Inr (Inl rc)
      | Inr opt \<Rightarrow>
          if o_daemonize opt \<and> sys_rc E Sys_daemonize (o_pidfile opt) \<noteq> 0 then Inr (Inl 3)
          else if \<not> sys_ok E Sys_zmq_ctx [] then Inr (Inl 3)
          else
            let sock = s_reconnect E (s_socket (o_endpoint opt) 7000) in
            bind_res (s_parse E (o_splay opt) rs (o_commands opt)) (\<lambda>(rc, cmds).
              if rc \<noteq> 0 then Inr (Inl 1)
              else if \<not> sys_ok E Sys_epoll_create [] then Inr (Inl 1)
              else Inr (Inr \<lparr>a_options = opt, a_sock = sock, a_commands = cmds,
                a_beacon = map_option (start_beacon H E fd (o_timeout opt)) (o_beacon opt)\<rparr>)))"

section \<open>The main loop\<close>

definition agent_now :: "env \<Rightarrow> 64 word" where
  "agent_now E = time_ms E - time_ms E mod 1000"

text \<open>
  What the system answers for one command in one turn: what its child has written
  since, whether it has ended and the sizes of the reads that follow, whether \<open>pipe\<close>
  succeeds, and what \<open>fork\<close> and \<open>pipe\<close> return.
\<close>

record child_t =
  ch_output :: string
  ch_exited :: bool
  ch_reads :: "nat list"
  ch_pipe :: bool
  ch_pid :: int
  ch_fd :: int

text \<open>An event of \<open>epoll_wait\<close>: the descriptor, and what can be read from it.\<close>

record epoll_event_t =
  ev_fd :: int
  ev_reads :: "nat list"
  ev_pdus :: "(env \<times> pdu) list"

record turn_t =
  turn_env :: env
  turn_tries :: "(env \<times> int) list"
  turn_events :: "epoll_event_t list"
  turn_children :: "child_t list"

fun children_write :: "child_t list \<Rightarrow> command_t list \<Rightarrow> command_t list" where
  "children_write (ch # chs) (c # cs) =
     (if cmd_pid c > 0 then c\<lparr>cmd_pipe := cmd_pipe c @ ch_output ch\<rparr> else c) # children_write chs cs"
| "children_write _ cs = cs"

definition sink_command :: "env \<Rightarrow> nat list \<Rightarrow> command_t \<Rightarrow> (command_t \<times> pdu list) res" where
  "sink_command E ks c =
     bind_res (s_sink E ks (cmd_pipe c) (cmd_buffer c)) (\<lambda>(b, data, ps).
       Inr (c\<lparr>cmd_buffer := b, cmd_pipe := data\<rparr>, ps))"

fun event_sink :: "env \<Rightarrow> epoll_event_t \<Rightarrow> command_t list \<Rightarrow> (command_t list \<times> pdu list) res" where
  "event_sink E e [] = Inr ([], [])"
| "event_sink E e (c # cs) =
     (if ev_fd e \<noteq> cmd_fd c then bind_res (event_sink E e cs) (\<lambda>(cs, ps). Inr (c # cs, ps))
      else bind_res (sink_command E (ev_reads e) c) (\<lambda>(c, ps). Inr (c # cs, ps)))"

definition agent_event :: "hb_lib \<Rightarrow> env \<Rightarrow> epoll_event_t \<Rightarrow> agent_t \<Rightarrow> (agent_t \<times> pdu list) res" where
  "agent_event H E e a =
     (case a_beacon a of
        Some b \<Rightarrow>
          if ev_fd e = b_bfd b then bind_res (beacon_ping H E (ev_pdus e) b) (\<lambda>b. Inr (a\<lparr>a_beacon := Some b\<rparr>, []))
          else bind_res (event_sink E e (a_commands a)) (\<lambda>(cs, ps). Inr (a\<lparr>a_commands := cs\<rparr>, ps))
      | None \<Rightarrow> bind_res (event_sink E e (a_commands a)) (\<lambda>(cs, ps). Inr (a\<lparr>a_commands := cs\<rparr>, ps)))"

primrec agent_events :: "hb_lib \<Rightarrow> env \<Rightarrow> epoll_event_t list \<Rightarrow> agent_t \<Rightarrow> (agent_t \<times> pdu list) res" where
  "agent_events H E [] a = Inr (a, [])"
| "agent_events H E (e # es) a =
     bind_res (agent_event H E e a) (\<lambda>(a, ps). bind_res (agent_events H E es a) (\<lambda>(a, qs). Inr (a, ps @ qs)))"

text \<open>The second loop for one command: it is reaped, or started when it is due.\<close>

definition reap_or_run :: "env \<Rightarrow> 64 word \<Rightarrow> child_t \<Rightarrow> command_t \<Rightarrow> (command_t \<times> bool \<times> pdu list) res" where
  "reap_or_run E now ch c =
     (if cmd_pid c > 0 then
        if ch_exited ch then
          bind_res (sink_command E (ch_reads ch) c) (\<lambda>(c, ps).
          Inr (c\<lparr>cmd_pid := - 1, cmd_fd := - 1, cmd_pipe := []\<rparr>, False, ps))
        else Inr (c, False, [])
      else if cmd_next_run c < now then
        if \<not> ch_pipe ch then Inr (c, False, [])
        else Inr (c\<lparr>cmd_fd := ch_fd ch, cmd_buffer := [], cmd_pid := ch_pid ch, cmd_pipe := [],
               cmd_next_run := now + scast (cmd_interval c)\<rparr>, True, [])
      else Inr (c, False, []))"

fun run_commands :: "env \<Rightarrow> 64 word \<Rightarrow> child_t list \<Rightarrow> command_t list \<Rightarrow> (command_t list \<times> bool list \<times> pdu list) res" where
  "run_commands E now (ch # chs) (c # cs) =
     bind_res (reap_or_run E now ch c) (\<lambda>(c, b, ps).
     bind_res (run_commands E now chs cs) (\<lambda>(cs, bs, qs). Inr (c # cs, b # bs, ps @ qs)))"
| "run_commands E now _ cs = Inr (cs, map (\<lambda>_. False) cs, [])"

text \<open>One turn: which commands were started, and the PDUs sent.\<close>

definition agent_timer :: "hb_lib \<Rightarrow> turn_t \<Rightarrow> agent_t \<Rightarrow> agent_t" where
  "agent_timer H u a =
     (case a_beacon a of
        None \<Rightarrow> a
      | Some b \<Rightarrow>
          let (_, _, b, sock) = beacon_timer H (o_reconnects (a_options a)) (turn_env u) (turn_tries u) b (a_sock a)
          in a\<lparr>a_beacon := Some b, a_sock := sock\<rparr>)"

definition agent_turn :: "hb_lib \<Rightarrow> turn_t \<Rightarrow> agent_t \<Rightarrow> (agent_t \<times> bool list \<times> pdu list) res" where
  "agent_turn H u a =
     (let E = turn_env u; now = agent_now E;
          a = agent_timer H u (a\<lparr>a_commands := children_write (turn_children u) (a_commands a)\<rparr>)
      in bind_res (agent_events H E (turn_events u) a) (\<lambda>(a, ps).
         bind_res (run_commands E now (turn_children u) (a_commands a)) (\<lambda>(cs, bs, qs).
         Inr (a\<lparr>a_commands := cs\<rparr>, bs, ps @ qs))))"

text \<open>The turns: at each time which commands were started, and the PDUs sent.\<close>

primrec agent_turns :: "hb_lib \<Rightarrow> turn_t list \<Rightarrow> agent_t \<Rightarrow> (agent_t \<times> (64 word \<times> bool list) list \<times> pdu list) res" where
  "agent_turns H [] a = Inr (a, [], [])"
| "agent_turns H (u # us) a =
     bind_res (agent_turn H u a) (\<lambda>(a, bs, ps).
     bind_res (agent_turns H us a) (\<lambda>(a, history, qs). Inr (a, (agent_now (turn_env u), bs) # history, ps @ qs)))"

section \<open>The output is cut into its lines\<close>

text \<open>
  The specification: the complete lines of a text and what is left of it, and the PDUs
  of a list of lines.
\<close>

function lines_of :: "string \<Rightarrow> string list \<times> string" where
  "lines_of s =
     (if CHR 10 \<notin> set s then ([], s)
      else let l = takeWhile (\<lambda>c. c \<noteq> CHR 10) s; (ls, r) = lines_of (drop (Suc (length l)) s) in (l # ls, r))"
  by pat_completeness auto
termination
  by (relation "measure length") (auto intro!: diff_less length_pos_if_in_set)

declare lines_of.simps [simp del]

primrec stream_all :: "env \<Rightarrow> string list \<Rightarrow> pdu list res" where
  "stream_all E [] = Inr []"
| "stream_all E (l # ls) =
     bind_res (bolo_stream_pdu E l) (\<lambda>p. bind_res (stream_all E ls) (\<lambda>ps. Inr ((case p of None \<Rightarrow> [] | Some p \<Rightarrow> [p]) @ ps)))"

lemma lines_of_none [simp]: "CHR 10 \<notin> set s \<Longrightarrow> lines_of s = ([], s)"
  by (simp add: lines_of.simps)

lemma lines_of_line:
  assumes "CHR 10 \<notin> set l"
  shows "lines_of (l @ CHR 10 # s) = (l # fst (lines_of s), snd (lines_of s))"
proof -
  have "takeWhile (\<lambda>c. c \<noteq> CHR 10) (l @ CHR 10 # s) = l" using assms by (induction l) auto
  then show ?thesis by (subst lines_of.simps) (simp add: Let_def case_prod_unfold)
qed

lemma lines_induct [case_names rest line]:
  assumes "\<And>s. CHR 10 \<notin> set s \<Longrightarrow> P s" "\<And>l s. CHR 10 \<notin> set l \<Longrightarrow> P s \<Longrightarrow> P (l @ CHR 10 # s)"
  shows "P s"
proof (induction "length s" arbitrary: s rule: less_induct)
  case less
  show ?case
  proof (cases "CHR 10 \<in> set s")
    case True
    then obtain l t where "s = l @ CHR 10 # t" "CHR 10 \<notin> set l" by (metis split_list_first)
    with less assms(2) show ?thesis by simp
  qed (rule assms(1))
qed

lemma lines_rest: "CHR 10 \<notin> set (snd (lines_of s))"
  by (induction s rule: lines_induct) (auto simp: lines_of_line)

lemma lines_rest_subset: "set (snd (lines_of s)) \<subseteq> set s"
  by (induction s rule: lines_induct) (auto simp: lines_of_line)

lemma lines_of_append:
  "lines_of (s @ t) = (fst (lines_of s) @ fst (lines_of (snd (lines_of s) @ t)), snd (lines_of (snd (lines_of s) @ t)))"
  by (induction s rule: lines_induct) (auto simp: lines_of_line)

text \<open>Every line, and what is left, fits the buffer.\<close>

definition short_lines :: "string \<Rightarrow> bool" where
  "short_lines s \<longleftrightarrow> list_all (\<lambda>l. length l < 8191) (snd (lines_of s) # fst (lines_of s))"

lemma short_start:
  assumes "CHR 10 \<notin> set b" "short_lines (b @ s)"
  shows "length b < 8191"
proof (cases "CHR 10 \<in> set s")
  case True
  then obtain l t where s: "s = l @ CHR 10 # t" "CHR 10 \<notin> set l" by (metis split_list_first)
  have "lines_of ((b @ l) @ CHR 10 # t) = ((b @ l) # fst (lines_of t), snd (lines_of t))"
    using assms(1) s(2) by (intro lines_of_line) simp
  with assms(2) s(1) show ?thesis by (simp add: short_lines_def)
next
  case False
  with assms show ?thesis by (simp add: short_lines_def)
qed

lemma short_rest: "short_lines (s @ t) \<Longrightarrow> short_lines (snd (lines_of s) @ t)"
  by (simp add: short_lines_def lines_of_append [of s t])

lemma stream_all_append: "stream_all E (xs @ ys) = bind_res (stream_all E xs) (\<lambda>ps. bind_res (stream_all E ys) (\<lambda>qs. Inr (ps @ qs)))"
proof (induction xs)
  case Nil
  then show ?case by (cases "stream_all E ys") simp_all
next
  case (Cons x xs)
  then show ?case by (auto split: bind_res_split)
qed

lemma sink_lines_spec:
  "cstring b \<Longrightarrow> sink_lines E b = bind_res (stream_all E (fst (lines_of b))) (\<lambda>ps. Inr (snd (lines_of b), ps))"
proof (induction b rule: lines_induct)
  case (line l t)
  have l: "takeWhile (\<lambda>c. c \<noteq> CHR 10) (l @ CHR 10 # t) = l" using line(1) by (induction l) auto
  have "cstring t" using line(3) by (simp add: cstring_def)
  with line l show ?case
    by (subst sink_lines.simps) (auto simp: Let_def lines_of_line split: bind_res_split)
qed (simp add: sink_lines.simps)

text \<open>
  C24: however the system cuts the output of a command into reads, \<open>s_sink\<close> sends
  the PDUs of exactly the complete lines of what was read, in their order, and keeps the
  unfinished line; each read makes progress as long as output is left. The lines have
  to fit the buffer and the output holds no null character.
\<close>

theorem sink_refines:
  assumes "cstring (b @ data)" "CHR 10 \<notin> set b" "short_lines (b @ data)" "list_all (\<lambda>k. 0 < k) ks"
    and "stream_all E (fst (lines_of (b @ data))) = Inr qs"
  shows "\<exists>m ps. m \<le> length data \<and> min (length ks) (length data) \<le> m \<and>
    stream_all E (fst (lines_of (b @ take m data))) = Inr ps \<and>
    s_sink E ks data b = Inr (snd (lines_of (b @ take m data)), drop m data, ps)"
  using assms
proof (induction ks arbitrary: data b qs)
  case Nil
  then show ?case by (intro exI [of _ 0]) simp
next
  case (Cons k ks)
  define n where "n = min k (min (8191 - length b) (length data))"
  show ?case
  proof (cases "data = []")
    case True
    with Cons.prems show ?thesis by (simp add: Let_def)
  next
    case False
    with short_start [OF Cons.prems(2,3)] Cons.prems(4) have n: "0 < n" "n \<le> length data" by (auto simp: n_def)
    let ?s = "b @ take n data" and ?d = "drop n data"
    let ?b = "snd (lines_of ?s)"
    have whole: "?s @ ?d = b @ data" by simp
    have app: "lines_of (b @ data) = (fst (lines_of ?s) @ fst (lines_of (?b @ ?d)), snd (lines_of (?b @ ?d)))"
      using lines_of_append [of ?s ?d] unfolding whole .
    obtain ps1 qs1 where ps: "stream_all E (fst (lines_of ?s)) = Inr ps1" "stream_all E (fst (lines_of (?b @ ?d))) = Inr qs1"
      using Cons.prems(5) by (auto simp: app stream_all_append bind_res_Inr_iff)
    have "cstring ?s" using Cons.prems(1) by (auto simp: cstring_def dest: in_set_takeD)
    then have sink: "sink_lines E ?s = Inr (?b, ps1)" by (simp add: sink_lines_spec ps(1))
    have "cstring (?b @ ?d)"
      using Cons.prems(1) lines_rest_subset [of ?s] by (auto simp: cstring_def dest: in_set_takeD in_set_dropD)
    moreover have "short_lines (?b @ ?d)" using Cons.prems(3) short_rest [of ?s ?d] unfolding whole by blast
    ultimately obtain m ps2 where m: "m \<le> length ?d" "min (length ks) (length ?d) \<le> m"
      "stream_all E (fst (lines_of (?b @ take m ?d))) = Inr ps2"
      "s_sink E ks ?d ?b = Inr (snd (lines_of (?b @ take m ?d)), drop m ?d, ps2)"
      using Cons.IH [OF _ lines_rest _ _ ps(2)] Cons.prems(4) by auto
    have t: "b @ take (n + m) data = ?s @ take m ?d" by (simp add: take_add)
    have "stream_all E (fst (lines_of (b @ take (n + m) data))) = Inr (ps1 @ ps2)"
      unfolding t lines_of_append [of ?s "take m ?d"] by (simp add: stream_all_append ps(1) m(3))
    moreover have "s_sink E (k # ks) data b = Inr (snd (lines_of (b @ take (n + m) data)), drop (n + m) data, ps1 @ ps2)"
      unfolding t lines_of_append [of ?s "take m ?d"] using n(1) sink m(4)
      by (simp add: Let_def n_def [symmetric] add.commute)
    ultimately show ?thesis using m(1,2) n by (intro exI [of _ "n + m"] exI [of _ "ps1 @ ps2"]) auto
  qed
qed

theorem sink_refines_witness:
  "\<exists>m ps. m \<le> 35 \<and> 3 \<le> m \<and>
    s_sink plain_env [20, 10, 10] (''COUNTER 7 hits 1'' @ [CHR 10] @ ''RATE 7 bytes 12345'') [] =
      Inr (snd (lines_of (take m (''COUNTER 7 hits 1'' @ [CHR 10] @ ''RATE 7 bytes 12345''))),
        drop m (''COUNTER 7 hits 1'' @ [CHR 10] @ ''RATE 7 bytes 12345''), ps)"
proof -
  let ?d = "''COUNTER 7 hits 1'' @ [CHR 10] @ ''RATE 7 bytes 12345''"
  have l: "lines_of ?d = ([''COUNTER 7 hits 1''], ''RATE 7 bytes 12345'')"
    using lines_of_line [of "''COUNTER 7 hits 1''" "''RATE 7 bytes 12345''"] by simp
  have w: "bolo_stream_pdu plain_env (unwords [''COUNTER'', ''7'', ''hits'', ''1'']) =
      Inr (bolo_parse_counter_pdu plain_env [''hits'', ''1''] (Some ''7''))"
    by (subst stream_words) (simp_all add: word_ok_def isspace_def strcaseeq_def)
  then have "\<exists>qs. stream_all plain_env (fst (lines_of ?d)) = Inr qs" unfolding l by simp
  then obtain qs where "stream_all plain_env (fst (lines_of ([] @ ?d))) = Inr qs" by auto
  note q = this
  have c: "cstring ([] @ ?d)" "CHR 10 \<notin> set []" "short_lines ([] @ ?d)" "list_all (\<lambda>k. 0 < k) [20, 10, 10 :: nat]"
    using l by (simp_all add: cstring_def short_lines_def)
  obtain m ps where m: "m \<le> length ?d" "min (length [20, 10, 10 :: nat]) (length ?d) \<le> m"
    "s_sink plain_env [20, 10, 10] ?d [] = Inr (snd (lines_of ([] @ take m ?d)), drop m ?d, ps)"
    using sink_refines [OF c q] by blast
  have "length ?d = 35" "min (length [20, 10, 10 :: nat]) (length ?d) = 3" by simp_all
  with m have "m \<le> 35" "3 \<le> m" by simp_all
  with m(3) [unfolded append_Nil] show ?thesis by blast
qed

section \<open>When commands run\<close>

definition schedule :: "command_t \<Rightarrow> 64 word \<times> 32 word" where
  "schedule c = (cmd_next_run c, cmd_interval c)"

definition plan :: "command_t \<Rightarrow> int \<times> 64 word \<times> 32 word" where
  "plan c = (cmd_pid c, schedule c)"

lemma sink_command_plan: "sink_command E ks c = Inr (c', ps) \<Longrightarrow> plan c' = plan c"
  by (auto simp: sink_command_def plan_def schedule_def bind_res_Inr_iff)

lemma event_sink_plan: "event_sink E e cs = Inr (cs', ps) \<Longrightarrow> map plan cs' = map plan cs"
  by (induction cs arbitrary: cs' ps) (auto simp: bind_res_Inr_iff dest: sink_command_plan split: if_splits)

lemma agent_events_plan:
  "agent_events H E es a = Inr (a', ps) \<Longrightarrow> map plan (a_commands a') = map plan (a_commands a)"
proof (induction es arbitrary: a ps)
  case (Cons e es)
  then obtain a1 ps1 ps2 where 1: "agent_event H E e a = Inr (a1, ps1)" "agent_events H E es a1 = Inr (a', ps2)"
    by (auto simp: bind_res_Inr_iff)
  from 1(1) have "map plan (a_commands a1) = map plan (a_commands a)"
    by (auto simp: agent_event_def bind_res_Inr_iff dest: event_sink_plan split: option.splits if_splits)
  with Cons.IH [OF 1(2)] show ?case by simp
qed simp

lemma children_write_plan: "map plan (children_write chs cs) = map plan cs"
  by (induction chs cs rule: children_write.induct) (simp_all add: plan_def schedule_def)

lemma agent_timer_commands [simp]: "a_commands (agent_timer H u a) = a_commands a"
  by (simp add: agent_timer_def Let_def split: option.split prod.split)

text \<open>What one pass makes of the schedule of a command, given whether it was started.\<close>

definition rescheduled :: "64 word \<Rightarrow> bool \<Rightarrow> 64 word \<times> 32 word \<Rightarrow> 64 word \<times> 32 word \<Rightarrow> bool" where
  "rescheduled now b x y = (if b then fst x < now \<and> y = (now + scast (snd x), snd x) else y = x)"

lemma reap_or_run_schedule:
  assumes "reap_or_run E now ch c = Inr (c', b, ps)"
  shows "rescheduled now b (schedule c) (schedule c')"
proof (cases "cmd_pid c > 0 \<and> ch_exited ch")
  case True
  with assms obtain c1 where "sink_command E (ch_reads ch) c = Inr (c1, ps)" "\<not> b"
    "c' = c1\<lparr>cmd_pid := - 1, cmd_fd := - 1, cmd_pipe := []\<rparr>"
    by (auto simp: reap_or_run_def bind_res_Inr_iff)
  then show ?thesis using sink_command_plan [of E "ch_reads ch" c c1 ps] by (simp add: rescheduled_def plan_def schedule_def)
qed (use assms in \<open>auto simp: reap_or_run_def rescheduled_def schedule_def split: if_splits\<close>)

lemma run_commands_schedule:
  assumes "run_commands E now chs cs = Inr (cs', bs, ps)"
  shows "length cs' = length cs \<and> (\<forall>k < length cs. rescheduled now (bs ! k) (schedule (cs ! k)) (schedule (cs' ! k)))"
  using assms
proof (induction chs arbitrary: cs cs' bs ps)
  case (Cons ch chs)
  show ?case
  proof (cases cs)
    case (Cons c ds)
    with Cons.prems obtain c1 b ps1 cs1 bs1 ps2 where r: "reap_or_run E now ch c = Inr (c1, b, ps1)"
      "run_commands E now chs ds = Inr (cs1, bs1, ps2)" "cs' = c1 # cs1" "bs = b # bs1"
      by (auto simp: bind_res_Inr_iff)
    with Cons Cons.IH [OF r(2)] reap_or_run_schedule [OF r(1)] show ?thesis by (auto simp: nth_Cons split: nat.split)
  qed (use Cons.prems in auto)
qed (auto simp: rescheduled_def)

text \<open>The second loop of a turn finds the commands with the plans they had before.\<close>

lemma agent_turn_run:
  assumes "agent_turn H u a = Inr (a', bs, ps)"
  obtains cs ps' where "run_commands (turn_env u) (agent_now (turn_env u)) (turn_children u) cs = Inr (a_commands a', bs, ps')"
    "map plan cs = map plan (a_commands a)"
proof -
  let ?a = "agent_timer H u (a\<lparr>a_commands := children_write (turn_children u) (a_commands a)\<rparr>)"
  obtain a1 ps1 cs qs where 1: "agent_events H (turn_env u) (turn_events u) ?a = Inr (a1, ps1)"
    "run_commands (turn_env u) (agent_now (turn_env u)) (turn_children u) (a_commands a1) = Inr (cs, bs, qs)" "a_commands a' = cs"
    using assms by (auto simp: agent_turn_def Let_def bind_res_Inr_iff)
  have "map plan (a_commands a1) = map plan (a_commands a)"
    using agent_events_plan [OF 1(1)] by (simp add: children_write_plan)
  with 1(2,3) that show ?thesis by blast
qed

lemma map_plan_nth: "map plan cs = map plan ds \<Longrightarrow> k < length ds \<Longrightarrow> length cs = length ds \<and> plan (cs ! k) = plan (ds ! k)"
  using map_eq_imp_length_eq nth_map by metis

lemma agent_turn_schedule:
  assumes "agent_turn H u a = Inr (a', bs, ps)" "k < length (a_commands a)"
  shows "length (a_commands a') = length (a_commands a) \<and>
    rescheduled (agent_now (turn_env u)) (bs ! k) (schedule (a_commands a ! k)) (schedule (a_commands a' ! k))"
proof -
  obtain cs ps' where 1: "run_commands (turn_env u) (agent_now (turn_env u)) (turn_children u) cs = Inr (a_commands a', bs, ps')"
    "map plan cs = map plan (a_commands a)" by (rule agent_turn_run [OF assms(1)])
  with map_plan_nth [OF 1(2) assms(2)] run_commands_schedule [OF 1(1)] assms(2) show ?thesis by (auto simp: plan_def)
qed

lemma unat_add_interval:
  fixes now :: "64 word" and i :: "32 word"
  assumes "0 \<le> sint i" "unat now < 2 ^ 63"
  shows "unat (now + scast i) = unat now + nat (sint i)"
proof -
  have i: "sint i < 2 ^ 31" using sint_lt [of i] by simp
  have "uint (scast i :: 64 word) = sint i"
    unfolding scast_eq uint_word_of_int using assms(1) i by (simp add: mod_pos_pos_trivial)
  then have "unat (scast i :: 64 word) = nat (sint i)" by (simp add: unat_eq_nat_uint)
  moreover have "unat now + nat (sint i) < 2 ^ 64" using assms(2) i by simp
  ultimately show ?thesis by (simp add: unat_word_ariths)
qed

lemma agent_now_bound: "unat (agent_now E) \<le> unat (time_ms E)"
proof -
  have "time_ms E mod 1000 \<le> time_ms E" by (simp add: word_le_nat_alt unat_mod_distrib)
  then show ?thesis by (simp add: agent_now_def unat_sub)
qed

definition starts :: "nat \<Rightarrow> (64 word \<times> bool list) list \<Rightarrow> 64 word list" where
  "starts k history = map fst (filter (\<lambda>(t, bs). bs ! k) history)"

text \<open>
  C25: in every run of the main loop, two starts of the same command are more than
  its interval apart, whatever its child, the other commands and the beacon do in
  between; and a command is not started before its first time.
\<close>

theorem agent_spacing:
  assumes "agent_turns H us a = Inr (a', history, ps)" "k < length (a_commands a)"
    and "0 \<le> sint (cmd_interval (a_commands a ! k))" "list_all (\<lambda>u. unat (time_ms (turn_env u)) < 2 ^ 63) us"
  shows "(starts k history \<noteq> [] \<longrightarrow> cmd_next_run (a_commands a ! k) < hd (starts k history)) \<and>
    successively (\<lambda>t1 t2. unat t1 + nat (sint (cmd_interval (a_commands a ! k))) < unat t2) (starts k history)"
  using assms
proof (induction us arbitrary: a history ps)
  case (Cons u us)
  let ?now = "agent_now (turn_env u)" let ?i = "cmd_interval (a_commands a ! k)"
  from Cons.prems(1) obtain a1 bs ps1 history1 ps2 where t: "agent_turn H u a = Inr (a1, bs, ps1)"
    "agent_turns H us a1 = Inr (a', history1, ps2)" "history = (?now, bs) # history1"
    by (auto simp: bind_res_Inr_iff)
  from agent_turn_schedule [OF t(1) Cons.prems(2)]
  have turn: "length (a_commands a1) = length (a_commands a)" "cmd_interval (a_commands a1 ! k) = ?i"
    "\<not> bs ! k \<Longrightarrow> cmd_next_run (a_commands a1 ! k) = cmd_next_run (a_commands a ! k)"
    "bs ! k \<Longrightarrow> cmd_next_run (a_commands a ! k) < ?now \<and> cmd_next_run (a_commands a1 ! k) = ?now + scast ?i"
    by (auto simp: rescheduled_def schedule_def split: if_splits)
  have IH: "(starts k history1 \<noteq> [] \<longrightarrow> cmd_next_run (a_commands a1 ! k) < hd (starts k history1)) \<and>
      successively (\<lambda>t1 t2. unat t1 + nat (sint ?i) < unat t2) (starts k history1)"
    using Cons.IH [OF t(2)] Cons.prems(2-4) turn(1,2) by simp
  show ?case
  proof (cases "bs ! k")
    case True
    have "unat (cmd_next_run (a_commands a1 ! k)) = unat ?now + nat (sint ?i)"
      using turn(4) [OF True] Cons.prems(3,4) agent_now_bound [of "turn_env u"] by (simp add: unat_add_interval)
    with IH turn(4) [OF True] show ?thesis
      by (cases "starts k history1") (auto simp: starts_def t(3) True word_less_nat_alt)
  next
    case False
    with IH turn(3) show ?thesis by (simp add: t(3) starts_def)
  qed
qed (simp add: starts_def)

definition demo_command :: command_t where
  "demo_command = \<lparr>cmd_interval = 60000, cmd_exec = ''/bin/true'', cmd_next_run = 0, cmd_pid = - 1, cmd_fd = - 1,
     cmd_buffer = [], cmd_pipe = []\<rparr>"

definition demo_child :: "bool \<Rightarrow> child_t" where
  "demo_child ended = \<lparr>ch_output = [], ch_exited = ended, ch_reads = [], ch_pipe = True, ch_pid = 42, ch_fd = 5\<rparr>"

definition demo_turn :: "64 word \<Rightarrow> bool \<Rightarrow> turn_t" where
  "demo_turn t ended = \<lparr>turn_env = plain_env\<lparr>time_ms := t\<rparr>, turn_tries = [], turn_events = [], turn_children = [demo_child ended]\<rparr>"

definition demo_agent :: agent_t where
  "demo_agent = \<lparr>a_options = agent_defaults, a_sock = s_socket [] 7000, a_commands = [demo_command], a_beacon = None\<rparr>"

definition demo_hb :: hb_lib where
  "demo_hb = \<lparr>hb_init = \<lambda>hb _ _ _ _. hb, hb_miss = \<lambda>hb. (0, hb), hb_ping = \<lambda>hb. hb\<rparr>"

theorem agent_spacing_witness:
  "\<exists>a history ps. agent_turns demo_hb [demo_turn 1000 False, demo_turn 2000 True, demo_turn 70000 False] demo_agent =
      Inr (a, history, ps) \<and> starts 0 history = [1000, 70000] \<and>
    successively (\<lambda>t1 t2. unat t1 + 60000 < unat t2) (starts 0 history)"
proof -
  let ?us = "[demo_turn 1000 False, demo_turn 2000 True, demo_turn 70000 False]"
  obtain a history ps where r: "agent_turns demo_hb ?us demo_agent = Inr (a, history, ps)" "starts 0 history = [1000, 70000]"
    by (simp add: agent_turn_def agent_timer_def reap_or_run_def sink_command_def demo_turn_def demo_child_def demo_agent_def
        demo_command_def agent_now_def starts_def Let_def)
  have "0 < length (a_commands demo_agent)" "0 \<le> sint (cmd_interval (a_commands demo_agent ! 0))"
    "list_all (\<lambda>u. unat (time_ms (turn_env u)) < 2 ^ 63) ?us"
    by (simp_all add: demo_agent_def demo_command_def demo_turn_def)
  from agent_spacing [OF r(1) this] r show ?thesis by (auto simp: demo_agent_def demo_command_def)
qed

section \<open>A command that is due is started\<close>

text \<open>
  What one pass promises a command whose pipe can be opened: one that is not running is
  started when it is due, and one that is not running or has ended is started or left not
  running.
\<close>

definition served :: "64 word \<Rightarrow> child_t \<Rightarrow> int \<times> 64 word \<times> 32 word \<Rightarrow> bool \<Rightarrow> int \<times> 64 word \<times> 32 word \<Rightarrow> bool" where
  "served now ch x b y \<longleftrightarrow> ch_pipe ch \<longrightarrow>
     (fst x \<le> 0 \<and> fst (snd x) < now \<longrightarrow> b) \<and> (fst x \<le> 0 \<or> ch_exited ch \<longrightarrow> b \<or> fst y \<le> 0)"

lemma reap_or_run_served: "reap_or_run E now ch c = Inr (c', b, ps) \<Longrightarrow> served now ch (plan c) b (plan c')"
  by (auto simp: reap_or_run_def served_def plan_def schedule_def bind_res_Inr_iff split: if_splits)

lemma run_commands_served:
  assumes "run_commands E now chs cs = Inr (cs', bs, ps)" "k < length chs" "k < length cs"
  shows "served now (chs ! k) (plan (cs ! k)) (bs ! k) (plan (cs' ! k))"
  using assms
proof (induction chs cs arbitrary: k cs' bs ps rule: children_write.induct)
  case (1 ch chs c cs)
  then obtain c1 b ps1 cs1 bs1 ps2 where r: "reap_or_run E now ch c = Inr (c1, b, ps1)"
    "run_commands E now chs cs = Inr (cs1, bs1, ps2)" "cs' = c1 # cs1" "bs = b # bs1" by (auto simp: bind_res_Inr_iff)
  show ?case
  proof (cases k)
    case 0
    with r reap_or_run_served [OF r(1)] show ?thesis by simp
  next
    case (Suc j)
    with r "1.IH" [OF r(2), of j] "1.prems"(2,3) show ?thesis by simp
  qed
qed auto

lemma agent_turn_served:
  assumes "agent_turn H u a = Inr (a', bs, ps)" "k < length (turn_children u)" "k < length (a_commands a)"
  shows "served (agent_now (turn_env u)) (turn_children u ! k) (plan (a_commands a ! k)) (bs ! k) (plan (a_commands a' ! k))"
proof -
  obtain cs ps' where 1: "run_commands (turn_env u) (agent_now (turn_env u)) (turn_children u) cs = Inr (a_commands a', bs, ps')"
    "map plan cs = map plan (a_commands a)" by (rule agent_turn_run [OF assms(1)])
  with map_plan_nth [OF 1(2) assms(3)] run_commands_served [OF 1(1) assms(2)] assms(3) show ?thesis by simp
qed

text \<open>The turns of the loop in two parts.\<close>

lemma agent_turns_append:
  "agent_turns H (us @ vs) a = Inr (a', h, ps) \<longleftrightarrow>
    (\<exists>a1 h1 ps1 h2 ps2. agent_turns H us a = Inr (a1, h1, ps1) \<and> agent_turns H vs a1 = Inr (a', h2, ps2) \<and> h = h1 @ h2 \<and> ps = ps1 @ ps2)"
  by (induction us arbitrary: a h ps) (fastforce simp: bind_res_Inr_iff)+

lemma agent_turns_length: "agent_turns H us a = Inr (a', h, ps) \<Longrightarrow> length h = length us"
  by (induction us arbitrary: a h ps) (auto simp: bind_res_Inr_iff)

text \<open>The next time a command is due is the one set before or comes from a start.\<close>

lemma next_run_origin:
  assumes "agent_turns H us a = Inr (a', h, ps)" "k < length (a_commands a)"
  shows "length (a_commands a') = length (a_commands a) \<and> cmd_interval (a_commands a' ! k) = cmd_interval (a_commands a ! k) \<and>
    (cmd_next_run (a_commands a' ! k) = cmd_next_run (a_commands a ! k) \<or>
     (\<exists>u \<in> set us. cmd_next_run (a_commands a' ! k) = agent_now (turn_env u) + scast (cmd_interval (a_commands a ! k))))"
  using assms
proof (induction us arbitrary: a h ps)
  case (Cons u us)
  then obtain a1 bs ps1 h1 ps2 where t: "agent_turn H u a = Inr (a1, bs, ps1)" "agent_turns H us a1 = Inr (a', h1, ps2)"
    by (auto simp: bind_res_Inr_iff)
  from agent_turn_schedule [OF t(1) Cons.prems(2)] Cons.IH [OF t(2)] Cons.prems(2) show ?case
    by (auto simp: rescheduled_def schedule_def split: if_splits)
qed simp

text \<open>A command that is not running stays so until it is started, which happens at the latest when it is due.\<close>

lemma idle_until_started:
  assumes "agent_turns H (us @ [w]) a = Inr (a', h, ps)" "k < length (a_commands a)"
    and "list_all (\<lambda>u. k < length (turn_children u) \<and> ch_pipe (turn_children u ! k)) (us @ [w])"
    and "cmd_pid (a_commands a ! k) \<le> 0" "cmd_next_run (a_commands a ! k) < agent_now (turn_env w)"
  shows "\<exists>(t, bs) \<in> set h. bs ! k"
  using assms
proof (induction us arbitrary: a h ps)
  case Nil
  then obtain a1 bs ps1 where t: "agent_turn H w a = Inr (a1, bs, ps1)" "h = [(agent_now (turn_env w), bs)]"
    by (auto simp: bind_res_Inr_iff)
  from agent_turn_served [OF t(1), of k] Nil.prems t(2) show ?case by (simp add: served_def plan_def schedule_def)
next
  case (Cons u us)
  then obtain a1 bs ps1 h1 ps2 where t: "agent_turn H u a = Inr (a1, bs, ps1)" "agent_turns H (us @ [w]) a1 = Inr (a', h1, ps2)"
    "h = (agent_now (turn_env u), bs) # h1" by (auto simp: bind_res_Inr_iff)
  show ?case
  proof (cases "bs ! k")
    case False
    with agent_turn_schedule [OF t(1) Cons.prems(2)] agent_turn_served [OF t(1), of k] Cons.prems
    have "k < length (a_commands a1)" "cmd_pid (a_commands a1 ! k) \<le> 0" "cmd_next_run (a_commands a1 ! k) < agent_now (turn_env w)"
      by (auto simp: rescheduled_def served_def plan_def schedule_def)
    with Cons.IH [OF t(2)] Cons.prems(3) t(3) show ?thesis by auto
  qed (simp add: t(3))
qed

text \<open>
  C26: no command of the agent is forgotten. Whatever happened in a run of the main
  loop before a turn that is told that the command's child has ended, the command is
  started again, in that turn or later, as soon as the clock has passed the first time it
  is due and its interval after every earlier turn; the run only has to be able to open pipes.
\<close>

theorem agent_progress:
  assumes "agent_turns H (us @ [u] @ vs @ [w]) a = Inr (a', history, ps)" "k < length (a_commands a)"
    and "list_all (\<lambda>x. k < length (turn_children x) \<and> ch_pipe (turn_children x ! k)) (us @ [u] @ vs @ [w])"
    and "ch_exited (turn_children u ! k)" "cmd_next_run (a_commands a ! k) < agent_now (turn_env w)"
    and "\<forall>x \<in> set us. agent_now (turn_env x) + scast (cmd_interval (a_commands a ! k)) < agent_now (turn_env w)"
  shows "\<exists>(t, bs) \<in> set (drop (length us) history). bs ! k"
proof -
  obtain a1 h1 ps1 h2 ps2 where 1: "agent_turns H us a = Inr (a1, h1, ps1)" "agent_turns H (u # vs @ [w]) a1 = Inr (a', h2, ps2)"
    "history = h1 @ h2" using assms(1) by (auto simp: agent_turns_append)
  then have d: "drop (length us) history = h2" using agent_turns_length by fastforce
  from next_run_origin [OF 1(1) assms(2)] assms(2,5,6)
  have a1: "k < length (a_commands a1)" "cmd_next_run (a_commands a1 ! k) < agent_now (turn_env w)" by auto
  obtain a2 bs ps3 h3 ps4 where t: "agent_turn H u a1 = Inr (a2, bs, ps3)" "agent_turns H (vs @ [w]) a2 = Inr (a', h3, ps4)"
    "h2 = (agent_now (turn_env u), bs) # h3" using 1(2) by (auto simp: bind_res_Inr_iff)
  show ?thesis
  proof (cases "bs ! k")
    case False
    with agent_turn_schedule [OF t(1) a1(1)] agent_turn_served [OF t(1) _ a1(1)] a1 assms(3,4)
    have "k < length (a_commands a2)" "cmd_pid (a_commands a2 ! k) \<le> 0" "cmd_next_run (a_commands a2 ! k) < agent_now (turn_env w)"
      by (auto simp: rescheduled_def served_def plan_def schedule_def)
    with idle_until_started [OF t(2)] assms(3) t(3) show ?thesis by (auto simp: d)
  qed (simp add: d t(3))
qed

theorem agent_progress_witness:
  "\<exists>a history ps. agent_turns demo_hb [demo_turn 1000 False, demo_turn 2000 True, demo_turn 3000 False, demo_turn 70000 False] demo_agent =
      Inr (a, history, ps) \<and> (\<exists>(t, bs) \<in> set (drop 1 history). bs ! 0)"
proof -
  let ?us = "[demo_turn 1000 False]" and ?u = "demo_turn 2000 True" and ?vs = "[demo_turn 3000 False]" and ?w = "demo_turn 70000 False"
  obtain a history ps where r: "agent_turns demo_hb (?us @ [?u] @ ?vs @ [?w]) demo_agent = Inr (a, history, ps)"
    by (simp add: agent_turn_def agent_timer_def reap_or_run_def sink_command_def demo_turn_def demo_child_def demo_agent_def
        demo_command_def agent_now_def Let_def)
  have "\<exists>(t, bs) \<in> set (drop (length ?us) history). bs ! 0"
    by (rule agent_progress [OF r]) (simp_all add: demo_turn_def demo_child_def demo_agent_def demo_command_def agent_now_def)
  with r show ?thesis by auto
qed

section \<open>Long intervals\<close>

lemma parse_digits_val: "parse_digits s = of_nat (digits_val s)"
proof -
  have "foldl (\<lambda>x c. x * 10 + of_nat (digit_val c)) (of_nat n) s =
      (of_nat (foldl (\<lambda>a c. 10 * a + digit_val c) n s) :: 32 word)" for n
  proof (induction s arbitrary: n)
    case (Cons c s)
    have "of_nat n * 10 + of_nat (digit_val c) = (of_nat (10 * n + digit_val c) :: 32 word)" by simp
    with Cons show ?case by (simp del: of_nat_add of_nat_mult)
  qed simp
  from this [of 0] show ?thesis by (simp add: parse_digits_def digits_val_def)
qed

lemma command_line_hours:
  assumes "0 < h" "h * 3600 < 2 ^ 31" "cmd \<noteq> []" "\<not> isspace (hd cmd)" "cstring cmd"
  shows "command_line (CHR ''@'' # dec h @ ''h '' @ cmd) = Some (of_nat (h * 3600), cmd)"
proof -
  have d: "takeWhile isdigit (dec h @ ''h '' @ cmd) = dec h" "dropWhile isdigit (dec h @ ''h '' @ cmd) = ''h '' @ cmd"
    using dec_digits [of h] by (simp_all add: takeWhile_append2 dropWhile_append2 isdigit_def)
  have c: "cstring (CHR ''@'' # dec h @ ''h '' @ cmd)" using assms(5) cstring_dec [of h] by (simp add: cstring_def)
  have x: "(of_nat h :: 32 word) \<noteq> 0"
    using assms(1,2) by (simp add: word_of_nat_eq_0_iff nat_dvd_not_less)
  have "sint (of_nat (h * 3600) :: 32 word) = int (h * 3600)"
    using sint_word_of_int_small [of "int (h * 3600)"] assms(2) by simp
  moreover have "(of_nat h * 3600 :: 32 word) = of_nat (h * 3600)" by simp
  ultimately have s: "(sint (of_nat h * 3600 :: 32 word) < 0) = False" by (simp only: not_less of_nat_0_le_iff simp_thms)
  have w: "dropWhile isspace (CHR '' '' # cmd) = cmd" using assms(3,4) by (cases cmd) (simp_all add: isspace_def)
  show ?thesis
    using w by (simp add: command_line_def cstr_id [OF c, simplified] d [simplified] parse_digits_val x s isspace_def [of "CHR ''@''"]
        isspace_def [of "CHR '' ''"] Let_def)
qed

lemma sint_negative:
  assumes "2 ^ 31 \<le> n" "n < 2 ^ 32"
  shows "sint (of_nat n :: 32 word) = int n - 2 ^ 32"
proof -
  have "signed_take_bit 31 (int n) = signed_take_bit 31 (int n - 2 ^ 32)"
    by (rule signed_take_bit_eq_iff_take_bit_eq [THEN iffD2]) (simp add: take_bit_eq_mod)
  moreover have "sint (of_nat n :: 32 word) = signed_take_bit 31 (int n)"
    by transfer simp
  moreover have "signed_take_bit 31 (int n - 2 ^ 32) = int n - 2 ^ 32"
    using assms by (intro signed_take_bit_int_eq_self) simp_all
  ultimately show ?thesis by simp
qed

text \<open>
  Note: an interval of 597 to 1193 hours is accepted, but its number of
  milliseconds does not fit the \<open>int\<close> that holds it: once the command was started it is due
  again at once.
\<close>

theorem agent_interval_overflow:
  assumes "597 \<le> h" "h \<le> 1193" "cmd \<noteq> []" "\<not> isspace (hd cmd)" "cstring cmd"
    and c: "new_command E splay r (of_nat (h * 3600), cmd) = Inr c"
    and u: "reap_or_run E now ch (c\<lparr>cmd_next_run := t\<rparr>) = Inr (c', True, ps)" "2 ^ 32 \<le> unat (now)"
  shows "command_line (CHR ''@'' # dec h @ ''h '' @ cmd) = Some (of_nat (h * 3600), cmd) \<and> cmd_next_run c' < now"
proof -
  have i: "cmd_interval c = of_nat (h * 3600000)"
  proof -
    have "cmd_interval c = of_nat (h * 3600) * 1000" using c by (auto simp: new_command_def bind_res_Inr_iff)
    also have "\<dots> = of_nat (h * 3600 * 1000)" by (simp only: of_nat_mult [of "h * 3600"] of_nat_numeral)
    finally show ?thesis by (simp only: mult.assoc) simp
  qed
  define d where "d = 2 ^ 32 - h * 3600000"
  have d: "0 < d" "d \<le> 2 ^ 32" "int (h * 3600000) - 2 ^ 32 = - int d" using assms(1,2) by (auto simp: d_def)
  have s: "sint (cmd_interval c) = - int d"
    using sint_negative [of "h * 3600000"] assms(1,2) d(3) by (simp only: i) simp
  have "cmd_next_run c' = now + scast (cmd_interval c)"
    using u(1) by (auto simp: reap_or_run_def bind_res_Inr_iff split: if_splits)
  also have "\<dots> = now - of_nat d" unfolding scast_eq s by simp
  finally have "unat (cmd_next_run c') = unat (now) - d"
    using u(2) d(2) by (simp add: unat_sub word_le_nat_alt unat_of_nat)
  then have "cmd_next_run c' < now" using d(1) u(2) by (simp add: word_less_nat_alt)
  with command_line_hours [of h cmd] assms(1-5) show ?thesis by simp
qed

theorem agent_interval_overflow_witness:
  "\<exists>c c'. new_command plain_env 0 0 (of_nat (600 * 3600), ''/bin/true'') = Inr c \<and>
    reap_or_run plain_env (2 ^ 40) (demo_child False) (c\<lparr>cmd_next_run := 0\<rparr>) = Inr (c', True, []) \<and>
    cmd_next_run c' < 2 ^ 40"
proof -
  obtain c where c: "new_command plain_env 0 0 (of_nat (600 * 3600), ''/bin/true'') = Inr c" "cmd_pid c = - 1"
    by (simp add: new_command_def splay_offset_def)
  obtain c' where u: "reap_or_run plain_env (2 ^ 40) (demo_child False) (c\<lparr>cmd_next_run := 0\<rparr>) = Inr (c', True, [])"
    using c(2) by (simp add: reap_or_run_def demo_child_def)
  have "\<not> isspace (hd ''/bin/true'')" "cstring ''/bin/true''" "2 ^ 32 \<le> unat (2 ^ 40 :: 64 word)"
    by (simp_all add: isspace_def cstring_def demo_child_def)
  from agent_interval_overflow [OF _ _ _ this(1,2) c(1) u this(3)] c(1) u show ?thesis
    by (simp add: demo_child_def)
qed

section \<open>The beacon\<close>

lemma float_shift_bound: "float_shift n = 0 \<or> 2 ^ float_shift n * 2 ^ 23 \<le> n"
proof (induction n rule: float_shift.induct)
  case (1 n)
  then show ?case by (subst (1 2) float_shift.simps) (auto simp: float_shift.simps [of "n div 2"])
qed

lemma float_of_nat_bounds:
  "n \<le> float_of_nat n + n div 2 ^ 23" "float_of_nat n \<le> 2 * n"
proof -
  define u where "u = (2 :: nat) ^ float_shift n"
  have u: "0 < u" by (simp add: u_def)
  have r: "n mod u \<le> n div 2 ^ 23" "n \<noteq> 0 \<longrightarrow> u \<le> n"
  proof -
    consider "u = 1" | "u * 2 ^ 23 \<le> n" using float_shift_bound [of n] by (auto simp: u_def)
    then have "n mod u \<le> n div 2 ^ 23 \<and> (n \<noteq> 0 \<longrightarrow> u \<le> n)"
    proof cases
      case 2
      then have "u \<le> n div 2 ^ 23" by (simp add: less_eq_div_iff_mult_less_eq)
      moreover have "n mod u < u" using u by simp
      ultimately show ?thesis using 2 by simp
    qed simp
    then show "n mod u \<le> n div 2 ^ 23" "n \<noteq> 0 \<longrightarrow> u \<le> n" by blast+
  qed
  have f: "float_of_nat n = n div u * u \<or> float_of_nat n = n div u * u + u \<and> n mod u \<noteq> 0"
    using u unfolding float_of_nat_def Let_def u_def [symmetric] by (auto split: if_splits)
  have n: "n = n div u * u + n mod u" by simp
  show "n \<le> float_of_nat n + n div 2 ^ 23" using f r(1) n by linarith
  have "n div u * u \<le> n" by simp
  moreover have "u \<le> n \<or> n mod u = 0" using r(2) by auto
  ultimately have "n mod u = 0 \<or> n div u * u + u \<le> 2 * n" "n div u * u \<le> 2 * n" by linarith+
  with f show "float_of_nat n \<le> 2 * n" by auto
qed

lemma float_of_nat_near: "7 * n \<le> 8 * float_of_nat n \<and> float_of_nat n \<le> 2 * n"
proof -
  have "8 * (n div 2 ^ 23) \<le> n" by simp
  moreover define a where "a = n div 2 ^ 23"
  ultimately show ?thesis using float_of_nat_bounds [of n] by simp
qed

lemma float_of_int_nat: "float_of_int (int n) = int (float_of_nat n)"
  using float_of_nat_near [of n] by (cases "n = 0") (simp_all add: float_of_int_def)

lemma float_of_nat_2: "float_of_nat 2 = 2"
  by (simp add: float_of_nat_def float_shift.simps [of 2])

lemma unat_ucast_64: "unat (ucast (w :: 32 word) :: 64 word) = unat w"
  by transfer (simp add: take_bit_nat_eq_self_iff nat_take_bit_eq)

lemma signed_take_bit_nat: "n < 2 ^ 63 \<Longrightarrow> signed_take_bit 63 (int n) = int n"
  by (intro signed_take_bit_int_eq_self) simp_all

text \<open>
  Note: after a beacon that was sent before the loop was entered, however
  short its interval, the timer of the beacon stays silent until the clock (the
  milliseconds since 1970) has grown by half: the agent never notices that the
  aggregator is gone.
\<close>

theorem beacon_deaf:
  assumes "ts < unat (time_ms E)" "iv < 2 ^ 31" "unat (time_ms E') < 2 ^ 59"
    and "2 * unat (time_ms E'') \<le> 3 * unat (time_ms E')"
  shows "\<exists>s'. beacon_ping H E [(E', [''BEACON'', dec ts, dec iv])] s = Inr s' \<and>
    beacon_timer H limit E'' Es s' ps = (False, 0, s', ps)"
proof -
  let ?x = "unat (time_ms E') + iv"
  have iv: "strtol (dec iv) = int iv" using strtol_show_int [of "int iv"] assms(2) by (simp add: show_int_def)
  have i: "sint (ucast (word_of_int (strtol (dec iv)) :: 32 word) + time_ms E') = int ?x"
  proof -
    have "unat (word_of_int (int iv) :: 32 word) = iv" using assms(2) by (simp add: unat_of_nat)
    then have "unat (ucast (word_of_int (int iv) :: 32 word) + time_ms E') = ?x"
      using assms(2,3) by (simp add: unat_word_ariths unat_ucast_64)
    then have "uint (ucast (word_of_int (int iv) :: 32 word) + time_ms E') = int ?x" by (simp only: uint_nat)
    moreover have "signed_take_bit 63 (int ?x) = int ?x"
      using assms(2,3) by (intro signed_take_bit_nat) simp
    ultimately show ?thesis unfolding iv by (simp only: sint_uint) simp
  qed
  have t: "strtoul (dec ts) div time_ms E = 0"
  proof -
    have l: "ts < 2 ^ 64" using assms(1) unsigned_less [of "time_ms E", where 'a = nat] by simp
    then have "unat (of_nat ts :: 64 word) = ts" by (simp add: unat_of_nat)
    with assms(1) l show ?thesis by (simp add: word_arith_nat_div)
  qed
  define e where "e = float_of_nat (2 * float_of_nat ?x)"
  have e: "e < 2 ^ 64" "unat (time_ms E'') \<le> e"
  proof -
    from float_of_nat_near [of ?x] float_of_nat_near [of "2 * float_of_nat ?x"] assms(2-4)
    show "e < 2 ^ 64" "unat (time_ms E'') \<le> e" unfolding e_def by simp_all
  qed
  have f: "float_of_int 2 = 2" "float_of_int (2 * float_of_int (int ?x)) = int e"
    using float_of_int_nat [of "2 * float_of_nat ?x"] float_of_int_nat [of 2]
    by (simp_all only: float_of_int_nat e_def of_nat_mult of_nat_numeral float_of_nat_2)
  have n: "time_ms E \<noteq> 0" using assms(1) by auto
  have "\<not> word_of_int (int e) < time_ms E''" using e by (simp add: word_less_nat_alt unat_of_nat)
  then show ?thesis
    using e(1) by (simp add: beacon_ping_def beacon_pdu_def beacon_timer_def t i f [simplified] n Let_def)
qed

theorem beacon_deaf_witness:
  "\<exists>s'. beacon_ping demo_hb (plain_env\<lparr>time_ms := 1700000000000\<rparr>)
      [(plain_env\<lparr>time_ms := 1700000000000\<rparr>, [''BEACON'', dec 1699999999990, dec 1000])]
      (beacon_socket plain_env ''tcp://127.0.0.1:2992'' 60 0) = Inr s' \<and>
    beacon_timer demo_hb 8 (plain_env\<lparr>time_ms := 2500000000000\<rparr>) [] s'
      (s_socket ''tcp://127.0.0.1:2999'' 300) = (False, 0, s', s_socket ''tcp://127.0.0.1:2999'' 300)"
  by (rule beacon_deaf) (simp_all add: plain_env_def)

end
