(* ===== verification/Bolo_Subscriber.thy ===== *)
theory Bolo_Subscriber
  imports Bolo_Pdu
begin

text \<open>
  The library of the subscribers (\<open>src/src/bolo_subscriber.c\<close>): the monitor thread collects
  what the other threads of a subscriber count and measure and submits it at every
  tick; a scheduler sends the ticks and a supervisor waits for signals.

  Sockets and threads are given by what their calls return, and \<open>rand\<close> by the number
  it returns. Freeing memory and closing sockets is left out.
\<close>

section \<open>Metrics\<close>

datatype metric_type = METRIC_TYPE_COUNT | METRIC_TYPE_SAMPLE

record metric_t =
  m_type :: metric_type
  m_count :: "64 word"
  m_nsamples :: "64 word"
  m_samples :: "real list"

record monitor_t =
  mo_prefix :: string
  mo_metrics :: "(string, metric_t) fmap"

text \<open>
  The middle of the samples. The number of samples is converted to \<open>int\<close>; a negative
  one makes \<open>qsort\<close> leave the array. The array stays sorted.
\<close>

definition median :: "metric_t \<Rightarrow> (real \<times> metric_t) res" where
  "median m =
     (if m_type m \<noteq> METRIC_TYPE_SAMPLE then Inr (0, m)
      else let n = sint (ucast (m_nsamples m) :: 32 word) in
        if n = 0 then Inr (0, m)
        else let n = (if n > 256 then 256 else n) in
          if n < 0 then Inl OutOfBounds
          else let s = sort (take (nat n) (m_samples m)) @ drop (nat n) (m_samples m); mid = nat (n div 2)
               in Inr (if n mod 2 = 0 then (s ! (mid - 1) + s ! mid) / 2 else s ! mid, m\<lparr>m_samples := s\<rparr>))"

definition reset :: "metric_t \<Rightarrow> metric_t" where
  "reset m = m\<lparr>m_count := 0, m_nsamples := 0, m_samples := replicate 256 0\<rparr>"

definition get_metric :: "monitor_t \<Rightarrow> string \<Rightarrow> metric_type \<Rightarrow> metric_t option \<times> monitor_t" where
  "get_metric M name ty =
     (let M = (case fmlookup (mo_metrics M) name of
                 Some m \<Rightarrow> M
               | None \<Rightarrow> M\<lparr>mo_metrics := fmupd name (reset \<lparr>m_type = ty, m_count = 0, m_nsamples = 0, m_samples = []\<rparr>) (mo_metrics M)\<rparr>)
      in case fmlookup (mo_metrics M) name of
           Some m \<Rightarrow> (if m_type m \<noteq> ty then None else Some m, M)
         | None \<Rightarrow> (None, M))"

section \<open>The monitor\<close>

text \<open>
  One sample. Beyond 256 samples a slot is drawn: \<open>r / RAND_MAX\<close> is a division of
  integers, and the slot is converted to \<open>int\<close>.
\<close>

definition put_sample :: "nat \<Rightarrow> real \<Rightarrow> metric_t \<Rightarrow> metric_t res" where
  "put_sample r v m =
     (if m_nsamples m < 256 then
        Inr (m\<lparr>m_samples := (m_samples m)[unat (m_nsamples m) := v], m_nsamples := m_nsamples m + 1\<rparr>)
      else
        let n = m_nsamples m + 1; i = sint (ucast (of_nat (r div 2147483647) * n) :: 32 word); m = m\<lparr>m_nsamples := n\<rparr> in
        if i < 256 then if i < 0 then Inl OutOfBounds else Inr (m\<lparr>m_samples := (m_samples m)[nat i := v]\<rparr>)
        else Inr m)"

definition input_init :: "pdu \<Rightarrow> monitor_t \<Rightarrow> monitor_t" where
  "input_init p M =
     (if p ! 1 = ''SAMPLE'' then snd (get_metric M (p ! 2) METRIC_TYPE_SAMPLE)
      else if p ! 1 = ''COUNT'' then snd (get_metric M (p ! 2) METRIC_TYPE_COUNT)
      else M)"

definition input_sample :: "env \<Rightarrow> nat \<Rightarrow> pdu \<Rightarrow> monitor_t \<Rightarrow> monitor_t res" where
  "input_sample E r p M =
     (if strtod_end E (p ! 2) \<noteq> [] then Inr M
      else case get_metric M (p ! 1) METRIC_TYPE_SAMPLE of
             (None, M) \<Rightarrow> Inr M
           | (Some m, M) \<Rightarrow>
               bind_res (put_sample r (strtod E (p ! 2)) m) (\<lambda>m. Inr (M\<lparr>mo_metrics := fmupd (p ! 1) m (mo_metrics M)\<rparr>)))"

text \<open>The value of a count: 1 if it is missing, nothing if it is not a number.\<close>

definition count_value :: "pdu \<Rightarrow> 64 word option" where
  "count_value p =
     (if length p \<le> 2 then Some 1 else if number_end (p ! 2) \<noteq> [] then None else Some (strtoul (p ! 2)))"

definition input_count :: "pdu \<Rightarrow> monitor_t \<Rightarrow> monitor_t" where
  "input_count p M =
     (case count_value p of
        None \<Rightarrow> M
      | Some v \<Rightarrow>
          (case get_metric M (p ! 1) METRIC_TYPE_COUNT of
             (None, M) \<Rightarrow> M
           | (Some m, M) \<Rightarrow> M\<lparr>mo_metrics := fmupd (p ! 1) (m\<lparr>m_count := m_count m + v\<rparr>) (mo_metrics M)\<rparr>))"

definition monitor_input :: "env \<Rightarrow> nat \<Rightarrow> pdu \<Rightarrow> monitor_t \<Rightarrow> monitor_t res" where
  "monitor_input E r p M =
     (if hd p = ''INIT'' \<and> length p = 3 then Inr (input_init p M)
      else if hd p = ''SAMPLE'' \<and> length p = 3 then input_sample E r p M
      else if hd p = ''COUNT'' \<and> length p \<ge> 2 then Inr (input_count p M)
      else Inr M)"

definition submit_metric :: "env \<Rightarrow> string \<Rightarrow> string \<Rightarrow> metric_t \<Rightarrow> (metric_t \<times> pdu list) res" where
  "submit_metric E prefix name m =
     (let submit = prefix @ '':'' @ name in
      case m_type m of
        METRIC_TYPE_COUNT \<Rightarrow> Inr (reset m, [bolo_counter_pdu E submit (ucast (m_count m))])
      | METRIC_TYPE_SAMPLE \<Rightarrow>
          bind_res (median m) (\<lambda>(x, m). Inr (reset m, [bolo_sample_pdu E submit [x]])))"

definition monitor_tock :: "env \<Rightarrow> monitor_t \<Rightarrow> (monitor_t \<times> pdu list) res" where
  "monitor_tock E M =
     bind_res (for_each (submit_metric E (mo_prefix M)) (hash_order E H_metrics (fmdom (mo_metrics M))) (mo_metrics M))
       (\<lambda>(ms, ps). Inr (M\<lparr>mo_metrics := ms\<rparr>, ps))"

datatype monitor_socket = Mon_control | Mon_tock | Mon_input | Mon_other

definition monitor_reactor :: "env \<Rightarrow> nat \<Rightarrow> monitor_socket \<Rightarrow> pdu \<Rightarrow> monitor_t \<Rightarrow> (verdict \<times> monitor_t \<times> pdu list) res" where
  "monitor_reactor E r sock p M =
     (case sock of
        Mon_control \<Rightarrow> Inr (if hd p = ''TERMINATE'' then HALT else CONTINUE, M, [])
      | Mon_tock \<Rightarrow> bind_res (monitor_tock E M) (\<lambda>(M, ps). Inr (CONTINUE, M, ps))
      | Mon_input \<Rightarrow> bind_res (monitor_input E r p M) (\<lambda>M. Inr (CONTINUE, M, []))
      | Mon_other \<Rightarrow> Inr (HALT, M, []))"

text \<open>
  The thread: one message after the other, each in the environment and with the random
  number of its moment, until the reactor halts.
\<close>

fun monitor_thread :: "(env \<times> nat \<times> monitor_socket \<times> pdu) list \<Rightarrow> monitor_t \<Rightarrow> (verdict \<times> monitor_t \<times> pdu list) res" where
  "monitor_thread [] M = Inr (CONTINUE, M, [])"
| "monitor_thread ((E, r, sock, p) # ms) M =
     bind_res (monitor_reactor E r sock p M) (\<lambda>(v, M, ps).
       if v = HALT then Inr (HALT, M, ps)
       else bind_res (monitor_thread ms M) (\<lambda>(v, M, qs). Inr (v, M, ps @ qs)))"

section \<open>The other threads\<close>

definition connect_inproc :: "env \<Rightarrow> string \<Rightarrow> int" where
  "connect_inproc E ep =
     (if \<not> sys_ok E Sys_socket ep then - 1
      else if sys_rc E Sys_connect ep \<noteq> 0 then sys_rc E Sys_connect ep
      else 0)"

definition bolo_subscriber_connect_monitor :: "env \<Rightarrow> int" where
  "bolo_subscriber_connect_monitor E = connect_inproc E ''inproc://bolo.sub/v1/monitor.input''"

definition subscribe_inproc :: "env \<Rightarrow> string \<Rightarrow> int" where
  "subscribe_inproc E ep =
     (let rc = connect_inproc E ep in
      if rc \<noteq> 0 then rc else if sys_rc E Sys_setsockopt ep \<noteq> 0 then sys_rc E Sys_setsockopt ep else 0)"

definition bolo_subscriber_connect_scheduler :: "env \<Rightarrow> int" where
  "bolo_subscriber_connect_scheduler E = subscribe_inproc E ''inproc://bolo.sub/v1/scheduler.tick''"

definition bolo_subscriber_connect_supervisor :: "env \<Rightarrow> int" where
  "bolo_subscriber_connect_supervisor E = subscribe_inproc E ''inproc://bolo.sub/v1/supervisor.command''"

definition bolo_subscriber_init :: "env \<Rightarrow> int" where
  "bolo_subscriber_init E = sys_rc E Sys_sigmask []"

text \<open>The sockets are registered with the reactor one after the other; the first failure ends it.\<close>

fun first_failure :: "int list \<Rightarrow> int" where
  "first_failure [] = 0"
| "first_failure (rc # rcs) = (if rc \<noteq> 0 then rc else first_failure rcs)"

definition open_socket :: "env \<Rightarrow> sys_call \<Rightarrow> string \<Rightarrow> int" where
  "open_socket E call ep = (if \<not> sys_ok E Sys_socket ep then - 1 else sys_rc E call ep)"

text \<open>
  The return code, and the monitor if its thread was started; the result of
  \<open>pthread_create\<close> is not looked at.
\<close>

definition bolo_subscriber_monitor_thread :: "env \<Rightarrow> string \<Rightarrow> string \<Rightarrow> int \<times> monitor_t option" where
  "bolo_subscriber_monitor_thread E prefix endpoint =
     (let rc = first_failure
        [bolo_subscriber_connect_supervisor E, bolo_subscriber_connect_scheduler E,
         open_socket E Sys_bind ''inproc://bolo.sub/v1/monitor.input'', open_socket E Sys_connect endpoint,
         if sys_ok E Sys_reactor_new [] then 0 else - 1, sys_rc E Sys_reactor_set ''control'',
         sys_rc E Sys_reactor_set ''tock'', sys_rc E Sys_reactor_set ''input'']
      in if rc \<noteq> 0 then (rc, None) else (0, Some \<lparr>mo_prefix = prefix, mo_metrics = fmempty\<rparr>))"

text \<open>The scheduler: whether it ended, and how often it sent \<open>TOCK\<close>.\<close>

fun subscriber_scheduler :: "poll list \<Rightarrow> bool \<times> nat" where
  "subscriber_scheduler [] = (False, 0)"
| "subscriber_scheduler (Poll_error # ps) = (True, 0)"
| "subscriber_scheduler (Poll_timeout # ps) = (let (e, n) = subscriber_scheduler ps in (e, Suc n))"
| "subscriber_scheduler (Poll_pdu p # ps) = (if hd p = ''TERMINATE'' then (True, 0) else subscriber_scheduler ps)"

definition bolo_subscriber_scheduler_thread :: "env \<Rightarrow> int" where
  "bolo_subscriber_scheduler_thread E = first_failure
     [bolo_subscriber_connect_supervisor E, open_socket E Sys_bind ''inproc://bolo.sub/v1/scheduler.tick'',
      sys_rc E Sys_thread ''scheduler'']"

fun subscriber_signals :: "(int \<times> signal) list \<Rightarrow> pdu option" where
  "subscriber_signals [] = None"
| "subscriber_signals ((rc, sig) # ss) =
     (let sig = (if rc \<noteq> 0 then SIGTERM else sig)
      in if sig = SIGTERM \<or> sig = SIGINT then Some [''TERMINATE''] else subscriber_signals ss)"

definition bolo_subscriber_supervisor :: "env \<Rightarrow> (int \<times> signal) list \<Rightarrow> int \<times> pdu option" where
  "bolo_subscriber_supervisor E ss =
     (let rc = open_socket E Sys_bind ''inproc://bolo.sub/v1/supervisor.command''
      in if rc \<noteq> 0 then (rc, None) else (0, subscriber_signals ss))"

text \<open>
  Announcing metrics: a list of types and names that ends at the first null pointer.
  The result counts the PDUs that could not be sent, negatively; \<open>sends\<close> tells which
  can.
\<close>

fun init_metrics :: "(string \<times> string) list \<Rightarrow> bool list \<Rightarrow> int \<Rightarrow> int \<times> pdu list" where
  "init_metrics ((type, name) # ms) (ok # sends) rc =
     (let (rc, ps) = init_metrics ms sends (if ok then rc else rc - 1)
      in (rc, (if ok then [[''INIT'', type, name]] else []) @ ps))"
| "init_metrics _ _ rc = (rc, [])"

definition bolo_subscriber_metrics :: "env \<Rightarrow> bool list \<Rightarrow> (string \<times> string) list \<Rightarrow> int \<times> pdu list" where
  "bolo_subscriber_metrics E sends ms =
     (let rc = bolo_subscriber_connect_monitor E in if rc \<noteq> 0 then (rc, []) else init_metrics ms sends rc)"

section \<open>The monitor keeps its tables\<close>

definition wf_metric :: "nat \<Rightarrow> metric_t \<Rightarrow> bool" where
  "wf_metric N m \<longleftrightarrow> length (m_samples m) = 256 \<and> unat (m_nsamples m) \<le> N"

definition wf_monitor :: "nat \<Rightarrow> monitor_t \<Rightarrow> bool" where
  "wf_monitor N M = fmpred (\<lambda>k. wf_metric N) (mo_metrics M)"

lemma wf_metric_mono: "wf_metric N m \<Longrightarrow> N \<le> N' \<Longrightarrow> wf_metric N' m"
  by (simp add: wf_metric_def)

lemma wf_monitor_lookup: "wf_monitor N M \<Longrightarrow> fmlookup (mo_metrics M) k = Some m \<Longrightarrow> wf_metric N m"
  by (auto simp: wf_monitor_def fmpred_iff)

lemma wf_monitor_mono: "wf_monitor N M \<Longrightarrow> N \<le> N' \<Longrightarrow> wf_monitor N' M"
  by (auto simp: wf_monitor_def fmpred_iff intro: wf_metric_mono)

lemma wf_monitor_upd: "wf_monitor N M \<Longrightarrow> wf_metric N m \<Longrightarrow> wf_monitor N (M\<lparr>mo_metrics := fmupd k m (mo_metrics M)\<rparr>)"
  by (auto simp: wf_monitor_def fmpred_iff split: if_splits)

lemma wf_reset [simp]: "wf_metric N (reset m)" "m_type (reset m) = m_type m"
  by (simp_all add: wf_metric_def reset_def)

lemma get_metric_cases:
  assumes "get_metric M name ty = (r, M')"
  shows "fmlookup (mo_metrics M) k = Some m \<Longrightarrow> fmlookup (mo_metrics M') k = Some m"
    and "wf_monitor N M \<Longrightarrow> wf_monitor N M'" and "mo_prefix M' = mo_prefix M"
    and "r = Some m \<Longrightarrow> fmlookup (mo_metrics M') name = Some m \<and> m_type m = ty"
    and "fmlookup (mo_metrics M) name = Some m \<Longrightarrow> r = (if m_type m = ty then Some m else None)"
  using assms by (cases "fmlookup (mo_metrics M) name"; auto simp: get_metric_def Let_def wf_monitor_upd split: if_splits)+

lemma unat_Suc_small: "unat (n :: 64 word) < 2 ^ 64 - 1 \<Longrightarrow> unat (n + 1) = Suc (unat n)"
  by (simp add: unat_word_ariths)

lemma sint_ucast_small:
  assumes "unat (n :: 64 word) < 2 ^ 31"
  shows "sint (ucast n :: 32 word) = int (unat n)"
proof -
  have "int (unat n) < int (2 ^ 31)" using assms by (simp only: of_nat_less_iff)
  then have "sint (word_of_int (uint n) :: 32 word) = uint n" by (intro sint_word_of_int_small) simp_all
  then show ?thesis unfolding ucast_eq uint_nat .
qed

lemma put_sample_total:
  assumes "wf_metric N m" "N < 2 ^ 31 - 1" "r \<le> 2147483647"
  shows "\<exists>m'. put_sample r v m = Inr m' \<and> wf_metric (Suc N) m' \<and> m_type m' = m_type m \<and> m_count m' = m_count m"
proof -
  have n: "unat (m_nsamples m + 1) = Suc (unat (m_nsamples m))" "unat (m_nsamples m + 1) < 2 ^ 31"
    using assms(1,2) by (simp_all add: wf_metric_def unat_Suc_small)
  from assms(3) have "r div 2147483647 = 0 \<or> r div 2147483647 = 1" by (cases "r = 2147483647") auto
  then have i: "\<not> sint (ucast (of_nat (r div 2147483647) * (m_nsamples m + 1)) :: 32 word) < 0"
    using sint_ucast_small [OF n(2)] by auto
  show ?thesis using assms(1) i n(1) by (auto simp: put_sample_def Let_def wf_metric_def)
qed

lemma monitor_input_total:
  assumes "wf_monitor N M" "N < 2 ^ 31 - 1" "r \<le> 2147483647"
  shows "\<exists>M'. monitor_input E r p M = Inr M' \<and> wf_monitor (Suc N) M' \<and> mo_prefix M' = mo_prefix M"
proof -
  have m: "wf_monitor (Suc N) M" using assms(1) by (rule wf_monitor_mono) simp
  obtain r1 M1 where 1: "get_metric M (p ! 1) METRIC_TYPE_SAMPLE = (r1, M1)" by fastforce
  obtain r2 M2 where 2: "get_metric M (p ! 1) METRIC_TYPE_COUNT = (r2, M2)" by fastforce
  note g1 = get_metric_cases [OF 1] and g2 = get_metric_cases [OF 2]
  have "\<exists>M'. input_sample E r p M = Inr M' \<and> wf_monitor (Suc N) M' \<and> mo_prefix M' = mo_prefix M"
  proof (cases "strtod_end E (p ! 2) = []")
    case e: True
    show ?thesis
    proof (cases r1)
      case None
      with e g1(2,3) m show ?thesis by (simp add: input_sample_def 1 [simplified])
    next
      case (Some x)
      with g1(4) g1(2) [OF assms(1)] have "wf_metric N x" using wf_monitor_lookup by blast
      from put_sample_total [OF this assms(2,3)] obtain x' where "put_sample r (strtod E (p ! 2)) x = Inr x'" "wf_metric (Suc N) x'"
        by blast
      with Some e g1(2) [OF m] g1(3) show ?thesis by (simp add: input_sample_def 1 [simplified] wf_monitor_upd)
    qed
  qed (simp add: input_sample_def m)
  moreover have "wf_monitor (Suc N) (input_count p M) \<and> mo_prefix (input_count p M) = mo_prefix M"
  proof (cases r2)
    case None
    then show ?thesis using g2(2) [OF m] g2(3) m by (simp add: input_count_def 2 [simplified] split: option.split)
  next
    case (Some x)
    have "wf_metric (Suc N) x" using wf_monitor_lookup [OF g2(2) [OF m]] g2(4) [OF Some] by blast
    then have "wf_metric (Suc N) (x\<lparr>m_count := c\<rparr>)" for c by (simp add: wf_metric_def)
    with Some show ?thesis using g2(2) [OF m] g2(3) m by (simp add: input_count_def 2 [simplified] wf_monitor_upd split: option.split)
  qed
  moreover have "wf_monitor (Suc N) (input_init p M) \<and> mo_prefix (input_init p M) = mo_prefix M"
    using m by (auto simp: input_init_def get_metric_cases(2,3) [OF prod.collapse [symmetric]])
  ultimately show ?thesis by (auto simp: monitor_input_def m)
qed

section \<open>What a metric collects\<close>

definition count_of :: "string \<Rightarrow> pdu \<Rightarrow> nat" where
  "count_of k p =
     (if hd p = ''COUNT'' \<and> length p \<ge> 2 \<and> k = p ! 1 then case count_value p of None \<Rightarrow> 0 | Some v \<Rightarrow> unat v else 0)"

definition samples_of :: "env \<Rightarrow> string \<Rightarrow> pdu \<Rightarrow> real list" where
  "samples_of E k p =
     (if hd p = ''SAMPLE'' \<and> length p = 3 \<and> k = p ! 1 \<and> strtod_end E (p ! 2) = [] then [strtod E (p ! 2)] else [])"

lemma input_init_lookup: "fmlookup (mo_metrics M) k = Some m \<Longrightarrow> fmlookup (mo_metrics (input_init p M)) k = Some m"
  by (auto simp: input_init_def get_metric_cases(1) [OF prod.collapse [symmetric]])

text \<open>Fetching a metric: an existing one is returned if it has the type, and a present entry stays.\<close>

lemma get_metric_present:
  assumes "fmlookup (mo_metrics M) k = Some m"
  obtains r M' where "get_metric M name ty = (r, M')" "fmlookup (mo_metrics M') k = Some m"
    "k = name \<Longrightarrow> r = (if m_type m = ty then Some m else None)"
proof -
  obtain r M' where g: "get_metric M name ty = (r, M')" by fastforce
  with get_metric_cases(1,5) [OF g] assms that show ?thesis by blast
qed

lemma input_count_lookup:
  assumes "fmlookup (mo_metrics M) k = Some m"
  shows "fmlookup (mo_metrics (input_count p M)) k =
    Some (if k = p ! 1 \<and> m_type m = METRIC_TYPE_COUNT
      then m\<lparr>m_count := m_count m + (case count_value p of None \<Rightarrow> 0 | Some v \<Rightarrow> v)\<rparr> else m)"
proof -
  obtain r M' where g: "get_metric M (p ! 1) METRIC_TYPE_COUNT = (r, M')" "fmlookup (mo_metrics M') k = Some m"
    "k = p ! 1 \<Longrightarrow> r = (if m_type m = METRIC_TYPE_COUNT then Some m else None)"
    using get_metric_present [OF assms] by blast
  show ?thesis
  proof (cases "k = p ! 1")
    case True
    show ?thesis using g(2) g(3) [OF True] assms by (simp add: input_count_def g(1) [simplified] True split: option.split)
  next
    case False
    show ?thesis using g(2) False assms by (simp add: input_count_def g(1) [simplified] split: option.split)
  qed
qed

lemma input_sample_lookup:
  assumes "fmlookup (mo_metrics M) k = Some m" "input_sample E r p M = Inr M'"
  shows "if k = p ! 1 \<and> m_type m = METRIC_TYPE_SAMPLE \<and> strtod_end E (p ! 2) = []
    then \<exists>m'. put_sample r (strtod E (p ! 2)) m = Inr m' \<and> fmlookup (mo_metrics M') k = Some m'
    else fmlookup (mo_metrics M') k = Some m"
proof (cases "strtod_end E (p ! 2) = []")
  case e: True
  obtain x M1 where g: "get_metric M (p ! 1) METRIC_TYPE_SAMPLE = (x, M1)" "fmlookup (mo_metrics M1) k = Some m"
    "k = p ! 1 \<Longrightarrow> x = (if m_type m = METRIC_TYPE_SAMPLE then Some m else None)"
    using get_metric_present [OF assms(1)] by blast
  show ?thesis
  proof (cases "k = p ! 1")
    case True
    show ?thesis using g(2) g(3) [OF True] assms(2) e
      by (auto simp: input_sample_def g(1) [simplified] True bind_res_Inr_iff split: if_splits)
  next
    case False
    show ?thesis using g(2) False assms(2) e
      by (cases x) (auto simp: input_sample_def g(1) [simplified] bind_res_Inr_iff)
  qed
qed (use assms in \<open>simp add: input_sample_def\<close>)

definition inputs :: "(env \<times> nat \<times> pdu) list \<Rightarrow> (env \<times> nat \<times> monitor_socket \<times> pdu) list" where
  "inputs ms = map (\<lambda>(E, r, p). (E, r, Mon_input, p)) ms"

primrec monitor_inputs :: "(env \<times> nat \<times> pdu) list \<Rightarrow> monitor_t \<Rightarrow> monitor_t res" where
  "monitor_inputs [] M = Inr M"
| "monitor_inputs (x # ms) M = (case x of (E, r, p) \<Rightarrow> bind_res (monitor_input E r p M) (monitor_inputs ms))"

lemma thread_inputs: "monitor_thread (inputs ms @ rest) M = bind_res (monitor_inputs ms M) (monitor_thread rest)"
proof (induction ms arbitrary: M)
  case (Cons x ms)
  obtain E r p where x: "x = (E, r, p)" by (cases x) auto
  show ?case
  proof (cases "monitor_input E r p M")
    case (Inr M1)
    have "bind_res y (\<lambda>(v, M, qs). Inr (v, M, [] @ qs)) = y" for y :: "(verdict \<times> monitor_t \<times> pdu list) res"
      by (cases y) auto
    with Inr Cons [of M1] show ?thesis by (simp add: x inputs_def monitor_reactor_def)
  qed (simp add: x inputs_def monitor_reactor_def)
qed (simp add: inputs_def)

abbreviation rands_ok :: "(env \<times> nat \<times> pdu) list \<Rightarrow> bool" where
  "rands_ok ms \<equiv> list_all (\<lambda>(E, r, p). r \<le> 2147483647) ms"

lemma monitor_inputs_total:
  assumes "wf_monitor N M" "N + length ms < 2 ^ 31" "rands_ok ms"
  shows "\<exists>M'. monitor_inputs ms M = Inr M' \<and> wf_monitor (N + length ms) M' \<and> mo_prefix M' = mo_prefix M"
  using assms
proof (induction ms arbitrary: N M)
  case (Cons x ms)
  obtain E r p where x: "x = (E, r, p)" by (cases x) auto
  with Cons.prems have "N < 2 ^ 31 - 1" "r \<le> 2147483647" by auto
  with monitor_input_total [OF Cons.prems(1) this, of E p] obtain M1 where
    1: "monitor_input E r p M = Inr M1" "wf_monitor (Suc N) M1" "mo_prefix M1 = mo_prefix M" by blast
  from Cons.IH [OF 1(2)] Cons.prems(2,3) 1 show ?case by (simp add: x)
qed simp

lemma monitor_inputs_count:
  assumes "fmlookup (mo_metrics M) k = Some m" "m_type m = METRIC_TYPE_COUNT" "monitor_inputs ms M = Inr M'"
  shows "fmlookup (mo_metrics M') k = Some (m\<lparr>m_count := m_count m + of_nat (\<Sum>(E, r, p)\<leftarrow>ms. count_of k p)\<rparr>)"
  using assms
proof (induction ms arbitrary: M m)
  case (Cons x ms)
  obtain E r p where x: "x = (E, r, p)" by (cases x) auto
  with Cons.prems(3) obtain M1 where 1: "monitor_input E r p M = Inr M1" "monitor_inputs ms M1 = Inr M'"
    by (auto simp: bind_res_Inr_iff)
  let ?m = "m\<lparr>m_count := m_count m + of_nat (count_of k p)\<rparr>"
  have "fmlookup (mo_metrics M1) k = Some ?m"
    using 1(1) Cons.prems(1,2) input_init_lookup [OF Cons.prems(1), of p] input_sample_lookup [OF Cons.prems(1), of E r p M1]
      input_count_lookup [OF Cons.prems(1), of p]
    by (auto simp: monitor_input_def count_of_def split: if_splits option.splits)
  from Cons.IH [OF this _ 1(2)] Cons.prems(2) show ?case by (simp add: x add.assoc)
qed simp

text \<open>A sample metric that holds the list of values \<open>vs\<close>.\<close>

definition holds :: "real list \<Rightarrow> metric_t \<Rightarrow> bool" where
  "holds vs m \<longleftrightarrow> m_type m = METRIC_TYPE_SAMPLE \<and> length (m_samples m) = 256 \<and> m_nsamples m = of_nat (length vs) \<and>
     take (length vs) (m_samples m) = vs"

lemma unat_of_nat_small: "n \<le> 2 ^ 32 \<Longrightarrow> unat (of_nat n :: 64 word) = n"
  by (simp add: unat_of_nat)

lemma put_sample_holds:
  assumes "holds vs m" "length vs < 256" "put_sample r v m = Inr m'"
  shows "holds (vs @ [v]) m'"
proof -
  have n: "unat (m_nsamples m) = length vs" "m_nsamples m < 256"
    using assms(1,2) by (simp_all add: holds_def unat_of_nat_small word_less_nat_alt)
  with assms show ?thesis
    by (auto simp: holds_def put_sample_def take_Suc_conv_app_nth)
qed

lemma monitor_inputs_samples:
  assumes "fmlookup (mo_metrics M) k = Some m" "holds xs m" "monitor_inputs ms M = Inr M'"
    and "length (xs @ concat (map (\<lambda>(E, r, p). samples_of E k p) ms)) \<le> 256"
  shows "\<exists>m'. fmlookup (mo_metrics M') k = Some m' \<and> holds (xs @ concat (map (\<lambda>(E, r, p). samples_of E k p) ms)) m'"
  using assms
proof (induction ms arbitrary: M m xs)
  case (Cons x ms)
  obtain E r p where x: "x = (E, r, p)" by (cases x) auto
  with Cons.prems(3) obtain M1 where 1: "monitor_input E r p M = Inr M1" "monitor_inputs ms M1 = Inr M'"
    by (auto simp: bind_res_Inr_iff)
  have ty: "m_type m = METRIC_TYPE_SAMPLE" using Cons.prems(2) by (simp add: holds_def)
  have l: "length (xs @ samples_of E k p) \<le> 256" using Cons.prems(4) by (simp add: x)
  have "\<exists>m1. fmlookup (mo_metrics M1) k = Some m1 \<and> holds (xs @ samples_of E k p) m1"
  proof (cases "samples_of E k p = []")
    case True
    then show ?thesis
      using 1(1) Cons.prems(1,2) ty input_init_lookup [OF Cons.prems(1), of p] input_sample_lookup [OF Cons.prems(1), of E r p M1]
        input_count_lookup [OF Cons.prems(1), of p]
      by (auto simp: monitor_input_def samples_of_def split: if_splits)
  next
    case False
    then have s: "hd p = ''SAMPLE''" "length p = 3" "p ! 1 = k" "strtod_end E (p ! 2) = []" "samples_of E k p = [strtod E (p ! 2)]"
      by (auto simp: samples_of_def split: if_splits)
    with 1(1) have "input_sample E r p M = Inr M1" by (simp add: monitor_input_def)
    from input_sample_lookup [OF Cons.prems(1) this] s ty obtain m1 where
      "put_sample r (strtod E (p ! 2)) m = Inr m1" "fmlookup (mo_metrics M1) k = Some m1" by auto
    with put_sample_holds [OF Cons.prems(2)] l s(5) show ?thesis by auto
  qed
  then obtain m1 where "fmlookup (mo_metrics M1) k = Some m1" "holds (xs @ samples_of E k p) m1" by blast
  from Cons.IH [OF this 1(2)] Cons.prems(4) show ?case by (simp add: x)
qed auto

section \<open>The median\<close>

text \<open>A value in the middle of a list: at least half of the list is not above it, and at least half not below.\<close>

definition in_middle :: "real \<Rightarrow> real list \<Rightarrow> bool" where
  "in_middle x vs \<longleftrightarrow> length vs \<le> 2 * length (filter (\<lambda>v. v \<le> x) vs) \<and> length vs \<le> 2 * length (filter (\<lambda>v. x \<le> v) vs)"

lemma length_filter_prefix: "\<forall>i < j. P (xs ! i) \<Longrightarrow> j \<le> length xs \<Longrightarrow> j \<le> length (filter P xs)"
proof -
  assume a: "\<forall>i < j. P (xs ! i)" "j \<le> length xs"
  then have "filter P (take j xs) = take j xs" by (auto simp: filter_id_conv in_set_conv_nth)
  then have "length (filter P xs) = length (take j xs) + length (filter P (drop j xs))"
    by (metis append_take_drop_id filter_append length_append)
  with a(2) show ?thesis by simp
qed

lemma length_filter_suffix: "\<forall>i. j \<le> i \<and> i < length xs \<longrightarrow> P (xs ! i) \<Longrightarrow> length xs - j \<le> length (filter P xs)"
proof -
  assume a: "\<forall>i. j \<le> i \<and> i < length xs \<longrightarrow> P (xs ! i)"
  then have "filter P (drop j xs) = drop j xs" by (auto simp: filter_id_conv in_set_conv_nth)
  then have "length (filter P xs) = length (filter P (take j xs)) + length (drop j xs)"
    by (metis append_take_drop_id filter_append length_append)
  then show ?thesis by simp
qed

lemma in_middle_sort: "in_middle x (sort vs) = in_middle x vs"
  by (simp add: in_middle_def filter_sort)

lemma sorted_in_middle:
  assumes "sorted s" "s \<noteq> []" "mid = length s div 2"
  shows "in_middle (if even (length s) then (s ! (mid - 1) + s ! mid) / 2 else s ! mid) s"
proof -
  let ?x = "if even (length s) then (s ! (mid - 1) + s ! mid) / 2 else s ! mid"
  have m: "mid < length s" using assms(2,3) by (cases s) auto
  have lo: "\<forall>i < length s - mid. s ! i \<le> ?x"
  proof (intro allI impI)
    fix i assume "i < length s - mid"
    show "s ! i \<le> ?x"
    proof (cases "even (length s)")
      case True
      with \<open>i < length s - mid\<close> assms(3) have "i \<le> mid - 1" "mid - 1 \<le> mid" by auto
      with m assms(1) have "s ! i \<le> s ! (mid - 1)" "s ! (mid - 1) \<le> s ! mid" by (auto intro: sorted_nth_mono)
      with True show ?thesis by simp
    next
      case False
      with \<open>i < length s - mid\<close> assms(3) have "i \<le> mid" by presburger
      with False m assms(1) show ?thesis by (auto intro: sorted_nth_mono)
    qed
  qed
  have hi: "\<forall>i. mid \<le> i \<and> i < length s \<longrightarrow> ?x \<le> s ! i"
  proof (intro allI impI)
    fix i assume i: "mid \<le> i \<and> i < length s"
    with m assms(1) have "s ! (mid - 1) \<le> s ! mid" "s ! mid \<le> s ! i" by (auto intro: sorted_nth_mono)
    then show "?x \<le> s ! i" by auto
  qed
  from length_filter_prefix [OF lo] length_filter_suffix [OF hi] assms(3) show ?thesis unfolding in_middle_def by linarith
qed

lemma median_holds:
  assumes "holds vs m" "vs \<noteq> []" "length vs \<le> 256"
  shows "\<exists>x m'. median m = Inr (x, m') \<and> in_middle x vs \<and> m_type m' = METRIC_TYPE_SAMPLE"
proof -
  let ?n = "length vs" let ?s = "sort vs @ drop ?n (m_samples m)" let ?mid = "?n div 2"
  have n: "sint (ucast (m_nsamples m) :: 32 word) = int ?n"
    using assms(1,3) sint_ucast_small [of "m_nsamples m"] by (simp add: holds_def unat_of_nat_small)
  have s: "sort (take ?n (m_samples m)) @ drop ?n (m_samples m) = ?s" using assms(1) by (simp add: holds_def)
  have l: "length (sort vs) = ?n" "?mid < ?n" "?mid - 1 < ?n" using assms(2) by (cases vs; auto)+
  then have a: "?s ! ?mid = sort vs ! ?mid" "?s ! (?mid - 1) = sort vs ! (?mid - 1)" by (simp_all only: nth_append if_True)
  let ?x = "if even ?n then (sort vs ! (?mid - 1) + sort vs ! ?mid) / 2 else sort vs ! ?mid"
  have "median m = Inr (?x, m\<lparr>m_samples := ?s\<rparr>)"
  proof -
    have ty: "m_type m = METRIC_TYPE_SAMPLE" and z: "int ?n \<noteq> 0" "\<not> int ?n > 256" "\<not> int ?n < 0" "nat (int ?n) = ?n"
      using assms by (simp_all add: holds_def)
    have e: "(int ?n mod 2 = 0) = even ?n" "nat (int ?n div 2) = ?mid" by (simp_all add: nat_div_distrib) presburger
    show ?thesis unfolding median_def n Let_def using ty z(1-3) by (simp only: z(4) s e a if_False not_True_eq_False simp_thms)
  qed
  moreover have "in_middle ?x vs"
  proof -
    have "sort vs \<noteq> []" using l(1) assms(2) by fastforce
    from sorted_in_middle [OF sorted_sort this, of ?mid] show ?thesis by (simp only: l(1) in_middle_sort simp_thms)
  qed
  ultimately show ?thesis using assms(1) by (auto simp: holds_def)
qed

section \<open>The reports\<close>

lemma submit_metric_total:
  assumes "wf_metric N m" "N < 2 ^ 31"
  shows "\<exists>q. submit_metric E prefix k m = Inr (reset m, [q]) \<and> q ! 2 = prefix @ '':'' @ k"
proof (cases "m_type m")
  case METRIC_TYPE_COUNT
  then show ?thesis by (simp add: submit_metric_def bolo_counter_pdu_def)
next
  case METRIC_TYPE_SAMPLE
  have "sint (ucast (m_nsamples m) :: 32 word) = int (unat (m_nsamples m))"
    using assms by (intro sint_ucast_small) (simp add: wf_metric_def)
  then have "\<exists>x m'. median m = Inr (x, m') \<and> reset m' = reset m"
    using METRIC_TYPE_SAMPLE by (auto simp: median_def Let_def reset_def)
  with METRIC_TYPE_SAMPLE show ?thesis by (auto simp: submit_metric_def bolo_sample_pdu_def vsample_pdu_def)
qed

lemma monitor_tock_reports:
  assumes "visits_all E" "wf_monitor N M" "N < 2 ^ 31" and k: "fmlookup (mo_metrics M) k = Some m"
  shows "\<exists>M' out q. monitor_tock E M = Inr (M', out) \<and> submit_metric E (mo_prefix M) k m = Inr (reset m, [q]) \<and>
    filter (\<lambda>q. q ! 2 = mo_prefix M @ '':'' @ k) out = [q] \<and> fmlookup (mo_metrics M') k = Some (reset m)"
proof -
  let ?ks = "hash_order E H_metrics (fmdom (mo_metrics M))"
  note v = visits_allD [OF assms(1), of H_metrics "fmdom (mo_metrics M)"]
  define g where "g j x = (case submit_metric E (mo_prefix M) j x of Inr y \<Rightarrow> y | Inl _ \<Rightarrow> (x, []))" for j x
  have g: "submit_metric E (mo_prefix M) j x = Inr (g j x) \<and> fst (g j x) = reset x \<and>
      (\<exists>q. snd (g j x) = [q] \<and> q ! 2 = mo_prefix M @ '':'' @ j)" if "fmlookup (mo_metrics M) j = Some x" for j x
    using submit_metric_total [OF wf_monitor_lookup [OF assms(2) that] assms(3), of E "mo_prefix M" j] by (auto simp: g_def)
  obtain ms where ms: "for_each (submit_metric E (mo_prefix M)) ?ks (mo_metrics M) = Inr (ms, walked g ?ks (mo_metrics M))"
    "fmlookup ms k = map_option (\<lambda>x. fst (g k x)) (fmlookup (mo_metrics M) k)"
    using for_each_total [OF v(1), of "mo_metrics M" "submit_metric E (mo_prefix M)" g] g fmdomI [OF k] v(2) by fastforce
  have f: "filter (\<lambda>q. q ! 2 = mo_prefix M @ '':'' @ k) (walked g js (mo_metrics M)) =
      (if k \<in> set js then snd (g k m) else [])" if "distinct js" "set js \<subseteq> fset (fmdom (mo_metrics M))" for js
    using that
  proof (induction js)
    case (Cons j js)
    then obtain x where x: "fmlookup (mo_metrics M) j = Some x" by (auto simp: fmlookup_dom'_iff)
    with g obtain q where "snd (g j x) = [q]" "q ! 2 = mo_prefix M @ '':'' @ j" by blast
    with Cons x k show ?case by (auto simp: walked_def)
  qed (simp add: walked_def)
  from g [OF k] obtain q where q: "g k m = (reset m, [q])" "submit_metric E (mo_prefix M) k m = Inr (g k m)"
    by (metis prod.collapse)
  have "filter (\<lambda>q. q ! 2 = mo_prefix M @ '':'' @ k) (walked g ?ks (mo_metrics M)) = [q]"
    using f [OF v(1)] v(2) k q(1) by (simp add: fmdomI)
  with ms k q show ?thesis by (simp add: monitor_tock_def)
qed

text \<open>The PDUs of a run that ends with a tick, in the form both reports share.\<close>

lemma monitor_period:
  assumes "visits_all E" "wf_monitor N M" "N + length ms < 2 ^ 31" "rands_ok ms"
    and k: "\<And>M'. monitor_inputs ms M = Inr M' \<Longrightarrow> \<exists>m'. fmlookup (mo_metrics M') k = Some m' \<and> P m'"
  shows "\<exists>M' out m' q. monitor_thread (inputs ms @ [(E, r, Mon_tock, p)]) M = Inr (CONTINUE, M', out) \<and> P m' \<and>
    submit_metric E (mo_prefix M) k m' = Inr (reset m', [q]) \<and>
    filter (\<lambda>q. q ! 2 = mo_prefix M @ '':'' @ k) out = [q] \<and> fmlookup (mo_metrics M') k = Some (reset m')"
proof -
  from monitor_inputs_total [OF assms(2-4)] obtain M1 where
    1: "monitor_inputs ms M = Inr M1" "wf_monitor (N + length ms) M1" "mo_prefix M1 = mo_prefix M" by blast
  from k [OF 1(1)] obtain m' where m': "fmlookup (mo_metrics M1) k = Some m'" "P m'" by blast
  from monitor_tock_reports [OF assms(1) 1(2) assms(3) m'(1)] 1 m'(2) show ?thesis
    by (fastforce simp: thread_inputs monitor_reactor_def)
qed

text \<open>
  C27: between two ticks a subscriber may count under any names and in any
  order; at the next tick every counter is submitted in exactly one PDU, which
  carries the sum of what was counted under its name (modulo \<open>2^32\<close>), and starts again.
\<close>

theorem monitor_counts:
  assumes "visits_all E" "wf_monitor N M" "N + length ms < 2 ^ 31" "rands_ok ms"
    and "fmlookup (mo_metrics M) k = Some m" "m_type m = METRIC_TYPE_COUNT" "m_count m = 0"
  shows "\<exists>M' out. monitor_thread (inputs ms @ [(E, r, Mon_tock, p)]) M = Inr (CONTINUE, M', out) \<and>
    filter (\<lambda>q. q ! 2 = mo_prefix M @ '':'' @ k) out =
      [bolo_counter_pdu E (mo_prefix M @ '':'' @ k) (of_nat (\<Sum>(E, r, p)\<leftarrow>ms. count_of k p))] \<and>
    fmlookup (mo_metrics M') k = Some (reset m)"
proof -
  define n where "n = (\<Sum>(E, r, p)\<leftarrow>ms. count_of k p)"
  let ?m = "m\<lparr>m_count := m_count m + of_nat n\<rparr>"
  have "\<exists>m'. fmlookup (mo_metrics M') k = Some m' \<and> m' = ?m" if "monitor_inputs ms M = Inr M'" for M'
    using monitor_inputs_count [OF assms(5,6) that] by (simp add: n_def)
  from monitor_period [OF assms(1-4) this] obtain M' out q where
    r: "monitor_thread (inputs ms @ [(E, r, Mon_tock, p)]) M = Inr (CONTINUE, M', out)"
    "submit_metric E (mo_prefix M) k ?m = Inr (reset ?m, [q])"
    "filter (\<lambda>q. q ! 2 = mo_prefix M @ '':'' @ k) out = [q]" "fmlookup (mo_metrics M') k = Some (reset ?m)" by blast
  have "q = bolo_counter_pdu E (mo_prefix M @ '':'' @ k) (of_nat n)"
    using r(2) assms(6,7) by (simp add: submit_metric_def ucast_narrow)
  moreover have "reset ?m = reset m" by (simp add: reset_def)
  ultimately show ?thesis using r by (auto simp: n_def)
qed

text \<open>
  C28: up to 256 values measured under a name between two ticks are submitted
  as one PDU that carries their median: at least half of the values are not above it
  and at least half are not below it.
\<close>

theorem monitor_median:
  assumes "visits_all E" "wf_monitor N M" "N + length ms < 2 ^ 31" "rands_ok ms"
    and "fmlookup (mo_metrics M) k = Some m" "m_type m = METRIC_TYPE_SAMPLE" "m_nsamples m = 0"
    and vs: "vs = concat (map (\<lambda>(E, r, p). samples_of E k p) ms)" "vs \<noteq> []" "length vs \<le> 256"
  shows "\<exists>M' out x. monitor_thread (inputs ms @ [(E, r, Mon_tock, p)]) M = Inr (CONTINUE, M', out) \<and>
    filter (\<lambda>q. q ! 2 = mo_prefix M @ '':'' @ k) out = [bolo_sample_pdu E (mo_prefix M @ '':'' @ k) [x]] \<and> in_middle x vs"
proof -
  have h: "holds [] m" using assms(6,7) wf_monitor_lookup [OF assms(2,5)] by (simp add: holds_def wf_metric_def)
  have "\<exists>m'. fmlookup (mo_metrics M') k = Some m' \<and> holds vs m'" if "monitor_inputs ms M = Inr M'" for M'
    using monitor_inputs_samples [OF assms(5) h that] vs by simp
  from monitor_period [OF assms(1-4) this] obtain M' out m' q where
    r: "monitor_thread (inputs ms @ [(E, r, Mon_tock, p)]) M = Inr (CONTINUE, M', out)" "holds vs m'"
    "submit_metric E (mo_prefix M) k m' = Inr (reset m', [q])"
    "filter (\<lambda>q. q ! 2 = mo_prefix M @ '':'' @ k) out = [q]" by blast
  from median_holds [OF r(2) vs(2,3)] obtain x m'' where "median m' = Inr (x, m'')" "in_middle x vs" by blast
  moreover have "m_type m' = METRIC_TYPE_SAMPLE" using r(2) by (simp add: holds_def)
  ultimately show ?thesis using r by (auto simp: submit_metric_def)
qed

definition demo_monitor :: "metric_type \<Rightarrow> monitor_t" where
  "demo_monitor ty = \<lparr>mo_prefix = ''sub'', mo_metrics = fmupd ''a'' (reset \<lparr>m_type = ty, m_count = 0, m_nsamples = 0, m_samples = []\<rparr>) fmempty\<rparr>"

lemma demo_monitor [simp]:
  "wf_monitor 0 (demo_monitor ty)" "mo_prefix (demo_monitor ty) = ''sub''"
  "fmlookup (mo_metrics (demo_monitor ty)) ''a'' = Some (reset \<lparr>m_type = ty, m_count = 0, m_nsamples = 0, m_samples = []\<rparr>)"
  by (simp_all add: demo_monitor_def wf_monitor_def fmpred_iff)

theorem monitor_counts_witness:
  "\<exists>M' out. monitor_thread (inputs [(plain_env, 7, [''COUNT'', ''a'']), (plain_env, 7, [''COUNT'', ''a'', ''41''])] @
      [(plain_env, 7, Mon_tock, [''TOCK''])]) (demo_monitor METRIC_TYPE_COUNT) = Inr (CONTINUE, M', out) \<and>
    filter (\<lambda>q. q ! 2 = ''sub:a'') out = [bolo_counter_pdu plain_env ''sub:a'' 42]"
proof -
  let ?ms = "[(plain_env, 7, [''COUNT'', ''a'']), (plain_env, 7, [''COUNT'', ''a'', ''41''])]"
  have c: "count_of ''a'' [''COUNT'', ''a''] = 1" "count_of ''a'' [''COUNT'', ''a'', ''41''] = 41"
    by (simp_all add: count_of_def count_value_def number_end_def strtoul_def strip_sign_def isspace_def isdigit_def
        digits_val_def digit_val_def)
  show ?thesis
    using monitor_counts [of plain_env 0 "demo_monitor METRIC_TYPE_COUNT" ?ms "''a''" _ 7 "[''TOCK'']", OF _ _ _ _ demo_monitor(3)]
    by (fastforce simp: c reset_def)
qed

theorem monitor_median_witness:
  "\<exists>M' out x. monitor_thread (inputs [(plain_env, 7, [''SAMPLE'', ''a'', ''3'']), (plain_env, 7, [''SAMPLE'', ''a'', ''9'']),
      (plain_env, 7, [''SAMPLE'', ''a'', ''5''])] @ [(plain_env, 7, Mon_tock, [''TOCK''])]) (demo_monitor METRIC_TYPE_SAMPLE) =
      Inr (CONTINUE, M', out) \<and>
    filter (\<lambda>q. q ! 2 = ''sub:a'') out = [bolo_sample_pdu plain_env ''sub:a'' [x]] \<and> in_middle x [3, 9, 5]"
proof -
  let ?ms = "[(plain_env, 7, [''SAMPLE'', ''a'', ''3'']), (plain_env, 7, [''SAMPLE'', ''a'', ''9'']), (plain_env, 7, [''SAMPLE'', ''a'', ''5''])]"
  have c: "samples_of plain_env ''a'' [''SAMPLE'', ''a'', ''3''] = [3]" "samples_of plain_env ''a'' [''SAMPLE'', ''a'', ''9''] = [9]"
    "samples_of plain_env ''a'' [''SAMPLE'', ''a'', ''5''] = [5]"
    by (simp_all add: samples_of_def plain_env_def number_end_def strtol_def strip_sign_def isspace_def isdigit_def
        digits_val_def digit_val_def)
  show ?thesis
    using monitor_median [of plain_env 0 "demo_monitor METRIC_TYPE_SAMPLE" ?ms "''a''" _ "[3, 9, 5]" 7 "[''TOCK'']", OF _ _ _ _ demo_monitor(3)]
    by (fastforce simp: c reset_def)
qed

end
