(* ===== verification/Bolo_Cache.thy ===== *)
theory Bolo_Cache
  imports Bolo_Subscriber
begin

text \<open>
  The command \<open>bolo cache\<close> (\<open>src/src/bolo/cmd_cache.c\<close>): it relays what the aggregator
  broadcasts and keeps the last state, counter, sample and rate of each name, to send
  them again on request.

  Sockets and threads are given by what their calls return; log texts and the release of
  memory are left out.
\<close>

section \<open>The dispatcher\<close>

record dispatcher_t =
  d_pdus :: "(string, pdu) fmap"

definition frame :: "nat \<Rightarrow> pdu \<Rightarrow> string option" where
  "frame n p = (if n < length p then Some (p ! n) else None)"

definition cache_key :: "pdu \<Rightarrow> string option" where
  "cache_key p =
     (if hd p = ''COUNTER'' \<or> hd p = ''SAMPLE'' \<or> hd p = ''RATE'' then frame 2 p
      else if hd p = ''STATE'' then frame 1 p
      else None)"

datatype cache_socket = Ca_control | Ca_subscriber | Ca_listen | Ca_other

definition dispatcher_reactor :: "env \<Rightarrow> cache_socket \<Rightarrow> pdu \<Rightarrow> dispatcher_t \<Rightarrow> verdict \<times> dispatcher_t \<times> pdu list" where
  "dispatcher_reactor E sock p D =
     (case sock of
        Ca_control \<Rightarrow> (HALT, D, [])
      | Ca_subscriber \<Rightarrow>
          (CONTINUE,
           case cache_key p of None \<Rightarrow> D | Some key \<Rightarrow> D\<lparr>d_pdus := fmupd key p (d_pdus D)\<rparr>,
           [p])
      | Ca_listen \<Rightarrow>
          (CONTINUE, D,
           if hd p = ''REPEAT''
           then List.map_filter (fmlookup (d_pdus D)) (hash_order E H_pdus (fmdom (d_pdus D)))
           else [])
      | Ca_other \<Rightarrow> (HALT, D, []))"

text \<open>The thread: one message after the other until the reactor halts; what it broadcasts.\<close>

fun dispatcher_loop :: "(env \<times> cache_socket \<times> pdu) list \<Rightarrow> dispatcher_t \<Rightarrow> verdict \<times> dispatcher_t \<times> pdu list" where
  "dispatcher_loop [] D = (CONTINUE, D, [])"
| "dispatcher_loop ((E, sock, p) # ms) D =
     (let (v, D, ps) = dispatcher_reactor E sock p D
      in if v = HALT then (HALT, D, ps)
         else let (v, D, qs) = dispatcher_loop ms D in (v, D, ps @ qs))"

definition blank_dispatcher :: dispatcher_t where
  "blank_dispatcher = \<lparr>d_pdus = fmempty\<rparr>"

definition dispatcher_thread :: "env \<Rightarrow> string \<Rightarrow> string \<Rightarrow> string \<Rightarrow> int" where
  "dispatcher_thread E endpoint listen broadcast = first_failure
     [bolo_subscriber_connect_supervisor E,
      if \<not> sys_ok E Sys_socket endpoint then - 1 else sys_rc E Sys_setsockopt endpoint, sys_rc E Sys_connect endpoint,
      open_socket E Sys_bind listen, open_socket E Sys_bind broadcast,
      if sys_ok E Sys_reactor_new [] then 0 else - 1, sys_rc E Sys_reactor_set ''control'',
      sys_rc E Sys_reactor_set ''subscriber'', sys_rc E Sys_reactor_set ''listen'', sys_rc E Sys_thread ''dispatcher'']"

section \<open>The command\<close>

record cache_options =
  ca_endpoint :: string
  ca_listen :: string
  ca_broadcast :: string
  ca_verbose :: "32 word"
  ca_daemonize :: bool
  ca_pidfile :: string
  ca_user :: string
  ca_group :: string

definition cache_defaults :: cache_options where
  "cache_defaults = \<lparr>ca_endpoint = ''tcp://127.0.0.1:2997'', ca_listen = ''tcp://127.0.0.1:2898'',
     ca_broadcast = ''tcp://127.0.0.1:2897'', ca_verbose = 0, ca_daemonize = True,
     ca_pidfile = ''/var/run/bolo/cache.pid'', ca_user = ''root'', ca_group = ''root''\<rparr>"

text \<open>\<open>getopt_long\<close> is given by the options it returns, each with its argument.\<close>

fun cache_getopt :: "(char \<times> string) list \<Rightarrow> cache_options \<Rightarrow> int + cache_options" where
  "cache_getopt [] opt = Inr opt"
| "cache_getopt ((c, optarg) # os) opt =
     (if c = CHR ''v'' then cache_getopt os (opt\<lparr>ca_verbose := ca_verbose opt + 1\<rparr>)
      else if c = CHR ''e'' then cache_getopt os (opt\<lparr>ca_endpoint := optarg\<rparr>)
      else if c = CHR ''F'' then cache_getopt os (opt\<lparr>ca_daemonize := False\<rparr>)
      else if c = CHR ''p'' then cache_getopt os (opt\<lparr>ca_pidfile := optarg\<rparr>)
      else if c = CHR ''u'' then cache_getopt os (opt\<lparr>ca_user := optarg\<rparr>)
      else if c = CHR ''g'' then cache_getopt os (opt\<lparr>ca_group := optarg\<rparr>)
      else if c = CHR ''l'' then cache_getopt os (opt\<lparr>ca_listen := optarg\<rparr>)
      else if c = CHR ''B'' then cache_getopt os (opt\<lparr>ca_broadcast := optarg\<rparr>)
      else Inl 1)"

text \<open>The exit code, and the dispatcher if its thread was started.\<close>

definition cmd_cache :: "env \<Rightarrow> (char \<times> string) list \<Rightarrow> (int \<times> signal) list \<Rightarrow> int \<times> dispatcher_t option" where
  "cmd_cache E os sigs =
     (case cache_getopt os cache_defaults of
        Inl rc \<Rightarrow> (rc, None)
      | Inr opt \<Rightarrow>
          if ca_daemonize opt \<and> sys_rc E Sys_daemonize (ca_pidfile opt) \<noteq> 0 then (3, None)
          else if \<not> sys_ok E Sys_zmq_ctx [] then (1, None)
          else if bolo_subscriber_init E \<noteq> 0 then (2, None)
          else if dispatcher_thread E (ca_endpoint opt) (ca_listen opt) (ca_broadcast opt) \<noteq> 0 then (2, None)
          else let _ = bolo_subscriber_supervisor E sigs in (0, Some blank_dispatcher))"

section \<open>What is sent again\<close>

text \<open>
  The PDUs that carry a value of a name: states have the name in the first place after the kind, counters, samples and rates
  in the second, after a time. No other kind is one.
\<close>

definition value_of :: "string \<Rightarrow> pdu \<Rightarrow> bool" where
  "value_of n p \<longleftrightarrow> (\<exists>rest. p = ''STATE'' # n # rest) \<or>
     (\<exists>kind ts rest. kind \<in> {''COUNTER'', ''SAMPLE'', ''RATE''} \<and> p = kind # ts # n # rest)"

definition newest :: "string \<Rightarrow> pdu list \<Rightarrow> pdu option" where
  "newest n ps = find (value_of n) (rev ps)"

definition remembers :: "pdu list \<Rightarrow> dispatcher_t \<Rightarrow> bool" where
  "remembers ps D \<longleftrightarrow> (\<forall>n. fmlookup (d_pdus D) n = newest n ps)"

lemma cache_key_value: "cache_key p = Some n \<longleftrightarrow> value_of n p"
proof -
  consider "p = []" | kind where "p = [kind]" | kind x where "p = [kind, x]" | kind x y rest where "p = kind # x # y # rest"
    by (metis neq_Nil_conv)
  then show ?thesis by cases (auto simp: cache_key_def frame_def value_of_def)
qed

lemma value_of_unique: "value_of n p \<Longrightarrow> value_of k p \<longleftrightarrow> n = k"
  unfolding cache_key_value [symmetric] by simp

lemma newest_snoc: "newest n (ps @ [p]) = (if value_of n p then Some p else newest n ps)"
  by (simp add: newest_def)

lemma newest_value: "newest n ps = Some p \<Longrightarrow> value_of n p"
  by (auto simp: newest_def find_Some_iff)

lemma relay_remembers:
  "remembers ps D \<Longrightarrow> dispatcher_reactor E Ca_subscriber p D = (v, D', out) \<Longrightarrow> v = CONTINUE \<and> out = [p] \<and> remembers (ps @ [p]) D'"
  by (auto simp: dispatcher_reactor_def remembers_def newest_snoc cache_key_value [symmetric] split: option.splits)

lemma dispatcher_loop_relays:
  assumes "remembers qs D"
  shows "\<exists>D'. remembers (qs @ map snd ms) D' \<and>
    (\<forall>rest. dispatcher_loop (map (\<lambda>(E, p). (E, Ca_subscriber, p)) ms @ rest) D =
      (let (v, D, out) = dispatcher_loop rest D' in (v, D, map snd ms @ out)))"
  using assms
proof (induction ms arbitrary: qs D)
  case (Cons m ms)
  obtain E p where m: "m = (E, p)" by fastforce
  obtain v D1 out where 1: "dispatcher_reactor E Ca_subscriber p D = (v, D1, out)" by (metis prod_cases3)
  note r = relay_remembers [OF Cons.prems 1]
  from Cons.IH [of "qs @ [p]" D1] r obtain D' where "remembers (qs @ map snd (m # ms)) D'"
    "\<forall>rest. dispatcher_loop (map (\<lambda>(E, p). (E, Ca_subscriber, p)) ms @ rest) D1 =
      (let (v, D, out) = dispatcher_loop rest D' in (v, D, map snd ms @ out))" by (auto simp: m)
  then show ?case using r by (intro exI [of _ D']) (auto simp: m 1 split: prod.split)
qed auto

lemma repeat_filter:
  assumes "visits_all E" "remembers ps D"
  shows "filter (value_of n) (List.map_filter (fmlookup (d_pdus D)) (hash_order E H_pdus (fmdom (d_pdus D)))) =
    (case newest n ps of None \<Rightarrow> [] | Some p \<Rightarrow> [p])"
proof -
  note v = visits_allD [OF assms(1), of H_pdus "fmdom (d_pdus D)"]
  have "filter (value_of n) (List.map_filter (fmlookup (d_pdus D)) ks) =
    (if n \<in> set ks then case newest n ps of None \<Rightarrow> [] | Some p \<Rightarrow> [p] else [])" if "distinct ks" for ks
    using that assms(2) newest_value value_of_unique
    by (induction ks) (fastforce simp: remembers_def List.map_filter_simps split: option.split)+
  moreover have "newest n ps = None" if "n \<notin> set (hash_order E H_pdus (fmdom (d_pdus D)))"
    using that v(2) assms(2) by (metis remembers_def fmdom_notD)
  ultimately show ?thesis using v(1) by (auto split: option.split)
qed

text \<open>
  C29: whatever was broadcast before, the cache passes every PDU on at once, in
  order and unchanged. A \<open>REPEAT\<close> request then makes it send, for every name, the last PDU that carried
  a value of that name - a state, counter, sample or rate, of whichever of the four kinds came last - once, and
  nothing else: no event, transition or other PDU is sent again.
\<close>

theorem cache_replay:
  assumes "visits_all E"
  shows "\<exists>D' qs. dispatcher_loop (map (\<lambda>(E, p). (E, Ca_subscriber, p)) ms @ [(E, Ca_listen, [''REPEAT''])]) blank_dispatcher =
      (CONTINUE, D', map snd ms @ qs) \<and>
    (\<forall>n. filter (value_of n) qs = (case find (value_of n) (rev (map snd ms)) of None \<Rightarrow> [] | Some p \<Rightarrow> [p])) \<and>
    (\<forall>q \<in> set qs. \<exists>n. value_of n q)"
proof -
  have "remembers [] blank_dispatcher" by (simp add: remembers_def blank_dispatcher_def newest_def)
  from dispatcher_loop_relays [OF this, of ms] obtain D' where D': "remembers (map snd ms) D'"
    "\<And>rest. dispatcher_loop (map (\<lambda>(E, p). (E, Ca_subscriber, p)) ms @ rest) blank_dispatcher =
      (let (v, D, out) = dispatcher_loop rest D' in (v, D, map snd ms @ out))" by auto
  let ?qs = "List.map_filter (fmlookup (d_pdus D')) (hash_order E H_pdus (fmdom (d_pdus D')))"
  have "\<forall>q \<in> set ?qs. \<exists>n. value_of n q"
    using D'(1) newest_value by (fastforce simp: List.map_filter_def remembers_def)
  with repeat_filter [OF assms D'(1), unfolded newest_def] D'(2) show ?thesis by (simp add: dispatcher_reactor_def)
qed

theorem cache_replay_witness:
  "\<exists>D' qs. dispatcher_loop (map (\<lambda>(E, p). (E, Ca_subscriber, p))
      [(plain_env, [''COUNTER'', ''60'', ''a'', ''1'']), (plain_env, [''EVENT'', ''61'', ''b'', ''x'']), (plain_env, [''COUNTER'', ''120'', ''a'', ''7''])] @
      [(plain_env, Ca_listen, [''REPEAT''])]) blank_dispatcher =
      (CONTINUE, D', [[''COUNTER'', ''60'', ''a'', ''1''], [''EVENT'', ''61'', ''b'', ''x''], [''COUNTER'', ''120'', ''a'', ''7'']] @ qs) \<and>
    filter (value_of ''a'') qs = [[''COUNTER'', ''120'', ''a'', ''7'']] \<and> (\<forall>q \<in> set qs. \<exists>n. value_of n q)"
proof -
  let ?ms = "[(plain_env, [''COUNTER'', ''60'', ''a'', ''1'']), (plain_env, [''EVENT'', ''61'', ''b'', ''x'']), (plain_env, [''COUNTER'', ''120'', ''a'', ''7''])]"
  have "find (value_of ''a'') (rev (map snd ?ms)) = Some [''COUNTER'', ''120'', ''a'', ''7'']" by (simp add: value_of_def)
  with cache_replay [OF plain_env_visits_all(2), of ?ms] obtain D' qs where
    "dispatcher_loop (map (\<lambda>(E, p). (E, Ca_subscriber, p)) ?ms @ [(plain_env, Ca_listen, [''REPEAT''])]) blank_dispatcher =
      (CONTINUE, D', map snd ?ms @ qs)" "filter (value_of ''a'') qs = [[''COUNTER'', ''120'', ''a'', ''7'']]"
    "\<forall>q \<in> set qs. \<exists>n. value_of n q"
    by (metis option.case(2))
  then show ?thesis by (simp only: list.map snd_conv) blast
qed

end
