(* ===== verification/Bolo_Wire.thy ===== *)
theory Bolo_Wire
  imports Bolo_Kernel_Inv
begin

text \<open>
  The types of the PDUs on the broadcast socket: which frames each kind has. All
  subscribers rely on them (\<open>PROTO\<close>, \<open>src/src/core.c\<close>).
\<close>

section \<open>Well-formed broadcasts\<close>

definition digits :: "string \<Rightarrow> bool" where
  "digits s \<longleftrightarrow> s \<noteq> [] \<and> list_all isdigit s"

definition number :: "string \<Rightarrow> bool" where
  "number s \<longleftrightarrow> digits (if at_char s = CHR ''-'' then tl s else s)"

definition counter_frames :: "pdu \<Rightarrow> bool" where
  "counter_frames p \<longleftrightarrow> length p = 4 \<and> hd p = ''COUNTER'' \<and> digits (p ! 1) \<and> digits (p ! 3)"

definition sample_frames :: "pdu \<Rightarrow> bool" where
  "sample_frames p \<longleftrightarrow> length p = 9 \<and> hd p = ''SAMPLE'' \<and> digits (p ! 1) \<and> digits (p ! 3)"

definition rate_frames :: "pdu \<Rightarrow> bool" where
  "rate_frames p \<longleftrightarrow> length p = 5 \<and> hd p = ''RATE'' \<and> digits (p ! 1) \<and> number (p ! 3)"

definition status_frames :: "pdu \<Rightarrow> bool" where
  "status_frames p \<longleftrightarrow> length p = 6 \<and> (hd p = ''STATE'' \<or> hd p = ''TRANSITION'') \<and> number (p ! 2) \<and>
     (p ! 3 = ''stale'' \<or> p ! 3 = ''fresh'') \<and> (p ! 4 = ''OK'' \<or> p ! 4 = ''WARNING'' \<or> p ! 4 = ''CRITICAL'' \<or> p ! 4 = ''UNKNOWN'')"

definition event_frames :: "pdu \<Rightarrow> bool" where
  "event_frames p \<longleftrightarrow> length p = 4 \<and> hd p = ''EVENT'' \<and> number (p ! 1)"

definition key_frames :: "pdu \<Rightarrow> bool" where
  "key_frames p \<longleftrightarrow> 3 \<le> length p \<and> odd (length p) \<and> hd p = ''SET.KEYS''"

definition wire_ok :: "pdu \<Rightarrow> bool" where
  "wire_ok p \<longleftrightarrow> counter_frames p \<or> sample_frames p \<or> rate_frames p \<or> status_frames p \<or> event_frames p \<or> key_frames p"

definition typed :: "effect \<Rightarrow> bool" where
  "typed e = (case e of Broadcast p \<Rightarrow> wire_ok p | _ \<Rightarrow> True)"

lemma typed_simps [simp]:
  "typed (Beacon p)" "typed (Reply p)" "typed (SaveDb f d n)" "typed (SyncDb f)" "typed (SaveKeys f d)"
  by (simp_all add: typed_def)

lemma digits_dec [simp]: "digits (dec n)"
  using dec_digits [of n] by (simp add: digits_def list_all_iff)

lemma number_show_int [simp]: "number (show_int i)"
proof -
  have "at_char (dec n) \<noteq> CHR ''-''" for n
    using dec_digits [of n] by (cases "dec n") (auto simp: isdigit_def)
  then show ?thesis by (simp add: number_def show_int_def)
qed

lemma statstr_cases: "statstr s = ''OK'' \<or> statstr s = ''WARNING'' \<or> statstr s = ''CRITICAL'' \<or> statstr s = ''UNKNOWN''"
proof -
  have "unat s = 0 \<or> unat s = 1 \<or> unat s = 2 \<or> unat s = 3" if "\<not> s > 3"
    using that by (auto simp: word_less_nat_alt not_less)
  then show ?thesis by (auto simp: statstr_def numeral_2_eq_2 numeral_3_eq_3)
qed

lemma typed_broadcasts:
  "typed (broadcast_state s)" "typed (broadcast_transition s)" "typed (broadcast_event ev)"
  using statstr_cases [of "state_status s"]
  by (auto simp: typed_def wire_ok_def broadcast_state_def broadcast_transition_def broadcast_event_def state_frames_def
      status_frames_def event_frames_def eval_nat_numeral)

lemma typed_metrics:
  "broadcast_counter c = Inr e \<Longrightarrow> typed e" "broadcast_sample E m = Inr e \<Longrightarrow> typed e" "broadcast_rate E r = Inr e \<Longrightarrow> typed e"
  by (auto simp: typed_def wire_ok_def broadcast_counter_def broadcast_sample_def broadcast_rate_def counter_frames_def
      sample_frames_def rate_frames_def Let_def bind_res_Inr_iff eval_nat_numeral)

lemma typed_updates:
  "counter_update ts x c = Inr (c', fx) \<Longrightarrow> list_all typed fx"
  "sample_update E ts vs m = Inr (m', fx) \<Longrightarrow> list_all typed fx"
  "rate_update E ts v r = Inr (r', fx) \<Longrightarrow> list_all typed fx"
  "state_update ts code msg s = (s', fx) \<Longrightarrow> list_all typed fx"
  by (auto simp: counter_update_def sample_update_def rate_update_def state_update_def Let_def bind_res_Inr_iff
    typed_broadcasts dest: typed_metrics split: if_splits)

lemma for_each_output:
  assumes "\<And>k v v' os. f k v = Inr (v', os) \<Longrightarrow> list_all P os" "for_each f ks m = Inr (m', os)"
  shows "list_all P os"
  using assms(2)
proof (induction ks arbitrary: m os)
  case (Cons k ks)
  then show ?case using assms(1) by (fastforce simp: bind_res_Inr_iff split: option.splits)
qed simp

lemma typed_ticks:
  "tick_counter ts k c = Inr (c', fx) \<Longrightarrow> list_all typed fx" "tick_sample E ts k m = Inr (m', fx) \<Longrightarrow> list_all typed fx"
  "tick_rate E ts k r = Inr (r', fx) \<Longrightarrow> list_all typed fx" "freshen now k s = Inr (s', fx) \<Longrightarrow> list_all typed fx"
  by (auto simp: tick_counter_def tick_sample_def tick_rate_def freshen_def Let_def bind_res_Inr_iff typed_broadcasts
    dest: typed_metrics split: if_splits option.splits)

lemma typed_walks:
  "for_each (tick_counter ts) ks mc = Inr (mc', fx) \<Longrightarrow> list_all typed fx"
  "for_each (tick_sample E ts) ks ms = Inr (ms', fx) \<Longrightarrow> list_all typed fx"
  "for_each (tick_rate E ts) ks mr = Inr (mr', fx) \<Longrightarrow> list_all typed fx"
  "for_each (freshen now) ks mt = Inr (mt', fx) \<Longrightarrow> list_all typed fx"
  by (erule for_each_output [rotated], erule typed_ticks)+

lemma typed_sweeps:
  "tick_windows E ts d = Inr (d', fx) \<Longrightarrow> list_all typed fx" "check_freshness E d = Inr (d', fx) \<Longrightarrow> list_all typed fx"
  by (auto simp: tick_windows_def check_freshness_def bind_res_Inr_iff dest: typed_walks)

lemma typed_setkeys:
  "length p = 2 * n + 1 \<Longrightarrow> hd p = ''SET.KEYS'' \<Longrightarrow> list_all typed (setkeys_loop kvs p n)"
proof (induction kvs p n rule: setkeys_loop.induct)
  case (3 k v kvs p n)
  then have "p \<noteq> []" by auto
  with 3 show ?case by (auto simp: typed_def wire_ok_def key_frames_def)
qed (auto simp: typed_def wire_ok_def key_frames_def)

lemma typed_write_db: "write_db E S = Inr fx \<Longrightarrow> list_all typed fx"
  by (auto simp: write_db_def bind_res_Inr_iff split: option.splits)

lemma typed_files [simp]:
  "list_all typed (write_keys E S)" "list_all typed (sync_db E S)" "list_all typed (broadcast_setkeys E K)"
  by (auto simp: write_keys_def save_keys_def sync_db_def broadcast_setkeys_def Let_def typed_setkeys split: option.splits)

lemma typed_steps:
  "tick_step E K = Inr (K', fx) \<Longrightarrow> list_all typed fx" "sweep_step E K = (K', fx) \<Longrightarrow> list_all typed fx"
  "freshness_step E K = Inr (K', fx) \<Longrightarrow> list_all typed fx" "savestate_step E K = Inr (K', fx) \<Longrightarrow> list_all typed fx"
  by (auto simp: tick_step_def sweep_step_def freshness_step_def savestate_step_def beacon_sweep_def bind_res_Inr_iff
    dest: typed_sweeps typed_write_db split: if_splits)

lemma typed_tock:
  assumes "tock E K = Inr (K', fx)"
  shows "list_all typed fx"
proof -
  from assms obtain K1 f1 where 1: "tick_step E K = Inr (K1, f1)" by (auto simp: tock_def bind_res_Inr_iff)
  obtain K2 f2 where 2: "sweep_step E K1 = (K2, f2)" by fastforce
  from assms 1 2 obtain K3 f3 f4 where "freshness_step E K2 = Inr (K3, f3)" "savestate_step E K3 = Inr (K', f4)"
    "fx = f1 @ f2 @ f3 @ f4" by (auto simp: tock_def bind_res_Inr_iff Let_def)
  with 1 2 show ?thesis by (auto dest: typed_steps)
qed

lemma typed_mgmt:
  "mgmt_state p K = (K', fx) \<Longrightarrow> list_all typed fx" "mgmt_dump E K = Inr (K', fx) \<Longrightarrow> list_all typed fx"
  "mgmt_get_keys p K = (K', fx) \<Longrightarrow> list_all typed fx" "mgmt_del_keys p K = (K', fx) \<Longrightarrow> list_all typed fx"
  "mgmt_search_keys E p K = (K', fx) \<Longrightarrow> list_all typed fx" "mgmt_get_events E p K = Inr (K', fx) \<Longrightarrow> list_all typed fx"
  "mgmt_savestate E K = Inr (K', fx) \<Longrightarrow> list_all typed fx" "mgmt_forget E p K = (K', fx) \<Longrightarrow> list_all typed fx"
  by (auto simp: mgmt_state_def mgmt_dump_def mgmt_get_keys_def mgmt_del_keys_def mgmt_search_keys_def
    mgmt_get_events_def mgmt_savestate_def mgmt_forget_def Let_def bind_res_Inr_iff dest: typed_write_db
    split: if_splits option.splits)

lemma typed_management: "management E p K = Inr (K', fx) \<Longrightarrow> list_all typed fx"
  unfolding management_def by (auto dest: typed_mgmt split: if_splits)

lemma typed_listen:
  "listen_state E p K = Inr (K', fx) \<Longrightarrow> list_all typed fx" "listen_counter E p K = Inr (K', fx) \<Longrightarrow> list_all typed fx"
  "listen_sample E p K = Inr (K', fx) \<Longrightarrow> list_all typed fx" "listen_rate E p K = Inr (K', fx) \<Longrightarrow> list_all typed fx"
  "listen_event p K = Inr (K', fx) \<Longrightarrow> list_all typed fx" "listen_set_keys p K = (K', fx) \<Longrightarrow> list_all typed fx"
  by (auto simp: listen_state_def listen_counter_def listen_sample_def listen_rate_def listen_event_def
    listen_set_keys_def Let_def bind_res_Inr_iff typed_broadcasts dest: typed_updates split: if_splits option.splits prod.splits)

lemma typed_listener: "listener E p K = Inr (K', fx) \<Longrightarrow> list_all typed fx"
  unfolding listener_def by (auto dest: typed_listen split: if_splits)

lemma kernel_typed: "kernel_reactor E sock p K = Inr (v, K', fx) \<Longrightarrow> list_all typed fx"
  by (auto simp: kernel_reactor_def bind_res_Inr_iff dest: typed_tock typed_management typed_listener split: socket.splits)

text \<open>
  C30: every PDU the kernel sends on its broadcast socket, whatever message it
  handles and whatever its database holds, is of one of the six kinds and has the
  frames of its kind: their number, digits where a number is expected, and one of the
  words for freshness and status.
\<close>

theorem broadcast_types:
  assumes "kernel_reactor E sock p K = Inr (v, K', fx)" "Broadcast q \<in> set fx"
  shows "wire_ok q"
  using kernel_typed [OF assms(1)] assms(2) by (auto simp: list_all_iff typed_def)

theorem broadcast_types_witness:
  "\<exists>v K' q. kernel_reactor plain_env S_listener [''STATE'', dec 90, ''s'', dec 0, ''fine''] (blank_kernel demo_server) =
    Inr (v, K', [Broadcast q]) \<and> wire_ok q"
proof -
  obtain s where s: "fmlookup (states (k_db (blank_kernel demo_server))) ''s'' = Some s"
    "state_ignore s = 0" "state_stale s = 0" "state_status s = 0" by (simp add: demo_db_def)
  from known_state_submission [OF s(1,2), where t = 90 and code = 0 and msg = "''fine''" and E = plain_env, OF _ _ _ _ refl] s(3,4)
  obtain K' q where "kernel_reactor plain_env S_listener [''STATE'', dec 90, ''s'', dec 0, ''fine''] (blank_kernel demo_server) =
    Inr (CONTINUE, K', [Broadcast q])" by (auto simp: broadcast_state_def)
  with broadcast_types [OF this] show ?thesis by auto
qed

end
