(* ===== verification/Bolo_Rrd.thy ===== *)
theory Bolo_Rrd
  imports Bolo_Subscriber Bolo_Wire
begin

text \<open>
  The subscriber \<open>bolo2rrd\<close> (\<open>src/src/bolo2rrd/main.c\<close>): it stores every counter, sample and
  rate of the aggregator in a file of its own. A dispatcher keeps the map from names to
  files and hands the broadcasts to threads that create and update the files.

  The RRD library, the cache daemon and SHA-1 are parameters; sockets, threads and system
  calls are given by what they return. Log texts, help texts and the release of memory are
  left out.
\<close>

section \<open>Files\<close>

record rrdfile_t =
  rf_parent0 :: string
  rf_parent1 :: string
  rf_abspath :: string
  rf_relpath :: string
  rf_name :: string
  rf_type :: string

record rrdmap_t =
  map_hash :: "(string, rrdfile_t) fmap"
  map_file :: string
  map_tmpfile :: string

text \<open>
  The parameters: the hexadecimal SHA-1 of a text, whether the cache daemon is set and
  connected and whether it knows a file, what creating and updating a file return, the
  seconds the stopwatch shows, and whether the last error was \<open>ENOENT\<close>.
\<close>

record rrd_lib =
  sha1_hex :: "string \<Rightarrow> string"
  rrdc_connected :: bool
  rrdc_info :: "string \<Rightarrow> bool"
  rrd_create_rc :: "string \<Rightarrow> string list \<Rightarrow> int"
  rrd_update_rc :: "string \<Rightarrow> string \<Rightarrow> int"
  spent :: real
  enoent :: bool

text \<open>The name of the temporary file has a dot in front of its last component.\<close>

definition rrdmap_new :: "string \<Rightarrow> rrdmap_t" where
  "rrdmap_new db = \<lparr>map_hash = fmempty, map_file = db,
     map_tmpfile = (case cut_last (CHR ''/'') db of None \<Rightarrow> CHR ''.'' # db | Some (d, b) \<Rightarrow> d @ ''/.'' @ b)\<rparr>"

text \<open>
  \<open>sha1\<close> is the memory from the pointer on: its first four characters are read even if
  the string ends before, and a null character ends what is printed.
\<close>

definition rrdfile_parse :: "string \<Rightarrow> string \<Rightarrow> string \<Rightarrow> string \<Rightarrow> rrdfile_t res" where
  "rrdfile_parse dir name type sha1 =
     (if length sha1 < 4 then Inl OutOfBounds
      else let aa = take 2 sha1; bb = take 2 (drop 2 sha1);
               rel = cstr (aa @ ''/'' @ bb @ ''/'' @ cstr sha1)
           in Inr \<lparr>rf_parent0 = cstr (dir @ ''/'' @ aa), rf_parent1 = cstr (dir @ ''/'' @ aa @ ''/'' @ bb),
                rf_abspath = dir @ ''/'' @ rel @ ''.rrd'', rf_relpath = rel, rf_name = name, rf_type = type\<rparr>)"

definition rrd_filename :: "rrd_lib \<Rightarrow> string \<Rightarrow> string \<Rightarrow> string \<Rightarrow> rrdfile_t res" where
  "rrd_filename L dir metric type = rrdfile_parse dir metric type (sha1_hex L metric @ [NUL])"

text \<open>
  One line of the map: path, name and type, where the path ends at the first blank and
  the type begins after the last one. The array holds the line up to the null character
  that ends it; what lies behind is not known.
\<close>

definition rrdmap_line :: "string \<Rightarrow> string \<Rightarrow> (string \<times> rrdfile_t) option res" where
  "rrdmap_line dir line =
     (let (buf, rest) = (case cut_last (CHR 10) (cstr line) of None \<Rightarrow> (cstr line, [NUL]) | Some (b, r) \<Rightarrow> (b, NUL # r @ [NUL])) in
      case cut_last (CHR '' '') buf of
        None \<Rightarrow> Inr None
      | Some (buf, type) \<Rightarrow>
          (case cut_first (CHR '' '') buf of
             None \<Rightarrow> Inr None
           | Some (buf, name) \<Rightarrow>
               (case cut_last (CHR ''/'') buf of
                  None \<Rightarrow> Inr None
                | Some (_, sha1) \<Rightarrow>
                    bind_res (rrdfile_parse dir name (if name = type then ''UNDEFINED'' else type)
                        (sha1 @ [NUL] @ name @ [NUL] @ type @ rest))
                      (\<lambda>file. Inr (Some (name, file))))))"

function rrdmap_lines :: "string \<Rightarrow> string \<Rightarrow> (string, rrdfile_t) fmap \<Rightarrow> (string, rrdfile_t) fmap res" where
  "rrdmap_lines dir content m =
     (if content = [] then Inr m
      else bind_res (rrdmap_line dir (fst (fgets 8191 content))) (\<lambda>e.
        rrdmap_lines dir (snd (fgets 8191 content)) (case e of None \<Rightarrow> m | Some (k, v) \<Rightarrow> fmupd k v m)))"
  by pat_completeness auto

termination
  by (relation "measure (\<lambda>(r, c, m). length c)") (use fgets_shorter [of _ 8190] in auto)

declare rrdmap_lines.simps [simp del]

definition rrdmap_read :: "env \<Rightarrow> rrdmap_t \<Rightarrow> string \<Rightarrow> rrdmap_t res" where
  "rrdmap_read E m dir =
     (if \<not> sys_ok E Sys_fopen (map_file m) then Inr m
      else bind_res (rrdmap_lines dir (file_data E (map_file m)) (map_hash m)) (\<lambda>h. Inr (m\<lparr>map_hash := h\<rparr>)))"

text \<open>The effects: PDUs to the three queues, the new content of the map file, directories and RRD files.\<close>

datatype rrd_effect =
    R_creates pdu
  | R_updates pdu
  | R_monitor pdu
  | R_mapfile string string
  | R_mkdir string
  | R_create string "32 word" "string list"
  | R_update string string

definition rrdmap_text :: "env \<Rightarrow> (string, rrdfile_t) fmap \<Rightarrow> string" where
  "rrdmap_text E m = concat (map (\<lambda>k. case fmlookup m k of
       None \<Rightarrow> []
     | Some f \<Rightarrow> rf_relpath f @ '' '' @ rf_name f @ '' '' @ rf_type f @ [CHR 10]) (hash_order E H_metrics (fmdom m)))"

definition rrdmap_write :: "env \<Rightarrow> rrdmap_t \<Rightarrow> int \<times> rrd_effect list" where
  "rrdmap_write E m =
     (if \<not> sys_ok E Sys_fopen (map_tmpfile m) then (1, [])
      else let rc = sys_rc E Sys_rename (map_tmpfile m)
           in (rc, if rc = 0 then [R_mapfile (map_file m) (rrdmap_text E (map_hash m))] else []))"

section \<open>The dispatcher\<close>

record rrd_dispatcher_t =
  rd_map :: rrdmap_t
  rd_root :: string

text \<open>Whether a file is there, for the file system and for the cache daemon.\<close>

definition missing :: "env \<Rightarrow> rrd_lib \<Rightarrow> string \<Rightarrow> bool" where
  "missing E L path \<longleftrightarrow> sys_rc E Sys_stat path \<noteq> 0 \<or> rrdc_connected L \<and> \<not> rrdc_info L path"

definition is_metric :: "pdu \<Rightarrow> bool" where
  "is_metric p \<longleftrightarrow> hd p = ''COUNTER'' \<and> length p = 4 \<or> hd p = ''SAMPLE'' \<and> length p = 9 \<or> hd p = ''RATE'' \<and> length p = 5"

definition perf :: "env \<Rightarrow> rrd_lib \<Rightarrow> string \<Rightarrow> rrd_effect" where
  "perf E L name = R_monitor [''SAMPLE'', name, fmt_lf E (spent L)]"

definition tally :: "string \<Rightarrow> rrd_effect" where
  "tally name = R_monitor [''COUNT'', name]"

text \<open>
  A name that is not in the map gets a file of the type of the PDU; a file that was
  read without a type takes the one of the PDU.
\<close>

definition find_file :: "rrd_lib \<Rightarrow> string \<Rightarrow> pdu \<Rightarrow> (string, rrdfile_t) fmap \<Rightarrow> (rrdfile_t \<times> (string, rrdfile_t) fmap) res" where
  "find_file L dir p m =
     (case fmlookup m (p ! 2) of
        None \<Rightarrow> bind_res (rrd_filename L dir (p ! 2) (hd p)) (\<lambda>file. Inr (file, fmupd (p ! 2) file m))
      | Some file \<Rightarrow>
          let file = (if rf_type file = ''UNDEFINED'' then file\<lparr>rf_type := hd p\<rparr> else file)
          in Inr (file, fmupd (p ! 2) file m))"

definition relay :: "env \<Rightarrow> rrd_lib \<Rightarrow> rrdfile_t \<Rightarrow> pdu \<Rightarrow> rrd_effect" where
  "relay E L file p =
     (if missing E L (rf_abspath file)
      then R_creates [''CREATE'', rf_parent0 file, rf_parent1 file, rf_abspath file, hd p]
      else R_updates ([''UPDATE'', rf_abspath file, p ! 1, hd p] @ drop 3 p))"

datatype rrd_socket = Rd_control | Rd_tock | Rd_subscriber | Rd_other

definition rrd_dispatcher_reactor ::
  "env \<Rightarrow> rrd_lib \<Rightarrow> rrd_socket \<Rightarrow> pdu \<Rightarrow> rrd_dispatcher_t \<Rightarrow> (verdict \<times> rrd_dispatcher_t \<times> rrd_effect list) res" where
  "rrd_dispatcher_reactor E L sock p D =
     (case sock of
        Rd_control \<Rightarrow>
          Inr (if hd p = ''TERMINATE'' then (HALT, D, snd (rrdmap_write E (rd_map D))) else (CONTINUE, D, []))
      | Rd_tock \<Rightarrow> Inr (CONTINUE, D, snd (rrdmap_write E (rd_map D)))
      | Rd_subscriber \<Rightarrow>
          if \<not> is_metric p then Inr (CONTINUE, D, [])
          else bind_res (find_file L (rd_root D) p (map_hash (rd_map D))) (\<lambda>(file, m).
            Inr (CONTINUE, D\<lparr>rd_map := (rd_map D)\<lparr>map_hash := m\<rparr>\<rparr>, [relay E L file p, perf E L ''dispatch.time.s'']))
      | Rd_other \<Rightarrow> Inr (HALT, D, []))"

fun rrd_dispatcher_loop ::
  "(env \<times> rrd_lib \<times> rrd_socket \<times> pdu) list \<Rightarrow> rrd_dispatcher_t \<Rightarrow> (verdict \<times> rrd_dispatcher_t \<times> rrd_effect list) res" where
  "rrd_dispatcher_loop [] D = Inr (CONTINUE, D, [])"
| "rrd_dispatcher_loop ((E, L, sock, p) # ms) D =
     bind_res (rrd_dispatcher_reactor E L sock p D) (\<lambda>(v, D, fx).
       if v = HALT then Inr (HALT, D, fx)
       else bind_res (rrd_dispatcher_loop ms D) (\<lambda>(v, D, gx). Inr (v, D, fx @ gx)))"

section \<open>Creating files\<close>

definition ds_defs :: "string \<Rightarrow> string list option" where
  "ds_defs type =
     (if type = ''COUNTER'' then Some [''DS:x:GAUGE:120:U:U'']
      else if type = ''SAMPLE'' then
        Some [''DS:n:GAUGE:120:U:U'', ''DS:min:GAUGE:120:U:U'', ''DS:max:GAUGE:120:U:U'', ''DS:sum:GAUGE:120:U:U'',
          ''DS:mean:GAUGE:120:U:U'', ''DS:var:GAUGE:120:U:U'']
      else if type = ''RATE'' then Some [''DS:value:GAUGE:120:U:U'']
      else None)"

datatype worker_socket = Wk_control | Wk_queue | Wk_other

definition creator_queue :: "env \<Rightarrow> rrd_lib \<Rightarrow> string \<Rightarrow> pdu \<Rightarrow> rrd_effect list res" where
  "creator_queue E L rras p =
     (if hd p \<noteq> ''CREATE'' then Inr []
      else if length p < 4 then Inl NullDeref
      else let file = p ! 3 in
        if sys_rc E Sys_stat file = 0 \<or> rrdc_connected L \<and> rrdc_info L file then Inr [tally ''create.misdirects'']
        else if length p < 5 then Inl NullDeref
        else
          let type = p ! 4;
              args = map_option (\<lambda>ds. strings_split E (concat (map (\<lambda>d. d @ '' '') ds) @ rras)) (ds_defs type);
              rc = (case args of None \<Rightarrow> - 1 | Some as \<Rightarrow> rrd_create_rc L file as)
          in Inr ([R_mkdir (p ! 1), R_mkdir (p ! 2)] @ (case args of None \<Rightarrow> [] | Some as \<Rightarrow> [R_create file (time_s E - 365 * 86400) as]) @
               (if rc = 0 then [perf E L ''create.time.s'', tally ''create.ops''] else [tally ''create.errors''])))"

definition creator_reactor :: "env \<Rightarrow> rrd_lib \<Rightarrow> string \<Rightarrow> worker_socket \<Rightarrow> pdu \<Rightarrow> (verdict \<times> rrd_effect list) res" where
  "creator_reactor E L rras sock p =
     (case sock of
        Wk_control \<Rightarrow> Inr (if hd p = ''TERMINATE'' then HALT else CONTINUE, [])
      | Wk_queue \<Rightarrow> bind_res (creator_queue E L rras p) (\<lambda>fx. Inr (CONTINUE, fx))
      | Wk_other \<Rightarrow> Inr (HALT, []))"

section \<open>Updating files\<close>

definition update_text :: "pdu \<Rightarrow> string option" where
  "update_text p =
     (let data_frames = length p - 4; ts = p ! 2; type = p ! 3 in
      if type = ''COUNTER'' \<and> data_frames = 1 then Some (ts @ '':'' @ p ! 4)
      else if type = ''SAMPLE'' \<and> data_frames = 6 then
        Some (ts @ '':'' @ p ! 4 @ '':'' @ p ! 5 @ '':'' @ p ! 6 @ '':'' @ p ! 7 @ '':'' @ p ! 8 @ '':'' @ p ! 9)
      else if type = ''RATE'' \<and> data_frames = 2 then Some (ts @ '':'' @ p ! 5)
      else None)"

definition updater_queue :: "env \<Rightarrow> rrd_lib \<Rightarrow> pdu \<Rightarrow> rrd_effect list res" where
  "updater_queue E L p =
     (if hd p \<noteq> ''UPDATE'' then Inr []
      else if length p < 2 then Inr [tally ''update.errors'']
      else let file = p ! 1 in
        if missing E L file then Inr [tally (if enoent L then ''update.misdirects'' else ''update.errors'')]
        else if length p < 4 then Inl NullDeref
        else
          let rc = (case update_text p of None \<Rightarrow> - 1 | Some t \<Rightarrow> rrd_update_rc L file t)
          in Inr ((case update_text p of None \<Rightarrow> [] | Some t \<Rightarrow> [R_update file t]) @
               (if rc = 0 then [perf E L ''update.time.s'', tally ''update.ops''] else [tally ''update.errors''])))"

definition updater_reactor :: "env \<Rightarrow> rrd_lib \<Rightarrow> worker_socket \<Rightarrow> pdu \<Rightarrow> (verdict \<times> rrd_effect list) res" where
  "updater_reactor E L sock p =
     (case sock of
        Wk_control \<Rightarrow> Inr (if hd p = ''TERMINATE'' then HALT else CONTINUE, [])
      | Wk_queue \<Rightarrow> bind_res (updater_queue E L p) (\<lambda>fx. Inr (CONTINUE, fx))
      | Wk_other \<Rightarrow> Inr (HALT, []))"

section \<open>Start\<close>

definition rrd_dispatcher_thread :: "env \<Rightarrow> string \<Rightarrow> string \<Rightarrow> string \<Rightarrow> (int \<times> rrd_dispatcher_t) res" where
  "rrd_dispatcher_thread E endpoint dir mapfile =
     bind_res (rrdmap_read E (rrdmap_new mapfile) dir) (\<lambda>m.
       Inr (first_failure
         [bolo_subscriber_connect_supervisor E, bolo_subscriber_connect_monitor E, bolo_subscriber_connect_scheduler E,
          if \<not> sys_ok E Sys_socket endpoint then - 1 else sys_rc E Sys_setsockopt endpoint, sys_rc E Sys_connect endpoint,
          open_socket E Sys_bind ''inproc://bolo2rrd/v1/dispatcher.updates'',
          open_socket E Sys_bind ''inproc://bolo2rrd/v1/dispatcher.creates'',
          if sys_ok E Sys_reactor_new [] then 0 else - 1, sys_rc E Sys_reactor_set ''control'',
          sys_rc E Sys_reactor_set ''tock'', sys_rc E Sys_reactor_set ''subscriber'', sys_rc E Sys_thread ''dispatcher''],
        \<lparr>rd_map = m, rd_root = dir\<rparr>))"

text \<open>A worker thread: its sockets, its reactor and the thread itself.\<close>

definition worker_thread :: "env \<Rightarrow> string \<Rightarrow> string \<Rightarrow> int" where
  "worker_thread E queue thread = first_failure
     [bolo_subscriber_connect_supervisor E, bolo_subscriber_connect_monitor E, open_socket E Sys_connect queue,
      if sys_ok E Sys_reactor_new [] then 0 else - 1, sys_rc E Sys_reactor_set ''control'',
      sys_rc E Sys_reactor_set ''queue'', sys_rc E Sys_thread thread]"

definition creator_thread :: "env \<Rightarrow> nat \<Rightarrow> int" where
  "creator_thread E n = worker_thread E ''inproc://bolo2rrd/v1/dispatcher.creates'' (''creator'' @ dec n)"

definition updater_thread :: "env \<Rightarrow> nat \<Rightarrow> int" where
  "updater_thread E n = worker_thread E ''inproc://bolo2rrd/v1/dispatcher.updates'' (''updater'' @ dec n)"

text \<open>A worker after its start: the PDUs it gets, until \<open>TERMINATE\<close>.\<close>

fun creator_loop :: "(env \<times> rrd_lib \<times> worker_socket \<times> pdu) list \<Rightarrow> string \<Rightarrow> (verdict \<times> rrd_effect list) res" where
  "creator_loop [] rras = Inr (CONTINUE, [])"
| "creator_loop ((E, L, sock, p) # ms) rras =
     bind_res (creator_reactor E L rras sock p) (\<lambda>(v, fx).
       if v = HALT then Inr (HALT, fx) else bind_res (creator_loop ms rras) (\<lambda>(v, gx). Inr (v, fx @ gx)))"

fun updater_loop :: "(env \<times> rrd_lib \<times> worker_socket \<times> pdu) list \<Rightarrow> (verdict \<times> rrd_effect list) res" where
  "updater_loop [] = Inr (CONTINUE, [])"
| "updater_loop ((E, L, sock, p) # ms) =
     bind_res (updater_reactor E L sock p) (\<lambda>(v, fx).
       if v = HALT then Inr (HALT, fx) else bind_res (updater_loop ms) (\<lambda>(v, gx). Inr (v, fx @ gx)))"

function rra_lines :: "string \<Rightarrow> string list" where
  "rra_lines content =
     (if content = [] then []
      else let buf = cstr (fst (fgets 8191 content))
           in (case cut_last (CHR 10) buf of None \<Rightarrow> buf | Some (b, _) \<Rightarrow> b) # rra_lines (snd (fgets 8191 content)))"
  by pat_completeness auto

termination
  by (relation "measure length") (use fgets_shorter [of _ 8190] in auto)

declare rra_lines.simps [simp del]

definition s_rradefs :: "env \<Rightarrow> string \<Rightarrow> string" where
  "s_rradefs E filename =
     (if \<not> sys_ok E Sys_fopen filename
      then ''RRA:AVERAGE:0.5:1:14400 RRA:MIN:0.5:1:14400 RRA:MAX:0.5:1:14400 RRA:AVERAGE:0.5:60:24 RRA:MIN:0.5:60:24 RRA:MAX:0.5:60:24''
      else strings_join E (rra_lines (file_data E filename)))"

record rrd_options =
  rr_endpoint :: string
  rr_root :: string
  rr_mapfile :: "string option"
  rr_verbose :: "32 word"
  rr_daemonize :: bool
  rr_pidfile :: string
  rr_user :: string
  rr_group :: string
  rr_updaters :: "32 word"
  rr_creators :: "32 word"
  rr_submit_to :: string
  rr_prefix :: "string option"
  rr_schedule :: "32 word"
  rr_cached :: "string option"

definition rrd_defaults :: rrd_options where
  "rrd_defaults = \<lparr>rr_endpoint = ''tcp://127.0.0.1:2997'', rr_root = ''/var/lib/bolo/rrd'', rr_mapfile = None,
     rr_verbose = 0, rr_daemonize = True, rr_pidfile = ''/var/run/bolo2rrd.pid'', rr_user = ''root'', rr_group = ''root'',
     rr_updaters = 8, rr_creators = 2, rr_submit_to = ''tcp://127.0.0.1:2999'', rr_prefix = None, rr_schedule = 60,
     rr_cached = None\<rparr>"

text \<open>\<open>getopt_long\<close> is given by the options it returns, each with its argument.\<close>

fun rrd_getopt :: "(char \<times> string) list \<Rightarrow> rrd_options \<Rightarrow> int + rrd_options" where
  "rrd_getopt [] opt = Inr opt"
| "rrd_getopt ((c, optarg) # os) opt =
     (if c = CHR ''h'' \<or> c = CHR 0x3F \<or> c = CHR ''V'' then Inl 0
      else if c = CHR ''v'' then rrd_getopt os (opt\<lparr>rr_verbose := rr_verbose opt + 1\<rparr>)
      else if c = CHR ''e'' then rrd_getopt os (opt\<lparr>rr_endpoint := optarg\<rparr>)
      else if c = CHR ''r'' then rrd_getopt os (opt\<lparr>rr_root := optarg\<rparr>)
      else if c = CHR ''F'' then rrd_getopt os (opt\<lparr>rr_daemonize := False\<rparr>)
      else if c = CHR ''p'' then rrd_getopt os (opt\<lparr>rr_pidfile := optarg\<rparr>)
      else if c = CHR ''u'' then rrd_getopt os (opt\<lparr>rr_user := optarg\<rparr>)
      else if c = CHR ''g'' then rrd_getopt os (opt\<lparr>rr_group := optarg\<rparr>)
      else if c = CHR ''H'' then rrd_getopt os (opt\<lparr>rr_mapfile := Some optarg\<rparr>)
      else if c = CHR ''C'' then rrd_getopt os (opt\<lparr>rr_cached := Some optarg\<rparr>)
      else if c = CHR ''U'' then rrd_getopt os (opt\<lparr>rr_updaters := word_of_int (strtol optarg)\<rparr>)
      else if c = CHR ''c'' then rrd_getopt os (opt\<lparr>rr_creators := word_of_int (strtol optarg)\<rparr>)
      else if c = CHR ''s'' then rrd_getopt os (opt\<lparr>rr_schedule := word_of_int (strtol optarg)\<rparr>)
      else if c = CHR ''S'' then rrd_getopt os (opt\<lparr>rr_submit_to := optarg\<rparr>)
      else if c = CHR ''P'' then rrd_getopt os (opt\<lparr>rr_prefix := Some optarg\<rparr>)
      else Inl 1)"

definition rrd_metrics :: "(string \<times> string) list" where
  "rrd_metrics = [(''COUNT'', ''create.ops''), (''COUNT'', ''update.ops''), (''COUNT'', ''create.errors''), (''COUNT'', ''update.errors''),
     (''COUNT'', ''create.misdirects''), (''COUNT'', ''update.misdirects''), (''SAMPLE'', ''dispatch.time.s''),
     (''SAMPLE'', ''create.time.s''), (''SAMPLE'', ''update.time.s'')]"

text \<open>The threads that run when the process waits for its signal.\<close>

record rrd_running =
  run_monitor :: "monitor_t option"
  run_announced :: "pdu list"
  run_dispatcher :: rrd_dispatcher_t
  run_rras :: string
  run_creators :: nat
  run_updaters :: nat

definition rrd_threads ::
  "env \<Rightarrow> rrd_options \<Rightarrow> string \<Rightarrow> string \<Rightarrow> bool list \<Rightarrow> (int \<times> signal) list \<Rightarrow> (int \<times> rrd_running option) res" where
  "rrd_threads E opt prefix mapfile sends sigs =
     (let (rc, mon) = bolo_subscriber_monitor_thread E prefix (rr_submit_to opt) in
      if rc \<noteq> 0 then Inr (2, None)
      else if bolo_subscriber_scheduler_thread E \<noteq> 0 then Inr (2, None)
      else let (_, announced) = bolo_subscriber_metrics E sends rrd_metrics in
        bind_res (rrd_dispatcher_thread E (rr_endpoint opt) (rr_root opt) mapfile) (\<lambda>(rc, D).
        let rras = s_rradefs E ''/usr/lib/bolo/bolo2rrd/rra.def'';
            creators = nat (sint (rr_creators opt)); updaters = nat (sint (rr_updaters opt))
        in if rc \<noteq> 0 then Inr (2, None)
           else if first_failure (map (creator_thread E) [0..<creators]) \<noteq> 0 then Inr (2, None)
           else if first_failure (map (updater_thread E) [0..<updaters]) \<noteq> 0 then Inr (2, None)
           else let _ = bolo_subscriber_supervisor E sigs
                in Inr (0, Some \<lparr>run_monitor = mon, run_announced = announced, run_dispatcher = D, run_rras = rras, run_creators = creators, run_updaters = updaters\<rparr>)))"

text \<open>The exit code, and what runs; \<open>host\<close> is what \<open>fqdn\<close> returns.\<close>

definition bolo2rrd_main :: "env \<Rightarrow> string \<Rightarrow> (char \<times> string) list \<Rightarrow> bool list \<Rightarrow> (int \<times> signal) list \<Rightarrow> (int \<times> rrd_running option) res" where
  "bolo2rrd_main E host os sends sigs =
     (case rrd_getopt os rrd_defaults of
        Inl rc \<Rightarrow> Inr (rc, None)
      | Inr opt \<Rightarrow>
          let prefix = (case rr_prefix opt of None \<Rightarrow> host @ '':sys:bolo2rrd'' | Some p \<Rightarrow> p);
              mapfile = (case rr_mapfile opt of None \<Rightarrow> rr_root opt @ ''/map'' | Some f \<Rightarrow> f)
          in if sys_rc E Sys_stat (rr_root opt) \<noteq> 0 then Inr (1, None)
             else if rr_daemonize opt \<and> sys_rc E Sys_daemonize (rr_pidfile opt) \<noteq> 0 then Inr (3, None)
             else if \<not> sys_ok E Sys_zmq_ctx [] then Inr (1, None)
             else if bolo_subscriber_init E \<noteq> 0 then Inr (2, None)
             else rrd_threads E opt prefix mapfile sends sigs)"

section \<open>The map survives a restart\<close>

definition sha1_ok :: "(string \<Rightarrow> string) \<Rightarrow> bool" where
  "sha1_ok h \<longleftrightarrow> (\<forall>s. length (h s) = 40 \<and> list_all (\<lambda>c. c \<in> set ''0123456789abcdef'') (h s))"

definition rrd_types :: "string list" where
  "rrd_types = [''COUNTER'', ''SAMPLE'', ''RATE'']"

definition map_name :: "string \<Rightarrow> bool" where
  "map_name k \<longleftrightarrow> length k \<le> 8000 \<and> NUL \<notin> set k \<and> CHR 10 \<notin> set k \<and> k \<notin> set rrd_types"

definition map_entry :: "(string \<Rightarrow> string) \<Rightarrow> string \<Rightarrow> string \<Rightarrow> rrdfile_t \<Rightarrow> bool" where
  "map_entry h dir k f \<longleftrightarrow> map_name k \<and> rf_type f \<in> set rrd_types \<and>
     rrdfile_parse dir k (rf_type f) (h k @ [NUL]) = Inr f"

lemma sha1_okD:
  assumes "sha1_ok h"
  shows "length (h s) = 40" "NUL \<notin> set (h s)" "CHR 10 \<notin> set (h s)" "CHR '' '' \<notin> set (h s)" "CHR ''/'' \<notin> set (h s)"
    "cstring (h s)"
proof -
  have *: "length (h s) = 40" "set (h s) \<subseteq> set ''0123456789abcdef''" using assms by (auto simp: sha1_ok_def list_all_iff simp del: list.set)
  have "NUL \<notin> set ''0123456789abcdef''" "CHR 10 \<notin> set ''0123456789abcdef''" "CHR '' '' \<notin> set ''0123456789abcdef''"
    "CHR ''/'' \<notin> set ''0123456789abcdef''" by simp_all
  with * show "length (h s) = 40" "NUL \<notin> set (h s)" "CHR 10 \<notin> set (h s)" "CHR '' '' \<notin> set (h s)" "CHR ''/'' \<notin> set (h s)"
    "cstring (h s)" unfolding cstring_def by blast+
qed

lemma rrdfile_parse_hex:
  assumes "sha1_ok h"
  shows "rrdfile_parse dir k t (h k @ NUL # r) = rrdfile_parse dir k t (h k @ [NUL])"
    and "rrdfile_parse dir k t (h k @ [NUL]) = Inr f \<Longrightarrow>
      rf_relpath f = take 2 (h k) @ ''/'' @ take 2 (drop 2 (h k)) @ ''/'' @ h k \<and> rf_name f = k \<and> rf_type f = t"
proof -
  note h = sha1_okD [OF assms]
  have "cstring (take 2 (h k) @ ''/'' @ take 2 (drop 2 (h k)) @ ''/'' @ h k)"
    using h(2) by (auto simp: cstring_def dest: in_set_takeD in_set_dropD)
  then show "rrdfile_parse dir k t (h k @ [NUL]) = Inr f \<Longrightarrow>
      rf_relpath f = take 2 (h k) @ ''/'' @ take 2 (drop 2 (h k)) @ ''/'' @ h k \<and> rf_name f = k \<and> rf_type f = t"
    using h by (auto simp: rrdfile_parse_def Let_def)
  show "rrdfile_parse dir k t (h k @ NUL # r) = rrdfile_parse dir k t (h k @ [NUL])"
    using h by (simp add: rrdfile_parse_def Let_def)
qed

lemma map_line_read:
  assumes h: "sha1_ok h" and f: "map_entry h dir k f"
  defines "line \<equiv> rf_relpath f @ '' '' @ k @ '' '' @ rf_type f"
  shows "rrdmap_line dir (line @ [CHR 10]) = Inr (Some (k, f))" "CHR 10 \<notin> set line" "length line < 8191"
proof -
  note h' = sha1_okD [OF h]
  note m = f [unfolded map_entry_def map_name_def]
  note p = rrdfile_parse_hex [OF h]
  have r: "rf_relpath f = (take 2 (h k) @ ''/'' @ take 2 (drop 2 (h k))) @ CHR ''/'' # h k" using m p(2) [of dir k "rf_type f" f] by simp
  have rs: "CHR '' '' \<notin> set (rf_relpath f)" "CHR 10 \<notin> set (rf_relpath f)" "NUL \<notin> set (rf_relpath f)"
    using h'(2-4) by (fastforce simp: r dest: in_set_takeD in_set_dropD)+
  have t: "CHR '' '' \<notin> set (rf_type f)" "CHR 10 \<notin> set (rf_type f)" "NUL \<notin> set (rf_type f)" "k \<noteq> rf_type f" "length (rf_type f) \<le> 7"
    using m by (auto simp: rrd_types_def)
  show 1: "CHR 10 \<notin> set line" using rs t m by (simp add: line_def)
  show "length line < 8191" using m t(5) h'(1) by (simp add: line_def r)
  have c: "cstr (line @ [CHR 10]) = line @ [CHR 10]" using rs t m by (intro cstr_id) (simp add: line_def cstring_def)
  have l: "cut_last (CHR 10) (line @ [CHR 10]) = Some (line, [])" using cut_last_append [of "CHR 10" "[]" line] by simp
  have "cut_last (CHR '' '') line = Some (rf_relpath f @ CHR '' '' # k, rf_type f)"
    using cut_last_append [OF t(1), of "rf_relpath f @ CHR '' '' # k"] by (simp add: line_def)
  moreover have "cut_first (CHR '' '') (rf_relpath f @ CHR '' '' # k) = Some (rf_relpath f, k)"
    by (rule cut_first_append [OF rs(1)])
  moreover have "cut_last (CHR ''/'') (rf_relpath f) = Some (take 2 (h k) @ ''/'' @ take 2 (drop 2 (h k)), h k)"
    unfolding r by (rule cut_last_append [OF h'(5)])
  ultimately show "rrdmap_line dir (line @ [CHR 10]) = Inr (Some (k, f))"
    using m t(4) p(1) [of dir k "rf_type f" "k @ NUL # rf_type f @ [NUL, NUL]"] by (simp add: rrdmap_line_def c l)
qed

lemma map_lines_read:
  assumes "sha1_ok h" "\<forall>k \<in> set ks. \<exists>f. fmlookup m k = Some f \<and> map_entry h dir k f"
  shows "\<exists>m'. rrdmap_lines dir (concat (map (\<lambda>k. case fmlookup m k of None \<Rightarrow> []
      | Some f \<Rightarrow> rf_relpath f @ '' '' @ rf_name f @ '' '' @ rf_type f @ [CHR 10]) ks)) m0 = Inr m' \<and>
    (\<forall>k. fmlookup m' k = (if k \<in> set ks then fmlookup m k else fmlookup m0 k))"
  using assms(2)
proof (induction ks arbitrary: m0)
  case Nil
  then show ?case by (simp add: rrdmap_lines.simps)
next
  case (Cons k ks)
  then obtain f where f: "fmlookup m k = Some f" "map_entry h dir k f" by auto
  then have "rf_name f = k" using rrdfile_parse_hex(2) [OF assms(1)] by (auto simp: map_entry_def)
  note l = map_line_read [OF assms(1) f(2)]
  let ?line = "rf_relpath f @ '' '' @ k @ '' '' @ rf_type f"
  let ?rest = "concat (map (\<lambda>k. case fmlookup m k of None \<Rightarrow> []
      | Some f \<Rightarrow> rf_relpath f @ '' '' @ rf_name f @ '' '' @ rf_type f @ [CHR 10]) ks)"
  have "fgets 8191 (?line @ CHR 10 # ?rest) = (?line @ [CHR 10], ?rest)"
    by (rule fgets_line) (use l(2,3) in \<open>auto simp: list_all_iff\<close>)
  then have "rrdmap_lines dir (?line @ CHR 10 # ?rest) m0 = rrdmap_lines dir ?rest (fmupd k f m0)"
    using l(1) by (subst rrdmap_lines.simps) simp
  moreover from Cons obtain m' where "rrdmap_lines dir ?rest (fmupd k f m0) = Inr m'"
    "\<forall>j. fmlookup m' j = (if j \<in> set ks then fmlookup m j else fmlookup (fmupd k f m0) j)" by fastforce
  ultimately show ?case using f(1) \<open>rf_name f = k\<close> by auto
qed

lemma map_text_read:
  assumes "sha1_ok h" "fmpred (map_entry h dir) m" "visits_all E"
  shows "rrdmap_lines dir (rrdmap_text E m) fmempty = Inr m"
proof -
  note v = visits_allD [OF assms(3), of H_metrics "fmdom m"]
  have "\<forall>k \<in> set (hash_order E H_metrics (fmdom m)). \<exists>f. fmlookup m k = Some f \<and> map_entry h dir k f"
    using v(2) assms(2) by (metis fmdomE fmpredD)
  from map_lines_read [OF assms(1) this, of fmempty] obtain m' where m': "rrdmap_lines dir (rrdmap_text E m) fmempty = Inr m'"
    "\<forall>k. fmlookup m' k = (if k \<in> set (hash_order E H_metrics (fmdom m)) then fmlookup m k else None)" by (auto simp: rrdmap_text_def)
  have "m' = m" using m'(2) v(2) by (intro fmap_ext) (auto simp: fmdom_notD)
  with m'(1) show ?thesis by simp
qed

lemma rrdfile_parse_total:
  assumes "sha1_ok h"
  obtains f where "rrdfile_parse dir k t (h k @ [NUL]) = Inr f"
  using sha1_okD(1) [OF assms, of k] by (auto simp: rrdfile_parse_def Let_def)

lemma find_file_entry:
  assumes "sha1_ok (sha1_hex L)" "fmpred (map_entry (sha1_hex L) dir) m" "hd p \<in> set rrd_types" "map_name (p ! 2)"
    "rrd_filename L dir (p ! 2) (hd p) = Inr f"
  obtains g where "find_file L dir p m = Inr (g, fmupd (p ! 2) g m)" "map_entry (sha1_hex L) dir (p ! 2) g"
    "g = f\<lparr>rf_type := rf_type g\<rparr>"
proof (cases "fmlookup m (p ! 2)")
  case None
  have "f = f\<lparr>rf_type := rf_type f\<rparr>" by simp
  moreover have "map_entry (sha1_hex L) dir (p ! 2) f"
    using assms(3-) rrdfile_parse_hex(2) [OF assms(1)] by (auto simp: map_entry_def rrd_filename_def)
  ultimately show ?thesis using that None assms(5) by (simp add: find_file_def)
next
  case (Some g)
  then have e: "map_entry (sha1_hex L) dir (p ! 2) g" using assms(2) by (auto dest: fmpredD)
  then have "rf_type g \<noteq> ''UNDEFINED''" by (auto simp: map_entry_def rrd_types_def)
  moreover have "g = f\<lparr>rf_type := rf_type g\<rparr>"
    using e assms(5) by (auto simp: map_entry_def rrd_filename_def rrdfile_parse_def Let_def split: if_splits)
  ultimately show ?thesis using that Some e by (simp add: find_file_def)
qed

lemma metric_type: "is_metric p \<Longrightarrow> hd p \<in> set rrd_types"
  by (auto simp: is_metric_def rrd_types_def)

definition heard :: "(string \<Rightarrow> string) \<Rightarrow> env \<times> rrd_lib \<times> rrd_socket \<times> pdu \<Rightarrow> bool" where
  "heard h m = (case m of (E, L, sock, p) \<Rightarrow>
     sha1_hex L = h \<and> (sock = Rd_tock \<or> sock = Rd_subscriber \<and> (\<not> is_metric p \<or> map_name (p ! 2))))"

definition heard_names :: "(env \<times> rrd_lib \<times> rrd_socket \<times> pdu) list \<Rightarrow> string list" where
  "heard_names ms = map (\<lambda>(E, L, sock, p). p ! 2) (filter (\<lambda>(E, L, sock, p). sock = Rd_subscriber \<and> is_metric p) ms)"

text \<open>The dispatcher holds a g for every name in \<open>ks\<close> and for no other.\<close>

definition holds_files :: "(string \<Rightarrow> string) \<Rightarrow> string set \<Rightarrow> rrd_dispatcher_t \<Rightarrow> bool" where
  "holds_files h ks D \<longleftrightarrow> fmpred (map_entry h (rd_root D)) (map_hash (rd_map D)) \<and> fmdom' (map_hash (rd_map D)) = ks"

lemma heard_step:
  assumes h: "sha1_ok h" and D: "holds_files h ks D" and m: "heard h (E, L, sock, p)"
  obtains D' fx where "rrd_dispatcher_reactor E L sock p D = Inr (CONTINUE, D', fx)"
    "holds_files h (ks \<union> set (heard_names [(E, L, sock, p)])) D'"
    "map_file (rd_map D') = map_file (rd_map D)" "map_tmpfile (rd_map D') = map_tmpfile (rd_map D)" "rd_root D' = rd_root D"
proof (cases "sock = Rd_subscriber \<and> is_metric p")
  case False
  then show ?thesis using that [of D] D m by (auto simp: heard_def rrd_dispatcher_reactor_def heard_names_def)
next
  case True
  with m have L: "sha1_ok (sha1_hex L)" "sha1_hex L = h" "map_name (p ! 2)" using h by (auto simp: heard_def)
  obtain f where f: "rrd_filename L (rd_root D) (p ! 2) (hd p) = Inr f"
    unfolding rrd_filename_def by (rule rrdfile_parse_total [OF L(1)])
  have "fmpred (map_entry (sha1_hex L) (rd_root D)) (map_hash (rd_map D))" using D L(2) by (simp add: holds_files_def)
  from find_file_entry [OF L(1) this _ L(3) f] obtain g where
    g: "find_file L (rd_root D) p (map_hash (rd_map D)) = Inr (g, fmupd (p ! 2) g (map_hash (rd_map D)))"
    "map_entry h (rd_root D) (p ! 2) g" using metric_type True L(2) by auto
  show ?thesis
    by (rule that [of "D\<lparr>rd_map := (rd_map D)\<lparr>map_hash := fmupd (p ! 2) g (map_hash (rd_map D))\<rparr>\<rparr>"]) (use True D g in \<open>auto simp: rrd_dispatcher_reactor_def holds_files_def heard_names_def fmdom'_fmupd\<close>)
qed

lemma heard_loop:
  assumes "sha1_ok h" "holds_files h ks D" "list_all (heard h) ms"
  shows "\<exists>D' fx. holds_files h (ks \<union> set (heard_names ms)) D' \<and> map_file (rd_map D') = map_file (rd_map D) \<and>
    map_tmpfile (rd_map D') = map_tmpfile (rd_map D) \<and> rd_root D' = rd_root D \<and>
    (\<forall>rest. rrd_dispatcher_loop (ms @ rest) D = bind_res (rrd_dispatcher_loop rest D') (\<lambda>(v, D, gx). Inr (v, D, fx @ gx)))"
  using assms(2,3)
proof (induction ms arbitrary: ks D)
  case Nil
  have "bind_res x (\<lambda>(v, D, gx). Inr (v, D, [] @ gx)) = x" for x :: "(verdict \<times> rrd_dispatcher_t \<times> rrd_effect list) res"
    by (cases x) auto
  with Nil show ?case by (intro exI [of _ D] exI [of _ "[]"]) (simp add: heard_names_def)
next
  case (Cons m ms)
  obtain E L sock p where m: "m = (E, L, sock, p)" using prod_cases4 by blast
  from Cons.prems(2) have "heard h (E, L, sock, p)" by (simp add: m)
  from heard_step [OF assms(1) Cons.prems(1) this] obtain D1 fx where 1: "rrd_dispatcher_reactor E L sock p D = Inr (CONTINUE, D1, fx)"
    "holds_files h (ks \<union> set (heard_names [m])) D1"
    "map_file (rd_map D1) = map_file (rd_map D)" "map_tmpfile (rd_map D1) = map_tmpfile (rd_map D)" "rd_root D1 = rd_root D"
    unfolding m by metis
  have n: "ks \<union> set (heard_names (m # ms)) = (ks \<union> set (heard_names [m])) \<union> set (heard_names ms)" by (auto simp: heard_names_def)
  from Cons.IH [OF 1(2)] Cons.prems(2) obtain D' gx where 2: "holds_files h (ks \<union> set (heard_names (m # ms))) D'"
    "map_file (rd_map D') = map_file (rd_map D1)" "map_tmpfile (rd_map D') = map_tmpfile (rd_map D1)" "rd_root D' = rd_root D1"
    "\<forall>rest. rrd_dispatcher_loop (ms @ rest) D1 = bind_res (rrd_dispatcher_loop rest D') (\<lambda>(v, D, hx). Inr (v, D, gx @ hx))"
    unfolding n by auto
  show ?case
    by (intro exI [of _ D'] exI [of _ "fx @ gx"]) (use 1 2 in \<open>auto simp: m split: bind_res_split\<close>)
qed

text \<open>
  C31: the dispatcher starts with an empty map, hears any broadcasts and ticks
  and is told to terminate. It then holds a file for exactly the names of the counters,
  samples and rates it heard, the last thing it does is to write its map, and a process
  that reads what was written has the same map. Names longer than 8000 characters, names
  with a newline and the names of the three types are excepted.
\<close>

theorem rrd_restart:
  assumes "sha1_ok h" "list_all (heard h) ms" "visits_all E"
    and "sys_ok E Sys_fopen (map_tmpfile (rrdmap_new mapfile))" "sys_rc E Sys_rename (map_tmpfile (rrdmap_new mapfile)) = 0"
  shows "\<exists>D fx content.
    rrd_dispatcher_loop (ms @ [(E, L, Rd_control, [''TERMINATE''])]) \<lparr>rd_map = rrdmap_new mapfile, rd_root = dir\<rparr> =
      Inr (HALT, D, fx @ [R_mapfile mapfile content]) \<and>
    fmdom' (map_hash (rd_map D)) = set (heard_names ms) \<and>
    (\<forall>E'. sys_ok E' Sys_fopen mapfile \<and> file_data E' mapfile = content \<longrightarrow>
      rrdmap_read E' (rrdmap_new mapfile) dir = Inr (rd_map D))"
proof -
  let ?D = "\<lparr>rd_map = rrdmap_new mapfile, rd_root = dir\<rparr>"
  have "holds_files h {} ?D" by (simp add: holds_files_def rrdmap_new_def)
  from heard_loop [OF assms(1) this assms(2)] obtain D fx where D: "holds_files h (set (heard_names ms)) D"
    "map_file (rd_map D) = mapfile" "map_tmpfile (rd_map D) = map_tmpfile (rrdmap_new mapfile)" "rd_root D = dir"
    "\<And>rest. rrd_dispatcher_loop (ms @ rest) ?D = bind_res (rrd_dispatcher_loop rest D) (\<lambda>(v, D, gx). Inr (v, D, fx @ gx))"
    by (auto simp: rrdmap_new_def)
  have "rrdmap_lines dir (rrdmap_text E (map_hash (rd_map D))) fmempty = Inr (map_hash (rd_map D))"
    using map_text_read [OF assms(1) _ assms(3)] D(1,4) by (auto simp: holds_files_def)
  moreover have "(rrdmap_new mapfile)\<lparr>map_hash := map_hash (rd_map D)\<rparr> = rd_map D"
    using D(2,3) by (simp add: rrdmap_new_def)
  ultimately have "\<forall>E'. sys_ok E' Sys_fopen mapfile \<and> file_data E' mapfile = rrdmap_text E (map_hash (rd_map D)) \<longrightarrow>
      rrdmap_read E' (rrdmap_new mapfile) dir = Inr (rd_map D)" by (simp add: rrdmap_read_def rrdmap_new_def)
  then show ?thesis using D assms(4,5)
    by (auto simp: rrd_dispatcher_reactor_def rrdmap_write_def holds_files_def)
qed

definition demo_rrd :: rrd_lib where
  "demo_rrd = \<lparr>sha1_hex = (\<lambda>s. replicate 40 CHR ''0''), rrdc_connected = False, rrdc_info = (\<lambda>f. False),
     rrd_create_rc = (\<lambda>f as. 0), rrd_update_rc = (\<lambda>f t. 0), spent = 0, enoent = False\<rparr>"

lemma demo_rrd_sha1: "sha1_ok (sha1_hex demo_rrd)"
  by (auto simp: sha1_ok_def demo_rrd_def list_all_iff)

theorem rrd_restart_witness:
  "\<exists>D fx content.
    rrd_dispatcher_loop [(plain_env, demo_rrd, Rd_subscriber, [''COUNTER'', ''60'', ''host=a,m=b c'', ''1'']), (plain_env, demo_rrd, Rd_control, [''TERMINATE''])]
        \<lparr>rd_map = rrdmap_new ''/rrd/map'', rd_root = ''/rrd''\<rparr> = Inr (HALT, D, fx @ [R_mapfile ''/rrd/map'' content]) \<and>
    fmdom' (map_hash (rd_map D)) = {''host=a,m=b c''} \<and>
    rrdmap_read (plain_env\<lparr>file_data := (\<lambda>f. content)\<rparr>) (rrdmap_new ''/rrd/map'') ''/rrd'' = Inr (rd_map D)"
proof -
  let ?ms = "[(plain_env, demo_rrd, Rd_subscriber, [''COUNTER'', ''60'', ''host=a,m=b c'', ''1''])]"
  have n: "set (heard_names ?ms) = {''host=a,m=b c''}" by (simp add: heard_names_def is_metric_def)
  have h: "list_all (heard (sha1_hex demo_rrd)) ?ms" by (simp add: heard_def is_metric_def map_name_def rrd_types_def)
  have s: "sys_ok (plain_env\<lparr>file_data := d\<rparr>) c f" for d c f by (simp add: plain_env_def)
  note r = rrd_restart [OF demo_rrd_sha1 h plain_env_visits_all(2) plain_env_sys(1) plain_env_sys(3),
      where mapfile = "''/rrd/map''" and dir = "''/rrd''" and L = demo_rrd, unfolded n]
  then obtain D fx content where *: "rrd_dispatcher_loop (?ms @ [(plain_env, demo_rrd, Rd_control, [''TERMINATE''])])
        \<lparr>rd_map = rrdmap_new ''/rrd/map'', rd_root = ''/rrd''\<rparr> = Inr (HALT, D, fx @ [R_mapfile ''/rrd/map'' content])"
    "fmdom' (map_hash (rd_map D)) = {''host=a,m=b c''}"
    and **: "\<forall>E'. sys_ok E' Sys_fopen ''/rrd/map'' \<and> file_data E' ''/rrd/map'' = content \<longrightarrow>
      rrdmap_read E' (rrdmap_new ''/rrd/map'') ''/rrd'' = Inr (rd_map D)" by (elim exE conjE) (rule that)
  from ** [THEN spec, of "plain_env\<lparr>file_data := (\<lambda>f. content)\<rparr>"] s
  have "rrdmap_read (plain_env\<lparr>file_data := (\<lambda>f. content)\<rparr>) (rrdmap_new ''/rrd/map'') ''/rrd'' = Inr (rd_map D)" by simp
  with * show ?thesis unfolding append.simps by (intro exI conjI)
qed

section \<open>From the kernel to the file\<close>

fun colons :: "string list \<Rightarrow> string" where
  "colons [] = []"
| "colons (v # vs) = v @ concat (map (\<lambda>v. CHR '':'' # v) vs)"

definition data_values :: "pdu \<Rightarrow> string list" where
  "data_values q = (if hd q = ''RATE'' then drop 4 q else drop 3 q)"

lemma wire_metric:
  assumes "wire_ok q" "hd q \<in> set rrd_types"
  shows "is_metric q" "length (data_values q) = length (the (ds_defs (hd q)))" "ds_defs (hd q) \<noteq> None"
    "update_text ([''UPDATE'', path, q ! 1, hd q] @ drop 3 q) = Some (colons (q ! 1 # data_values q))"
proof -
  have "length q = 4 \<and> hd q = ''COUNTER'' \<or> length q = 9 \<and> hd q = ''SAMPLE'' \<or> length q = 5 \<and> hd q = ''RATE''"
    using assms by (auto simp: wire_ok_def rrd_types_def counter_frames_def sample_frames_def rate_frames_def
      status_frames_def event_frames_def key_frames_def)
  then consider (c) "length q = 4" "hd q = ''COUNTER''" | (s) "length q = 9" "hd q = ''SAMPLE''" | (r) "length q = 5" "hd q = ''RATE''"
    by blast
  then have "is_metric q \<and> length (data_values q) = length (the (ds_defs (hd q))) \<and> ds_defs (hd q) \<noteq> None \<and>
    update_text ([''UPDATE'', path, q ! 1, hd q] @ drop 3 q) = Some (colons (q ! 1 # data_values q))"
  proof cases
    case c
    then obtain a b d where "q = [''COUNTER'', a, b, d]" by (auto simp: length_Suc_conv eval_nat_numeral)
    then show ?thesis by (simp add: is_metric_def data_values_def ds_defs_def update_text_def)
  next
    case s
    then obtain a b c d e f g i where "q = [''SAMPLE'', a, b, c, d, e, f, g, i]" by (auto simp: length_Suc_conv eval_nat_numeral)
    then show ?thesis by (simp add: is_metric_def data_values_def ds_defs_def update_text_def)
  next
    case r
    then obtain a b c d where "q = [''RATE'', a, b, c, d]" by (auto simp: length_Suc_conv eval_nat_numeral)
    then show ?thesis by (simp add: is_metric_def data_values_def ds_defs_def update_text_def)
  qed
  then show "is_metric q" "length (data_values q) = length (the (ds_defs (hd q)))" "ds_defs (hd q) \<noteq> None"
    "update_text ([''UPDATE'', path, q ! 1, hd q] @ drop 3 q) = Some (colons (q ! 1 # data_values q))" by auto
qed

lemma ds_words: "ds_defs t = Some ds \<Longrightarrow> list_all word_ok ds"
  by (auto simp: ds_defs_def word_ok_def split: if_splits)

lemma unwords_append: "ws \<noteq> [] \<Longrightarrow> concat (map (\<lambda>d. d @ '' '') ds) @ unwords ws = unwords (ds @ ws)"
proof (induction ds)
  case (Cons d ds)
  then show ?case by (cases "ds @ ws") auto
qed simp


text \<open>
  C32: a counter, sample or rate that the kernel broadcasts, at the dispatcher of
  \<open>bolo2rrd\<close>. If the file of its name is there, the dispatcher sends one update and the
  updater writes the time and the values of the broadcast to that file, as many as the
  type has data sources. If it is not there, the dispatcher sends one request and the
  creator makes both directories and a file with the data sources of the type.
\<close>

theorem rrd_flow:
  assumes "kernel_reactor E0 sock msg K = Inr (v, K', fx)" "Broadcast q \<in> set fx" "hd q \<in> set rrd_types"
    and "sha1_ok (sha1_hex L)" "holds_files (sha1_hex L) ks D" "map_name (q ! 2)"
    and "rrd_filename L (rd_root D) (q ! 2) (hd q) = Inr f"
    and "splits_words E" "ws \<noteq> []" "list_all word_ok ws"
  shows "\<exists>D' u ds. ds_defs (hd q) = Some ds \<and> length (data_values q) = length ds \<and>
    rrd_dispatcher_reactor E L Rd_subscriber q D =
      Inr (CONTINUE, D', [if missing E L (rf_abspath f) then R_creates u else R_updates u, perf E L ''dispatch.time.s'']) \<and>
    (\<not> missing E L (rf_abspath f) \<longrightarrow>
      (let t = colons (q ! 1 # data_values q) in updater_queue E L u = Inr (R_update (rf_abspath f) t #
        (if rrd_update_rc L (rf_abspath f) t = 0 then [perf E L ''update.time.s'', tally ''update.ops''] else [tally ''update.errors''])))) \<and>
    (sys_rc E Sys_stat (rf_abspath f) \<noteq> 0 \<and> \<not> (rrdc_connected L \<and> rrdc_info L (rf_abspath f)) \<longrightarrow>
      creator_queue E L (unwords ws) u = Inr ([R_mkdir (rf_parent0 f), R_mkdir (rf_parent1 f),
          R_create (rf_abspath f) (time_s E - 365 * 86400) (ds @ ws)] @
        (if rrd_create_rc L (rf_abspath f) (ds @ ws) = 0 then [perf E L ''create.time.s'', tally ''create.ops''] else [tally ''create.errors''])))"
proof -
  have "wire_ok q" using kernel_typed [OF assms(1)] assms(2) by (auto simp: list_all_iff typed_def)
  note w = wire_metric [OF this assms(3)]
  from w(3) obtain ds where ds: "ds_defs (hd q) = Some ds" by blast
  have sp: "strings_split E (concat (map (\<lambda>d. d @ '' '') ds) @ unwords ws) = ds @ ws"
    using assms(8-10) ds_words [OF ds] by (simp add: unwords_append splits_words_def)
  from assms(5) have "fmpred (map_entry (sha1_hex L) (rd_root D)) (map_hash (rd_map D))" by (simp add: holds_files_def)
  from find_file_entry [OF assms(4) this assms(3,6,7)] obtain g where
    g: "find_file L (rd_root D) q (map_hash (rd_map D)) = Inr (g, fmupd (q ! 2) g (map_hash (rd_map D)))" "g = f\<lparr>rf_type := rf_type g\<rparr>" by auto
  have p: "rf_abspath g = rf_abspath f" "rf_parent0 g = rf_parent0 f" "rf_parent1 g = rf_parent1 f"
    using arg_cong [OF g(2), of rf_abspath] arg_cong [OF g(2), of rf_parent0] arg_cong [OF g(2), of rf_parent1] by simp_all
  let ?u = "if missing E L (rf_abspath f) then [''CREATE'', rf_parent0 f, rf_parent1 f, rf_abspath f, hd q]
    else [''UPDATE'', rf_abspath f, q ! 1, hd q] @ drop 3 q"
  have "updater_queue E L ([''UPDATE'', rf_abspath f, q ! 1, hd q] @ drop 3 q) = Inr (R_update (rf_abspath f) t #
        (if rrd_update_rc L (rf_abspath f) t = 0 then [perf E L ''update.time.s'', tally ''update.ops''] else [tally ''update.errors'']))"
    if "\<not> missing E L (rf_abspath f)" "t = colons (q ! 1 # data_values q)" for t
    using that w(4) [of "rf_abspath f"] by (simp add: updater_queue_def)
  moreover have "creator_queue E L (unwords ws) [''CREATE'', rf_parent0 f, rf_parent1 f, rf_abspath f, hd q] =
      Inr ([R_mkdir (rf_parent0 f), R_mkdir (rf_parent1 f), R_create (rf_abspath f) (time_s E - 365 * 86400) (ds @ ws)] @
        (if rrd_create_rc L (rf_abspath f) (ds @ ws) = 0 then [perf E L ''create.time.s'', tally ''create.ops''] else [tally ''create.errors'']))"
    if "sys_rc E Sys_stat (rf_abspath f) \<noteq> 0 \<and> \<not> (rrdc_connected L \<and> rrdc_info L (rf_abspath f))"
    using that sp ds by (simp add: creator_queue_def Let_def)
  moreover have "rrd_dispatcher_reactor E L Rd_subscriber q D = Inr (CONTINUE, D\<lparr>rd_map := (rd_map D)\<lparr>map_hash := fmupd (q ! 2) g (map_hash (rd_map D))\<rparr>\<rparr>,
      [if missing E L (rf_abspath f) then R_creates ?u else R_updates ?u, perf E L ''dispatch.time.s''])"
    using w(1) g(1) by (simp add: rrd_dispatcher_reactor_def relay_def p)
  moreover have "missing E L (rf_abspath f)" if "sys_rc E Sys_stat (rf_abspath f) \<noteq> 0" using that by (simp add: missing_def)
  ultimately show ?thesis using w(2) unfolding ds option.sel Let_def
    by (intro exI conjI) (rule refl, assumption, assumption, simp_all)
qed

lemma demo_counter_broadcast:
  "\<exists>K'. kernel_reactor plain_env S_listener [''COUNTER'', dec 200, ''c'', dec 1] (blank_kernel demo_server) =
    Inr (CONTINUE, K', [Broadcast [''COUNTER'', dec 60, ''c'', dec 7]])"
proof -
  define c where "c = \<lparr>counter_window = \<lparr>window_name = None, window_time = 60\<rparr>, counter_name = ''c'', counter_last_seen = 100,
    counter_value = 7, counter_ignore = 0\<rparr>"
  have c: "fmlookup (counters demo_db) ''c'' = Some c" "counter_window c = \<lparr>window_name = None, window_time = 60\<rparr>"
    "counter_name c = ''c''" "counter_last_seen c = 100" "counter_value c = 7" "counter_ignore c = 0" by (simp_all add: c_def demo_db_def)
  have f: "find_counter plain_env demo_db ''c'' = (Some c, demo_db)" using c(1) by (simp add: find_counter_def)
  have "smod32 100 60 = Inr 40" "umod32 200 60 = Inr 20" by (simp_all add: smod32_def umod32_def)
  then have "\<exists>c' . counter_update 200 x c = Inr (c', [Broadcast [''COUNTER'', dec 60, ''c'', dec 7]])" for x
    using c by (simp add: counter_update_def rollover_def winstart_def winstart_u_def broadcast_counter_def)
  moreover have "ucast (strtoul (dec 200)) = (200 :: 32 word)" using strtoul_dec32 [of 200] by simp
  ultimately show ?thesis using c(6)
    by (auto simp: kernel_reactor_def listener_def pdu_is_def listen_counter_def f Let_def bind_res_Inr_iff)
qed

theorem rrd_flow_witness:
  "\<exists>D' u f. rrd_filename demo_rrd ''/rrd'' ''c'' ''COUNTER'' = Inr f \<and>
    rrd_dispatcher_reactor plain_env demo_rrd Rd_subscriber [''COUNTER'', dec 60, ''c'', dec 7] \<lparr>rd_map = rrdmap_new ''/rrd/map'', rd_root = ''/rrd''\<rparr> =
      Inr (CONTINUE, D', [R_updates u, perf plain_env demo_rrd ''dispatch.time.s'']) \<and>
    updater_queue plain_env demo_rrd u = Inr [R_update (rf_abspath f) (dec 60 @ '':'' @ dec 7),
      perf plain_env demo_rrd ''update.time.s'', tally ''update.ops'']"
proof -
  let ?D = "\<lparr>rd_map = rrdmap_new ''/rrd/map'', rd_root = ''/rrd''\<rparr>" and ?q = "[''COUNTER'', dec 60, ''c'', dec 7]"
  obtain f where f: "rrd_filename demo_rrd (rd_root ?D) (?q ! 2) (hd ?q) = Inr f"
    unfolding rrd_filename_def by (rule rrdfile_parse_total [OF demo_rrd_sha1])
  obtain K' where K: "kernel_reactor plain_env S_listener [''COUNTER'', dec 200, ''c'', dec 1] (blank_kernel demo_server) =
    Inr (CONTINUE, K', [Broadcast ?q])" using demo_counter_broadcast by blast
  have D: "holds_files (sha1_hex demo_rrd) {} ?D" by (simp add: holds_files_def rrdmap_new_def)
  have q: "Broadcast ?q \<in> set [Broadcast ?q]" "hd ?q \<in> set rrd_types" "map_name (?q ! 2)" by (simp_all add: rrd_types_def map_name_def)
  have w: "[''RRA:MAX:0.5:60:24''] \<noteq> []" "list_all word_ok [''RRA:MAX:0.5:60:24'']" by (simp_all add: word_ok_def)
  have m: "\<not> missing plain_env demo_rrd p" for p by (simp add: missing_def demo_rrd_def)
  have u: "rrd_update_rc demo_rrd p t = 0" for p t by (simp add: demo_rrd_def)
  have v: "colons (?q ! 1 # data_values ?q) = dec 60 @ '':'' @ dec 7" by (simp add: data_values_def)
  from rrd_flow [OF K q(1,2) demo_rrd_sha1 D q(3) f plain_env_words(1) w, unfolded v Let_def u] m
  obtain D' u where "rrd_dispatcher_reactor plain_env demo_rrd Rd_subscriber ?q ?D =
      Inr (CONTINUE, D', [R_updates u, perf plain_env demo_rrd ''dispatch.time.s''])"
    "updater_queue plain_env demo_rrd u = Inr [R_update (rf_abspath f) (dec 60 @ '':'' @ dec 7),
      perf plain_env demo_rrd ''update.time.s'', tally ''update.ops'']" by (auto simp only: if_False if_True refl simp_thms)
  with f show ?thesis by (intro exI [of _ D'] exI [of _ u] exI [of _ f]) simp
qed

end
