(* ===== verification/Bolo_Pg.thy ===== *)
theory Bolo_Pg
  imports Bolo_Rrd
begin

text \<open>
  The subscriber \<open>bolo2pg\<close> (\<open>src/src/bolo2pg/main.c\<close>): it stores states and events in a
  PostgreSQL database. A dispatcher leaves out repeated good states, inserters write rows
  into a staging table, and a reconciler starts a procedure of the database.

  The database is a parameter: whether a statement succeeds. Sockets and threads are given
  by what their calls return; log texts and help texts are left out.
\<close>

section \<open>Inserting rows\<close>

text \<open>
  The parameters: whether a prepared statement succeeds with its arguments, whether a
  query does, whether a connection and a preparation do, and what the stopwatch shows.
\<close>

record pg_lib =
  pq_exec_prepared :: "string \<Rightarrow> string list \<Rightarrow> bool"
  pq_exec :: "string \<Rightarrow> bool"
  pq_connect :: "string \<Rightarrow> bool"
  pq_prepare :: "string \<Rightarrow> bool"
  pq_spent :: real

datatype pg_effect =
    Pg_inserts pdu
  | Pg_monitor pdu
  | Pg_exec string "string list"

definition pg_perf :: "env \<Rightarrow> pg_lib \<Rightarrow> string \<Rightarrow> pg_effect" where
  "pg_perf E L name = Pg_monitor [''SAMPLE'', name, fmt_lf E (pq_spent L)]"

definition pg_count :: "string \<Rightarrow> pg_effect" where
  "pg_count name = Pg_monitor [''COUNT'', name]"

definition pg_insert :: "env \<Rightarrow> pg_lib \<Rightarrow> string \<Rightarrow> string \<Rightarrow> string list \<Rightarrow> pg_effect list" where
  "pg_insert E L kind stmt params =
     Pg_exec stmt params #
     (if pq_exec_prepared L stmt params then [pg_perf E L (kind @ '':insert.time.s''), pg_count (kind @ '':insert.ops'')]
      else [pg_count (kind @ '':insert.errors'')])"

definition inserter_queue :: "env \<Rightarrow> pg_lib \<Rightarrow> pdu \<Rightarrow> pg_effect list" where
  "inserter_queue E L p =
     (if hd p = ''STATE'' \<and> length p = 6 then pg_insert E L ''state'' ''INSERT_STAGING'' [p ! 1, p ! 4, p ! 5, p ! 2]
      else if hd p = ''EVENT'' \<and> length p = 4 then pg_insert E L ''event'' ''INSERT_EVENT'' [p ! 2, p ! 3, p ! 1]
      else [])"

definition inserter_reactor :: "env \<Rightarrow> pg_lib \<Rightarrow> worker_socket \<Rightarrow> pdu \<Rightarrow> verdict \<times> pg_effect list" where
  "inserter_reactor E L sock p =
     (case sock of
        Wk_control \<Rightarrow> (if hd p = ''TERMINATE'' then HALT else CONTINUE, [])
      | Wk_queue \<Rightarrow> (CONTINUE, inserter_queue E L p)
      | Wk_other \<Rightarrow> (HALT, []))"

section \<open>Reconciling\<close>

datatype reconciler_socket = Rc_control | Rc_tock | Rc_other

definition reconciler_reactor :: "env \<Rightarrow> pg_lib \<Rightarrow> reconciler_socket \<Rightarrow> pdu \<Rightarrow> verdict \<times> pg_effect list" where
  "reconciler_reactor E L sock p =
     (case sock of
        Rc_control \<Rightarrow> (if hd p = ''TERMINATE'' then HALT else CONTINUE, [])
      | Rc_tock \<Rightarrow>
          (CONTINUE, Pg_exec ''SELECT reconcile()'' [] #
            (if pq_exec L ''SELECT reconcile()'' then [pg_perf E L ''reconcile.time.s'', pg_count ''reconcile.ops'']
             else [pg_count ''reconcile.errors'']))
      | Rc_other \<Rightarrow> (HALT, []))"

section \<open>The dispatcher\<close>

record pg_dispatcher_t =
  pd_seen :: "(string, nat) fmap"

definition SEEN :: nat where
  "SEEN = 0x42"

datatype pg_socket = Pg_control | Pg_subscriber | Pg_other

definition pg_dispatch :: "pdu \<Rightarrow> pg_dispatcher_t \<Rightarrow> (pg_dispatcher_t \<times> pg_effect) option" where
  "pg_dispatch p D =
     (if hd p = ''STATE'' \<and> length p = 6 then
        let state = p ! 1; code = p ! 4 in
        if code \<noteq> ''OK'' \<or> fmlookup (pd_seen D) state = None
        then Some (D\<lparr>pd_seen := fmupd state SEEN (pd_seen D)\<rparr>, Pg_inserts p)
        else Some (D, pg_count ''dispatch.skips'')
      else if hd p = ''TRANSITION'' \<and> length p = 6 then
        Some (D\<lparr>pd_seen := fmupd (p ! 1) SEEN (pd_seen D)\<rparr>, Pg_inserts (''STATE'' # tl p))
      else if hd p = ''EVENT'' \<and> length p = 4 then Some (D, Pg_inserts (''EVENT'' # tl p))
      else None)"

definition pg_dispatcher_reactor ::
  "env \<Rightarrow> pg_lib \<Rightarrow> pg_socket \<Rightarrow> pdu \<Rightarrow> pg_dispatcher_t \<Rightarrow> verdict \<times> pg_dispatcher_t \<times> pg_effect list" where
  "pg_dispatcher_reactor E L sock p D =
     (case sock of
        Pg_control \<Rightarrow> (if hd p = ''TERMINATE'' then HALT else CONTINUE, D, [])
      | Pg_subscriber \<Rightarrow>
          (case pg_dispatch p D of
             None \<Rightarrow> (CONTINUE, D, [])
           | Some (D, e) \<Rightarrow> (CONTINUE, D, [e, pg_perf E L ''dispatch.time.s'']))
      | Pg_other \<Rightarrow> (HALT, D, []))"

fun pg_dispatcher_loop ::
  "(env \<times> pg_lib \<times> pg_socket \<times> pdu) list \<Rightarrow> pg_dispatcher_t \<Rightarrow> verdict \<times> pg_dispatcher_t \<times> pg_effect list" where
  "pg_dispatcher_loop [] D = (CONTINUE, D, [])"
| "pg_dispatcher_loop ((E, L, sock, p) # ms) D =
     (let (v, D, fx) = pg_dispatcher_reactor E L sock p D in
      if v = HALT then (HALT, D, fx)
      else let (v, D, gx) = pg_dispatcher_loop ms D in (v, D, fx @ gx))"

fun inserter_loop :: "(env \<times> pg_lib \<times> worker_socket \<times> pdu) list \<Rightarrow> verdict \<times> pg_effect list" where
  "inserter_loop [] = (CONTINUE, [])"
| "inserter_loop ((E, L, sock, p) # ms) =
     (let (v, fx) = inserter_reactor E L sock p in
      if v = HALT then (HALT, fx) else let (v, gx) = inserter_loop ms in (v, fx @ gx))"

fun reconciler_loop :: "(env \<times> pg_lib \<times> reconciler_socket \<times> pdu) list \<Rightarrow> verdict \<times> pg_effect list" where
  "reconciler_loop [] = (CONTINUE, [])"
| "reconciler_loop ((E, L, sock, p) # ms) =
     (let (v, fx) = reconciler_reactor E L sock p in
      if v = HALT then (HALT, fx) else let (v, gx) = reconciler_loop ms in (v, fx @ gx))"

section \<open>Start\<close>

definition pg_dispatcher_thread :: "env \<Rightarrow> string \<Rightarrow> int" where
  "pg_dispatcher_thread E endpoint = first_failure
     [bolo_subscriber_connect_supervisor E, bolo_subscriber_connect_monitor E,
      if \<not> sys_ok E Sys_socket endpoint then - 1 else sys_rc E Sys_setsockopt endpoint, sys_rc E Sys_connect endpoint,
      open_socket E Sys_bind ''inproc://bolo2pg/v1/dispatcher.inserts'',
      if sys_ok E Sys_reactor_new [] then 0 else - 1, sys_rc E Sys_reactor_set ''control'',
      sys_rc E Sys_reactor_set ''subscriber'', sys_rc E Sys_thread ''dispatcher'']"

text \<open>\<open>PQconnectdb\<close> and the status of the connection are one parameter.\<close>

definition inserter_thread :: "env \<Rightarrow> pg_lib \<Rightarrow> string \<Rightarrow> nat \<Rightarrow> int" where
  "inserter_thread E L dsn n = first_failure
     [bolo_subscriber_connect_supervisor E, bolo_subscriber_connect_monitor E,
      open_socket E Sys_connect ''inproc://bolo2pg/v1/dispatcher.inserts'',
      if sys_ok E Sys_reactor_new [] then 0 else - 1, sys_rc E Sys_reactor_set ''control'',
      sys_rc E Sys_reactor_set ''queue'', if pq_connect L dsn then 0 else - 1,
      if pq_prepare L ''INSERT_STAGING'' then 0 else - 1, if pq_prepare L ''INSERT_EVENT'' then 0 else - 1,
      sys_rc E Sys_thread (''inserter'' @ dec n)]"

definition reconciler_thread :: "env \<Rightarrow> pg_lib \<Rightarrow> string \<Rightarrow> int" where
  "reconciler_thread E L dsn = first_failure
     [bolo_subscriber_connect_supervisor E, bolo_subscriber_connect_monitor E, bolo_subscriber_connect_scheduler E,
      if sys_ok E Sys_reactor_new [] then 0 else - 1, sys_rc E Sys_reactor_set ''control'',
      sys_rc E Sys_reactor_set ''tock'', if pq_connect L dsn then 0 else - 1, sys_rc E Sys_thread ''reconciler'']"

text \<open>User and password: the first line of a file, separated by the first colon.\<close>

definition s_read_creds :: "env \<Rightarrow> string \<Rightarrow> int \<times> (string \<times> string) option" where
  "s_read_creds E path =
     (if \<not> sys_ok E Sys_fopen path then (1, None)
      else if file_data E path = [] then (1, None)
      else let buf = cstr (fst (fgets 255 (file_data E path))) in
        case (cut_first (CHR '':'') buf, cut_last (CHR 10) buf) of
          (Some _, Some (line, _)) \<Rightarrow> (0, cut_first (CHR '':'') line)
        | _ \<Rightarrow> (1, None))"

record pg_options =
  pg_endpoint :: string
  pg_verbose :: "32 word"
  pg_daemonize :: bool
  pg_pidfile :: string
  pg_user :: string
  pg_group :: string
  pg_database :: string
  pg_host :: string
  pg_port :: string
  pg_creds :: "string option"
  pg_inserters :: "32 word"
  pg_submit_to :: string
  pg_prefix :: "string option"

definition pg_defaults :: pg_options where
  "pg_defaults = \<lparr>pg_endpoint = ''tcp://127.0.0.1:2997'', pg_verbose = 0, pg_daemonize = True,
     pg_pidfile = ''/var/run/bolo2pg.pid'', pg_user = ''root'', pg_group = ''root'', pg_database = ''bolo'',
     pg_host = ''localhost'', pg_port = ''5432'', pg_creds = None, pg_inserters = 8,
     pg_submit_to = ''tcp://127.0.0.1:2999'', pg_prefix = None\<rparr>"

fun pg_getopt :: "(char \<times> string) list \<Rightarrow> pg_options \<Rightarrow> int + pg_options" where
  "pg_getopt [] opt = Inr opt"
| "pg_getopt ((c, optarg) # os) opt =
     (if c = CHR ''h'' \<or> c = CHR 0x3F \<or> c = CHR ''V'' then Inl 0
      else if c = CHR ''v'' then pg_getopt os (opt\<lparr>pg_verbose := pg_verbose opt + 1\<rparr>)
      else if c = CHR ''e'' then pg_getopt os (opt\<lparr>pg_endpoint := optarg\<rparr>)
      else if c = CHR ''F'' then pg_getopt os (opt\<lparr>pg_daemonize := False\<rparr>)
      else if c = CHR ''p'' then pg_getopt os (opt\<lparr>pg_pidfile := optarg\<rparr>)
      else if c = CHR ''u'' then pg_getopt os (opt\<lparr>pg_user := optarg\<rparr>)
      else if c = CHR ''g'' then pg_getopt os (opt\<lparr>pg_group := optarg\<rparr>)
      else if c = CHR ''C'' then pg_getopt os (opt\<lparr>pg_creds := Some optarg\<rparr>)
      else if c = CHR ''d'' then pg_getopt os (opt\<lparr>pg_database := optarg\<rparr>)
      else if c = CHR ''H'' then pg_getopt os (opt\<lparr>pg_host := optarg\<rparr>)
      else if c = CHR ''P'' then pg_getopt os (opt\<lparr>pg_port := optarg\<rparr>)
      else if c = CHR ''n'' then pg_getopt os (opt\<lparr>pg_prefix := Some optarg\<rparr>)
      else if c = CHR ''I'' then pg_getopt os (opt\<lparr>pg_inserters := word_of_int (strtol optarg)\<rparr>)
      else if c = CHR ''S'' then pg_getopt os (opt\<lparr>pg_submit_to := optarg\<rparr>)
      else Inl 1)"

definition pg_dsn :: "pg_options \<Rightarrow> (string \<times> string) option \<Rightarrow> string" where
  "pg_dsn opt creds = ''host='' @ pg_host opt @ '' port='' @ pg_port opt @ '' dbname='' @ pg_database opt @
     (case creds of None \<Rightarrow> [] | Some (user, pass) \<Rightarrow> '' user='' @ user @ '' password='' @ pass)"

definition pg_metrics :: "(string \<times> string) list" where
  "pg_metrics = [(''COUNT'', ''insert.ops''), (''COUNT'', ''reconcile.ops''), (''COUNT'', ''insert.errors''),
     (''COUNT'', ''reconcile.errors''), (''COUNT'', ''dispatch.skips''), (''SAMPLE'', ''dispatch.time.s''),
     (''SAMPLE'', ''insert.time.s''), (''SAMPLE'', ''reconcile.time.s'')]"

record pg_running =
  pr_monitor :: "monitor_t option"
  pr_announced :: "pdu list"
  pr_dispatcher :: pg_dispatcher_t
  pr_inserters :: nat

definition pg_threads ::
  "env \<Rightarrow> pg_lib \<Rightarrow> pg_options \<Rightarrow> string \<Rightarrow> string \<Rightarrow> bool list \<Rightarrow> (int \<times> signal) list \<Rightarrow> int \<times> pg_running option" where
  "pg_threads E L opt prefix dsn sends sigs =
     (let (rc, mon) = bolo_subscriber_monitor_thread E prefix (pg_submit_to opt); inserters = nat (sint (pg_inserters opt)) in
      if rc \<noteq> 0 then (2, None)
      else if bolo_subscriber_scheduler_thread E \<noteq> 0 then (2, None)
      else let (_, announced) = bolo_subscriber_metrics E sends pg_metrics in
        if reconciler_thread E L dsn \<noteq> 0 then (2, None)
        else if pg_dispatcher_thread E (pg_endpoint opt) \<noteq> 0 then (2, None)
        else if first_failure (map (inserter_thread E L dsn) [0..<inserters]) \<noteq> 0 then (2, None)
        else let _ = bolo_subscriber_supervisor E sigs
             in (0, Some \<lparr>pr_monitor = mon, pr_announced = announced, pr_dispatcher = \<lparr>pd_seen = fmempty\<rparr>, pr_inserters = inserters\<rparr>))"

definition bolo2pg_main ::
  "env \<Rightarrow> pg_lib \<Rightarrow> string \<Rightarrow> (char \<times> string) list \<Rightarrow> bool list \<Rightarrow> (int \<times> signal) list \<Rightarrow> int \<times> pg_running option" where
  "bolo2pg_main E L host os sends sigs =
     (case pg_getopt os pg_defaults of
        Inl rc \<Rightarrow> (rc, None)
      | Inr opt \<Rightarrow>
          let prefix = (case pg_prefix opt of None \<Rightarrow> host @ '':sys:bolo2pg'' | Some p \<Rightarrow> p);
              (rc, creds) = (case pg_creds opt of None \<Rightarrow> (0, None) | Some f \<Rightarrow> s_read_creds E f)
          in if pg_daemonize opt \<and> sys_rc E Sys_daemonize (pg_pidfile opt) \<noteq> 0 then (3, None)
             else if \<not> sys_ok E Sys_zmq_ctx [] then (1, None)
             else if rc \<noteq> 0 then (1, None)
             else if bolo_subscriber_init E \<noteq> 0 then (2, None)
             else pg_threads E L opt prefix (pg_dsn opt creds) sends sigs)"

section \<open>The rows of the staging table\<close>

text \<open>
  A broadcast that carries the status of a state, the statuses last heard after some
  broadcasts, and when no change to a good status comes unannounced: a \<open>STATE\<close> PDU that
  says \<open>OK\<close> about a state heard of before repeats what was heard.
\<close>

definition status_of :: "pdu \<Rightarrow> (string \<times> string) option" where
  "status_of q = (if (hd q = ''STATE'' \<or> hd q = ''TRANSITION'') \<and> length q = 6 then Some (q ! 1, q ! 4) else None)"

definition hears :: "(string \<rightharpoonup> string) \<Rightarrow> pdu \<Rightarrow> (string \<rightharpoonup> string)" where
  "hears L q = (case status_of q of None \<Rightarrow> L | Some (k, c) \<Rightarrow> L(k \<mapsto> c))"

fun news :: "(string \<rightharpoonup> string) \<Rightarrow> pdu list \<Rightarrow> bool" where
  "news L [] = True"
| "news L (q # qs) =
     ((hd q = ''STATE'' \<and> length q = 6 \<and> q ! 4 = ''OK'' \<and> L (q ! 1) \<noteq> None \<longrightarrow> L (q ! 1) = Some ''OK'') \<and> news (hears L q) qs)"

definition sent :: "pg_effect list \<Rightarrow> pdu list" where
  "sent fx = List.map_filter (\<lambda>e. case e of Pg_inserts p \<Rightarrow> Some p | _ \<Rightarrow> None) fx"

definition staged :: "pg_effect list \<Rightarrow> string list list" where
  "staged fx = List.map_filter (\<lambda>e. case e of Pg_exec stmt row \<Rightarrow> if stmt = ''INSERT_STAGING'' then Some row else None | _ \<Rightarrow> None) fx"

lemma map_filter_app: "List.map_filter f (xs @ ys) = List.map_filter f xs @ List.map_filter f ys"
  by (simp add: List.map_filter_def)

lemma sent_simps [simp]:
  "sent [] = []" "sent (Pg_inserts p # fx) = p # sent fx" "sent (Pg_monitor p # fx) = sent fx" "sent (Pg_exec s r # fx) = sent fx"
  "sent (pg_perf E L n # fx) = sent fx" "sent (pg_count n # fx) = sent fx" "sent (fx @ gx) = sent fx @ sent gx"
  by (simp_all add: sent_def pg_perf_def pg_count_def List.map_filter_simps map_filter_app)

lemma news_append: "news L (xs @ ys) = (news L xs \<and> news (foldl hears L xs) ys)"
  by (induction xs arbitrary: L) auto

lemma dispatch_follows:
  assumes "\<forall>k. fmlookup (pd_seen D) k = None \<longleftrightarrow> L k = None" "news L [q]"
  shows "case pg_dispatch q D of
      None \<Rightarrow> hears L q = L
    | Some (D', e) \<Rightarrow> (\<forall>k. fmlookup (pd_seen D') k = None \<longleftrightarrow> hears L q k = None) \<and> foldl hears L (sent [e]) = hears L q \<and>
        list_all (\<lambda>u. hd u \<noteq> ''TRANSITION'') (sent [e])"
proof -
  consider (S) "hd q = ''STATE''" "length q = 6" | (T) "hd q = ''TRANSITION''" "length q = 6"
    | (E) "hd q = ''EVENT''" "length q = 4" | (N) "\<not> (hd q = ''STATE'' \<and> length q = 6)"
      "\<not> (hd q = ''TRANSITION'' \<and> length q = 6)" "\<not> (hd q = ''EVENT'' \<and> length q = 4)" by blast
  then show ?thesis
  proof cases
    case S
    then have "hears L q = L(q ! 1 \<mapsto> q ! 4)" by (simp add: hears_def status_of_def)
    with S assms show ?thesis by (auto simp: pg_dispatch_def Let_def)
  next
    case T
    then have "hears L q = L(q ! 1 \<mapsto> q ! 4)" "hears L (''STATE'' # tl q) = L(q ! 1 \<mapsto> q ! 4)"
      by (cases q; simp add: hears_def status_of_def)+
    with T assms(1) show ?thesis by (simp add: pg_dispatch_def)
  next
    case E
    then have "hears L q = L" "hears L (''EVENT'' # tl q) = L" by (simp_all add: hears_def status_of_def)
    with E assms(1) show ?thesis by (simp add: pg_dispatch_def)
  next
    case N
    then have "pg_dispatch q D = None" "status_of q = None" by (auto simp: pg_dispatch_def status_of_def)
    then show ?thesis by (simp add: hears_def)
  qed
qed

lemma pg_follows:
  assumes "\<forall>k. fmlookup (pd_seen D) k = None \<longleftrightarrow> L k = None" "news L (map (\<lambda>(E, P, q). q) ms)"
  shows "\<exists>D' fx. pg_dispatcher_loop (map (\<lambda>(E, P, q). (E, P, Pg_subscriber, q)) ms) D = (CONTINUE, D', fx) \<and>
    foldl hears L (sent fx) = foldl hears L (map (\<lambda>(E, P, q). q) ms) \<and> list_all (\<lambda>u. hd u \<noteq> ''TRANSITION'') (sent fx)"
  using assms
proof (induction ms arbitrary: D L)
  case (Cons m ms)
  obtain E P q where m: "m = (E, P, q)" by (cases m) auto
  have n: "news L [q]" "news (hears L q) (map (\<lambda>(E, P, q). q) ms)" using Cons.prems(2) by (simp_all add: m)
  note f = dispatch_follows [OF Cons.prems(1) n(1)]
  show ?case
  proof (cases "pg_dispatch q D")
    case None
    with f have "hears L q = L" by simp
    with n Cons.IH [OF Cons.prems(1)] obtain D' fx where
      "pg_dispatcher_loop (map (\<lambda>(E, P, q). (E, P, Pg_subscriber, q)) ms) D = (CONTINUE, D', fx)"
      "foldl hears L (sent fx) = foldl hears L (map (\<lambda>(E, P, q). q) ms)" "list_all (\<lambda>u. hd u \<noteq> ''TRANSITION'') (sent fx)" by auto
    with None \<open>hears L q = L\<close> show ?thesis by (simp add: m pg_dispatcher_reactor_def)
  next
    case (Some x)
    then obtain D' e where x: "pg_dispatch q D = Some (D', e)" by (cases x) auto
    with f have e: "\<forall>k. fmlookup (pd_seen D') k = None \<longleftrightarrow> hears L q k = None" "foldl hears L (sent [e]) = hears L q"
      "list_all (\<lambda>u. hd u \<noteq> ''TRANSITION'') (sent [e])" by auto
    from Cons.IH [OF e(1) n(2)] obtain D'' fx where
      "pg_dispatcher_loop (map (\<lambda>(E, P, q). (E, P, Pg_subscriber, q)) ms) D' = (CONTINUE, D'', fx)"
      "foldl hears (hears L q) (sent fx) = foldl hears (hears L q) (map (\<lambda>(E, P, q). q) ms)"
      "list_all (\<lambda>u. hd u \<noteq> ''TRANSITION'') (sent fx)" by auto
    then show ?thesis using e(2,3) x sent_simps(7) [of "[e]" "pg_perf E P ''dispatch.time.s'' # fx"]
      by (auto simp: m pg_dispatcher_reactor_def)
  qed
qed auto

lemma staged_simps [simp]:
  "staged [] = []" "staged (fx @ gx) = staged fx @ staged gx"
  "staged (inserter_queue E P u) = (if hd u = ''STATE'' \<and> length u = 6 then [[u ! 1, u ! 4, u ! 5, u ! 2]] else [])"
  by (auto simp: staged_def inserter_queue_def pg_insert_def pg_perf_def pg_count_def List.map_filter_simps map_filter_app)

text \<open>The last row of a state holds the status last heard.\<close>

lemma last_row:
  assumes "list_all (\<lambda>u. hd u \<noteq> ''TRANSITION'') us" "foldl hears Map.empty us k = Some c"
  shows "\<exists>msg ts. find (\<lambda>r. r ! 0 = k) (rev (staged (concat (map (inserter_queue E P) us)))) = Some [k, c, msg, ts]"
  using assms
proof (induction us rule: rev_induct)
  case (snoc u us)
  then show ?case by (auto simp: hears_def status_of_def split: if_splits)
qed simp

end
