(* ===== verification/Bolo_Track.thy ===== *)
theory Bolo_Track
  imports Bolo_Pg
begin

text \<open>
  What a subscriber can rely on about the statuses the kernel (\<open>src/src/core.c\<close>) broadcasts:
  a change of status is announced by a \<open>TRANSITION\<close>, and the status broadcast last is the one
  in the database.
\<close>

section \<open>What the kernel announces\<close>

definition told :: "effect list \<Rightarrow> pdu list" where
  "told fx = List.map_filter (\<lambda>e. case e of Broadcast q \<Rightarrow> Some q | _ \<Rightarrow> None) fx"

definition tracks :: "(string, state_t) fmap \<Rightarrow> (string \<rightharpoonup> string) \<Rightarrow> bool" where
  "tracks m L \<longleftrightarrow> (\<forall>k s. fmlookup m k = Some s \<longrightarrow> state_name s = k \<and> (\<forall>c. L k = Some c \<longrightarrow> c = statstr (state_status s)))"

text \<open>Effects without the status of a state, and tables that hold no new entry and no new status.\<close>

definition calm :: "effect \<Rightarrow> bool" where
  "calm e = (case e of Broadcast q \<Rightarrow> status_of q = None | _ \<Rightarrow> True)"

definition no_news :: "(string, state_t) fmap \<Rightarrow> (string, state_t) fmap \<Rightarrow> bool" where
  "no_news m m' \<longleftrightarrow> (\<forall>k s'. fmlookup m' k = Some s' \<longrightarrow>
     (\<exists>s. fmlookup m k = Some s \<and> state_name s' = state_name s \<and> state_status s' = state_status s))"

lemma no_news_refl [simp]: "no_news m m"
  by (auto simp: no_news_def)

lemma no_news_trans: "no_news a b \<Longrightarrow> no_news b c \<Longrightarrow> no_news a c"
  unfolding no_news_def by metis

lemma told_simps [simp]:
  "told [] = []" "told (fx @ gx) = told fx @ told gx" "told (Broadcast q # fx) = q # told fx"
  by (simp_all add: told_def List.map_filter_simps map_filter_app)

lemma calm_told: "list_all calm fx \<Longrightarrow> news L (told fx) \<and> foldl hears L (told fx) = L"
  by (induction fx arbitrary: L) (auto simp: told_def List.map_filter_simps calm_def hears_def status_of_def split: effect.splits if_splits)

lemma tracks_no_news: "tracks m L \<Longrightarrow> no_news m m' \<Longrightarrow> tracks m' L"
  unfolding tracks_def no_news_def by metis

lemma told_state:
  "status_of (''STATE'' # state_frames s) = Some (state_name s, statstr (state_status s))"
  "status_of (''TRANSITION'' # state_frames s) = Some (state_name s, statstr (state_status s))"
  by (simp_all add: status_of_def state_frames_def)

text \<open>An entry that changes its status announces a transition, and its status last.\<close>

lemma announce_tracks:
  assumes "tracks m L" "state_name s1 = k" "\<forall>c. L k = Some c \<longrightarrow> b \<or> c = statstr (state_status s1) \<or> statstr (state_status s1) \<noteq> ''OK''"
    and "fx = (if b then [broadcast_transition s1] else []) @ [broadcast_state s1]"
  shows "news L (told fx) \<and> tracks (fmupd k s1 m) (foldl hears L (told fx))"
proof -
  have "foldl hears L (told fx) = L(k \<mapsto> statstr (state_status s1))"
    by (auto simp: assms(2,4) hears_def told_state broadcast_state_def broadcast_transition_def)
  moreover have "news L (told fx)"
    using assms(3) by (auto simp: assms(4) hears_def status_of_def assms(2) broadcast_state_def broadcast_transition_def state_frames_def)
  ultimately show ?thesis using assms(1,2) by (auto simp: tracks_def)
qed

lemma freshen_tracks:
  assumes "tracks m L" "fmlookup m k = Some s" "freshen now k s = Inr (s', fx)"
  shows "news L (told fx) \<and> tracks (fmupd k s' m) (foldl hears L (told fx))"
proof (cases "fx = []")
  case True
  with assms have "s' = s" by (auto simp: freshen_def Let_def split: if_splits option.splits)
  with True assms(1,2) show ?thesis by (auto simp: tracks_def)
next
  case False
  let ?b = "state_stale s = 0 \<or> state_status s \<noteq> type_status (state_type s)"
  from False assms(3) have s': "fx = (if ?b then [broadcast_transition s'] else []) @ [broadcast_state s']"
    "state_name s' = state_name s" "state_status s' = type_status (state_type s)"
    by (auto simp: freshen_def Let_def split: if_splits option.splits)
  from assms(1,2) have "state_name s = k" "\<forall>c. L k = Some c \<longrightarrow> c = statstr (state_status s)" by (auto simp: tracks_def)
  then have "\<forall>c. L k = Some c \<longrightarrow> ?b \<or> c = statstr (state_status s') \<or> statstr (state_status s') \<noteq> ''OK''" "state_name s' = k" using s' by auto
  from announce_tracks [OF assms(1) this(2,1) s'(1)] show ?thesis .
qed

lemma freshen_walk_tracks:
  "tracks m L \<Longrightarrow> for_each (freshen now) ks m = Inr (m', fx) \<Longrightarrow> news L (told fx) \<and> tracks m' (foldl hears L (told fx))"
proof (induction ks arbitrary: m L fx)
  case (Cons k ks)
  show ?case
  proof (cases "fmlookup m k")
    case None
    with Cons show ?thesis by simp
  next
    case (Some s)
    with Cons.prems(2) obtain s' f1 f2 where f: "freshen now k s = Inr (s', f1)" "for_each (freshen now) ks (fmupd k s' m) = Inr (m', f2)"
      "fx = f1 @ f2" by (auto simp: bind_res_Inr_iff)
    from freshen_tracks [OF Cons.prems(1) Some f(1)] Cons.IH [OF _ f(2)] show ?thesis
      unfolding f(3) told_simps news_append foldl_append by blast
  qed
qed simp

lemma find_state_tracks:
  assumes "tracks (states d) L" "find_state E d n = (x, d1)"
  shows "(\<forall>s. x = Some s \<longrightarrow> state_ignore s \<noteq> 0) \<Longrightarrow> states d1 = states d"
    and "x = Some s \<Longrightarrow> state_name s = n \<and> fmupd n v (states d1) = fmupd n v (states d) \<and>
      (\<forall>c. L n = Some c \<longrightarrow> c = statstr (state_status s) \<or> state_stale s = 0 \<and> state_status s = PENDING)"
  using assms by (auto simp: find_state_def new_state_def tracks_def fmap_ext Let_def split: option.splits)

lemma listen_state_tracks:
  assumes "tracks (states (k_db K)) L" "listen_state E p K = Inr (K', fx)"
  shows "news L (told fx) \<and> tracks (states (k_db K')) (foldl hears L (told fx))"
proof -
  obtain x d1 where f: "find_state E (k_db K) (p ! 2) = (x, d1)" by fastforce
  note t = find_state_tracks [OF assms(1) f]
  show ?thesis
  proof (cases "p ! 2 \<noteq> [] \<and> p ! 4 \<noteq> [] \<and> (\<exists>s. x = Some s \<and> state_ignore s = 0)")
    case True
    then obtain s where s: "x = Some s" "state_ignore s = 0" by blast
    define code :: byte where "code = ucast (atoi (p ! 3))"
    define s1 where "s1 = fst (state_update (ucast (strtoul (p ! 1))) code (p ! 4) s)"
    let ?b = "state_stale s \<noteq> 0 \<or> state_status s \<noteq> code"
    have K': "states (k_db K') = fmupd (p ! 2) s1 (states d1)" "fx = (if ?b then [broadcast_transition s1] else []) @ [broadcast_state s1]"
      using assms(2) True f s by (auto simp: listen_state_def state_update_def Let_def s1_def code_def)
    have s1: "state_name s1 = state_name s" "state_status s1 = code" by (simp_all add: s1_def state_update_def Let_def)
    have "statstr PENDING \<noteq> ''OK''" by (simp add: statstr_def)
    then have "\<forall>c. L (p ! 2) = Some c \<longrightarrow> ?b \<or> c = statstr (state_status s1) \<or> statstr (state_status s1) \<noteq> ''OK''"
      using t(2) [OF s(1)] s1(2) by auto
    from announce_tracks [OF assms(1) _ this K'(2)] t(2) [OF s(1)] s1(1) K'(1) show ?thesis by simp
  next
    case False
    then have "fx = [] \<and> (K' = K \<or> K' = set_db d1 K \<and> (\<forall>s. x = Some s \<longrightarrow> state_ignore s \<noteq> 0))"
      using assms(2) f by (auto simp: listen_state_def Let_def split: if_splits option.splits)
    with t(1) assms(1) show ?thesis by auto
  qed
qed

lemma calm_simps [simp]:
  "calm (Beacon p)" "calm (Reply p)" "calm (SaveDb f d n)" "calm (SyncDb f)" "calm (SaveKeys f d)" "calm (broadcast_event ev)"
  by (simp_all add: calm_def status_of_def broadcast_event_def)

lemma calm_metrics:
  "broadcast_counter c = Inr e \<Longrightarrow> calm e" "broadcast_sample E m = Inr e \<Longrightarrow> calm e" "broadcast_rate E r = Inr e \<Longrightarrow> calm e"
  by (auto simp: calm_def status_of_def broadcast_counter_def broadcast_sample_def broadcast_rate_def Let_def bind_res_Inr_iff)

lemma calm_updates:
  "counter_update ts x c = Inr (c', fx) \<Longrightarrow> list_all calm fx"
  "sample_update E ts vs m = Inr (m', fx) \<Longrightarrow> list_all calm fx"
  "rate_update E ts v r = Inr (r', fx) \<Longrightarrow> list_all calm fx"
  by (auto simp: counter_update_def sample_update_def rate_update_def Let_def bind_res_Inr_iff dest: calm_metrics split: if_splits)

lemma calm_ticks:
  "tick_counter ts k c = Inr (c', fx) \<Longrightarrow> list_all calm fx" "tick_sample E ts k m = Inr (m', fx) \<Longrightarrow> list_all calm fx"
  "tick_rate E ts k r = Inr (r', fx) \<Longrightarrow> list_all calm fx"
  by (auto simp: tick_counter_def tick_sample_def tick_rate_def Let_def bind_res_Inr_iff dest: calm_metrics split: if_splits)

lemma calm_walks:
  "for_each (tick_counter ts) ks mc = Inr (mc', fx) \<Longrightarrow> list_all calm fx"
  "for_each (tick_sample E ts) ks ms = Inr (ms', fx) \<Longrightarrow> list_all calm fx"
  "for_each (tick_rate E ts) ks mr = Inr (mr', fx) \<Longrightarrow> list_all calm fx"
  by (erule for_each_output [rotated], erule calm_ticks)+

lemma calm_setkeys: "hd p = ''SET.KEYS'' \<Longrightarrow> p \<noteq> [] \<Longrightarrow> list_all calm (setkeys_loop kvs p n)"
  by (induction kvs p n rule: setkeys_loop.induct) (auto simp: calm_def status_of_def)

lemma calm_files: "write_db E S = Inr fx \<Longrightarrow> list_all calm fx" "list_all calm (write_keys E S)" "list_all calm (broadcast_setkeys E K)"
  by (auto simp: write_db_def write_keys_def save_keys_def broadcast_setkeys_def Let_def calm_setkeys bind_res_Inr_iff split: option.splits)

text \<open>Everything but a state submission and the freshness check is no news about states.\<close>

definition uneventful :: "kernel_t \<Rightarrow> kernel_t \<Rightarrow> effect list \<Rightarrow> bool" where
  "uneventful K K' fx \<longleftrightarrow> list_all calm fx \<and> no_news (states (k_db K)) (states (k_db K'))"

lemma uneventful_refl [simp]: "uneventful K K []"
  by (simp add: uneventful_def)

lemma uneventful_tracks:
  "tracks (states (k_db K)) L \<Longrightarrow> uneventful K K' fx \<Longrightarrow> news L (told fx) \<and> tracks (states (k_db K')) (foldl hears L (told fx))"
  using calm_told tracks_no_news by (auto simp: uneventful_def)

lemma uneventful_steps:
  "tick_step E K = Inr (K', fx) \<Longrightarrow> uneventful K K' fx" "sweep_step E K = (K', fx) \<Longrightarrow> uneventful K K' fx"
  "savestate_step E K = Inr (K', fx) \<Longrightarrow> uneventful K K' fx"
  by (auto simp: tick_step_def sweep_step_def savestate_step_def beacon_sweep_def tick_windows_def uneventful_def calm_files(2,3)
    bind_res_Inr_iff dest: calm_walks calm_files(1) split: if_splits)

lemma forget_table_no_news:
  assumes "\<And>s. state_name (mark s) = state_name s \<and> state_status (mark s) = state_status s"
  shows "no_news m (forget_table E h pattern ign mark m)"
proof -
  have 1: "no_news m (foldl (\<lambda>m k. case fmlookup m k of None \<Rightarrow> m | Some v \<Rightarrow> if P k then fmupd k (mark v) m else m) m ks)" for P ks
  proof (induction ks arbitrary: m)
    case (Cons k ks)
    have "no_news m (case fmlookup m k of None \<Rightarrow> m | Some v \<Rightarrow> if P k then fmupd k (mark v) m else m)"
      using assms by (auto simp: no_news_def split: option.splits)
    from no_news_trans [OF this Cons] show ?case by simp
  qed simp
  have 2: "no_news m (foldl (\<lambda>m k. if P k then fmdrop k m else m) m ks)" for P ks
  proof (induction ks arbitrary: m)
    case (Cons k ks)
    have "no_news m (if P k then fmdrop k m else m)" by (auto simp: no_news_def split: if_splits)
    from no_news_trans [OF this Cons] show ?case by simp
  qed simp
  from 1 2 show ?thesis by (auto simp: forget_table_def Let_def)
qed

lemma uneventful_mgmt:
  "mgmt_state p K = (K', fx) \<Longrightarrow> uneventful K K' fx" "mgmt_dump E K = Inr (K', fx) \<Longrightarrow> uneventful K K' fx"
  "mgmt_get_keys p K = (K', fx) \<Longrightarrow> uneventful K K' fx" "mgmt_del_keys p K = (K', fx) \<Longrightarrow> uneventful K K' fx"
  "mgmt_search_keys E p K = (K', fx) \<Longrightarrow> uneventful K K' fx" "mgmt_get_events E p K = Inr (K', fx) \<Longrightarrow> uneventful K K' fx"
  "mgmt_savestate E K = Inr (K', fx) \<Longrightarrow> uneventful K K' fx" "mgmt_forget E p K = (K', fx) \<Longrightarrow> uneventful K K' fx"
  by (auto simp: mgmt_state_def mgmt_dump_def mgmt_get_keys_def mgmt_del_keys_def mgmt_search_keys_def uneventful_def
    mgmt_get_events_def mgmt_savestate_def mgmt_forget_def forget_def forget_table_no_news calm_files(2,3) sync_db_def Let_def
    bind_res_Inr_iff dest: calm_files(1) split: if_splits option.splits)

lemma uneventful_management: "management E p K = Inr (K', fx) \<Longrightarrow> uneventful K K' fx"
  unfolding management_def by (auto dest: uneventful_mgmt split: if_splits)

lemma find_states:
  "find_counter E d n = (x, d') \<Longrightarrow> states d' = states d" "find_sample E d n = (y, d') \<Longrightarrow> states d' = states d"
  "find_rate E d n = (z, d') \<Longrightarrow> states d' = states d" "buffer_event d ev mx kp = Inr d' \<Longrightarrow> states d' = states d"
  by (auto simp: find_counter_def find_sample_def find_rate_def buffer_event_def Let_def bind_res_Inr_iff split: option.splits if_splits)

lemma uneventful_listen:
  "listen_counter E p K = Inr (K', fx) \<Longrightarrow> uneventful K K' fx" "listen_sample E p K = Inr (K', fx) \<Longrightarrow> uneventful K K' fx"
  "listen_rate E p K = Inr (K', fx) \<Longrightarrow> uneventful K K' fx" "listen_event p K = Inr (K', fx) \<Longrightarrow> uneventful K K' fx"
  "listen_set_keys p K = (K', fx) \<Longrightarrow> uneventful K K' fx"
  by (auto simp: listen_counter_def listen_sample_def listen_rate_def listen_event_def listen_set_keys_def uneventful_def
    Let_def bind_res_Inr_iff dest: calm_updates find_states split: if_splits option.splits prod.splits)

lemma listener_tracks:
  assumes "tracks (states (k_db K)) L" "listener E p K = Inr (K', fx)"
  shows "news L (told fx) \<and> tracks (states (k_db K')) (foldl hears L (told fx))"
  using assms unfolding listener_def
  by (auto split: if_splits dest: listen_state_tracks [OF assms(1)] uneventful_listen [THEN uneventful_tracks [OF assms(1)]])

lemma tock_tracks:
  assumes "tracks (states (k_db K)) L" "tock E K = Inr (K', fx)"
  shows "news L (told fx) \<and> tracks (states (k_db K')) (foldl hears L (told fx))"
proof -
  from assms obtain K1 f1 where 1: "tick_step E K = Inr (K1, f1)" by (auto simp: tock_def bind_res_Inr_iff)
  obtain K2 f2 where 2: "sweep_step E K1 = (K2, f2)" by fastforce
  from assms 1 2 obtain K3 f3 f4 where 3: "freshness_step E K2 = Inr (K3, f3)" and 4: "savestate_step E K3 = Inr (K', f4)"
    and fx: "fx = f1 @ f2 @ f3 @ f4" by (auto simp: tock_def bind_res_Inr_iff Let_def)
  note t1 = uneventful_tracks [OF assms(1) uneventful_steps(1) [OF 1]]
  note t2 = uneventful_tracks [OF conjunct2 [OF t1] uneventful_steps(2) [OF 2]]
  have t3: "news L (told f3) \<and> tracks (states (k_db K3)) (foldl hears L (told f3))" if "tracks (states (k_db K2)) L" for L
    using 3 that freshen_walk_tracks [OF that] by (auto simp: freshness_step_def check_freshness_def bind_res_Inr_iff split: if_splits)
  note t3 = t3 [OF conjunct2 [OF t2]]
  note t4 = uneventful_tracks [OF conjunct2 [OF t3] uneventful_steps(3) [OF 4]]
  from t1 t2 t3 t4 show ?thesis by (simp add: fx news_append)
qed

lemma kernel_tracks:
  assumes "tracks (states (k_db K)) L" "kernel_reactor E sock p K = Inr (v, K', fx)"
  shows "news L (told fx) \<and> tracks (states (k_db K')) (foldl hears L (told fx))"
  using assms listener_tracks [OF assms(1)] tock_tracks [OF assms(1)] uneventful_tracks [OF assms(1) uneventful_management]
  by (auto simp: kernel_reactor_def bind_res_Inr_iff split: socket.splits)

lemma kernel_thread_tracks:
  "tracks (states (k_db K)) L \<Longrightarrow> kernel_thread ms K = Inr (v, K', fx) \<Longrightarrow>
    news L (told fx) \<and> tracks (states (k_db K')) (foldl hears L (told fx))"
proof (induction ms arbitrary: K L fx)
  case (Cons m ms)
  obtain E sock p where m: "m = (E, sock, p)" by (cases m) auto
  from Cons.prems(2) obtain v1 K1 f1 where 1: "kernel_reactor E sock p K = Inr (v1, K1, f1)" by (auto simp: m bind_res_Inr_iff)
  note t = kernel_tracks [OF Cons.prems(1) 1]
  show ?case
  proof (cases "v1 = HALT")
    case True
    with Cons.prems(2) 1 t show ?thesis by (auto simp: m)
  next
    case False
    with Cons.prems(2) 1 obtain f2 where "kernel_thread ms K1 = Inr (v, K', f2)" "fx = f1 @ f2" by (auto simp: m bind_res_Inr_iff)
    with t Cons.IH [of K1 "foldl hears L (told f1)" f2] show ?thesis by (simp add: news_append)
  qed
qed simp

lemma demo_state_submission:
  "\<exists>K' s'. kernel_thread [(plain_env, S_listener, [''STATE'', dec 90, ''s'', dec 2, ''disk full''])] (blank_kernel demo_server) =
      Inr (CONTINUE, K', [broadcast_transition s', broadcast_state s']) \<and>
    fmlookup (states (k_db K')) ''s'' = Some s' \<and> state_name s' = ''s'' \<and> state_status s' = 2"
proof -
  obtain s where s: "fmlookup (states (k_db (blank_kernel demo_server))) ''s'' = Some s"
    "state_ignore s = 0" "state_stale s = 0" "state_status s = 0" "state_name s = ''s''" by (simp add: demo_db_def)
  define s' where "s' = s\<lparr>state_status := of_nat 2, state_summary := ''disk full'', state_last_seen := of_nat 90,
     state_expiry := of_nat 90 + ucast (freshness (state_type s)), state_stale := 0\<rparr>"
  from known_state_submission [OF s(1,2), where t = 90 and code = 2 and msg = "''disk full''" and E = plain_env, OF _ _ _ _ s'_def] s
  show ?thesis by (intro exI [of _ s'] exI conjI) (auto simp: s'_def)
qed

end
