(* ===== verification/Bolo_Outputs.thy ===== *)
theory Bolo_Outputs
  imports Bolo_Track
begin

text \<open>
  The small subscribers: \<open>bolo2log\<close>, \<open>bolo2meta\<close>, \<open>bolo2redis\<close>, \<open>bolo2influxdb\<close> and
  \<open>bolo2sqlite\<close> (\<open>src/src/bolo2*/main.c\<close>). The Redis server and the SQLite library are
  parameters; what the SQL statements of the program say is modelled. Sockets and threads
  are given by what their calls return; log texts and help texts are left out.
\<close>

section \<open>bolo2log\<close>

datatype log_type = TYPE_SYSLOG | TYPE_FILE

record log_options =
  lo_endpoint :: string
  lo_verbose :: "32 word"
  lo_daemonize :: bool
  lo_type :: log_type
  lo_logfile :: string
  lo_facility :: string
  lo_ident :: string
  lo_level :: string
  lo_match :: string
  lo_pidfile :: string
  lo_user :: string
  lo_group :: string
  lo_all :: bool
  lo_reopen :: bool
  lo_logfd :: bool

definition log_defaults :: log_options where
  "log_defaults = \<lparr>lo_endpoint = ''tcp://127.0.0.1:2997'', lo_verbose = 0, lo_daemonize = True, lo_type = TYPE_SYSLOG,
     lo_logfile = [], lo_facility = ''daemon'', lo_ident = ''bolo2log'', lo_level = ''alert'', lo_match = ''.'',
     lo_pidfile = ''/var/run/bolo2log..pid'', lo_user = ''root'', lo_group = ''root'', lo_all = False,
     lo_reopen = False, lo_logfd = False\<rparr>"

text \<open>\<open>log_level_number\<close> is not applied: the level is kept as the text that was given.\<close>

fun log_getopt :: "(char \<times> string) list \<Rightarrow> log_options \<Rightarrow> int + log_options" where
  "log_getopt [] opt = Inr opt"
| "log_getopt ((c, optarg) # os) opt =
     (if c = CHR ''h'' \<or> c = CHR 0x3F \<or> c = CHR ''V'' then Inl 0
      else if c = CHR ''v'' then log_getopt os (opt\<lparr>lo_verbose := lo_verbose opt + 1\<rparr>)
      else if c = CHR ''e'' then log_getopt os (opt\<lparr>lo_endpoint := optarg\<rparr>)
      else if c = CHR ''F'' then log_getopt os (opt\<lparr>lo_daemonize := False\<rparr>)
      else if c = CHR ''p'' then log_getopt os (opt\<lparr>lo_pidfile := optarg\<rparr>)
      else if c = CHR ''u'' then log_getopt os (opt\<lparr>lo_user := optarg\<rparr>)
      else if c = CHR ''g'' then log_getopt os (opt\<lparr>lo_group := optarg\<rparr>)
      else if c = CHR ''L'' then log_getopt os (opt\<lparr>lo_logfile := optarg, lo_type := TYPE_FILE\<rparr>)
      else if c = CHR ''S'' then log_getopt os (opt\<lparr>lo_facility := optarg, lo_type := TYPE_SYSLOG\<rparr>)
      else if c = CHR ''m'' then log_getopt os (opt\<lparr>lo_match := optarg\<rparr>)
      else if c = CHR ''I'' then log_getopt os (opt\<lparr>lo_ident := optarg, lo_type := TYPE_SYSLOG\<rparr>)
      else if c = CHR ''l'' then log_getopt os (opt\<lparr>lo_level := optarg, lo_type := TYPE_SYSLOG\<rparr>)
      else if c = CHR ''A'' then log_getopt os (opt\<lparr>lo_all := True\<rparr>)
      else Inl 1)"

datatype log_line = Syslog string | File_line string

text \<open>
  After \<open>SIGHUP\<close> the file is closed and opened again; when that fails the stream is a null
  pointer, which the next call passes to \<open>fclose\<close>.
\<close>

definition log_reopen :: "env \<Rightarrow> log_options \<Rightarrow> (bool \<times> log_options) res" where
  "log_reopen E opt =
     (if lo_reopen opt \<and> lo_type opt = TYPE_FILE then
        if \<not> lo_logfd opt then Inl NullDeref
        else if sys_ok E Sys_fopen (lo_logfile opt) then Inr (True, opt\<lparr>lo_reopen := False\<rparr>)
        else Inr (False, opt\<lparr>lo_logfd := False\<rparr>)
      else Inr (True, opt))"

definition log_text :: "log_type \<Rightarrow> pdu \<Rightarrow> log_line" where
  "log_text type p =
     (if type = TYPE_SYSLOG then Syslog (hd p @ '': '' @ p ! 2 @ '' '' @ p ! 3 @ '' '' @ p ! 1 @ '' '' @ p ! 4 @ '' '' @ p ! 5)
      else File_line (''['' @ p ! 2 @ ''] '' @ hd p @ '': '' @ p ! 3 @ '' '' @ p ! 1 @ '' '' @ p ! 4 @ '' '' @ p ! 5 @ [CHR 10]))"

definition s_log :: "env \<Rightarrow> pdu \<Rightarrow> log_options \<Rightarrow> (log_options \<times> log_line list) res" where
  "s_log E p opt =
     bind_res (log_reopen E opt) (\<lambda>(ok, opt).
       Inr (opt, if ok \<and> pcre_exec E (lo_match opt) (p ! 1) = 0 then [log_text (lo_type opt) p] else []))"

definition sighup_handler :: "log_options \<Rightarrow> log_options" where
  "sighup_handler opt = opt\<lparr>lo_reopen := True\<rparr>"

definition log_pdu :: "env \<Rightarrow> pdu \<Rightarrow> log_options \<Rightarrow> (log_options \<times> log_line list) res" where
  "log_pdu E p opt =
     (if lo_all opt \<and> hd p = ''STATE'' \<and> length p = 6 then s_log E p opt
      else if hd p = ''TRANSITION'' \<and> length p = 6 then s_log E p opt
      else Inr (opt, []))"

text \<open>The main loop: PDUs, and whether \<open>SIGHUP\<close> came before each.\<close>

fun log_loop :: "(env \<times> bool \<times> pdu) list \<Rightarrow> log_options \<Rightarrow> (log_options \<times> log_line list) res" where
  "log_loop [] opt = Inr (opt, [])"
| "log_loop ((E, hup, p) # ms) opt =
     bind_res (log_pdu E p (if hup then sighup_handler opt else opt)) (\<lambda>(opt, fx).
     bind_res (log_loop ms opt) (\<lambda>(opt, gx). Inr (opt, fx @ gx)))"

text \<open>The socket of the subscribers without threads; every failure gives exit code 3.\<close>

definition plain_socket :: "env \<Rightarrow> string \<Rightarrow> int" where
  "plain_socket E endpoint =
     (if \<not> sys_ok E Sys_zmq_ctx [] \<or> \<not> sys_ok E Sys_socket endpoint \<or> sys_rc E Sys_setsockopt endpoint \<noteq> 0 \<or>
        sys_rc E Sys_connect endpoint \<noteq> 0 then 3 else 0)"

definition bolo2log_main :: "env \<Rightarrow> (char \<times> string) list \<Rightarrow> (env \<times> bool \<times> pdu) list \<Rightarrow> (int \<times> log_line list) res" where
  "bolo2log_main E os ms =
     (case log_getopt os log_defaults of
        Inl rc \<Rightarrow> Inr (rc, [])
      | Inr opt \<Rightarrow>
          if lo_daemonize opt \<and> sys_rc E Sys_daemonize (lo_pidfile opt) \<noteq> 0 then Inr (3, [])
          else if \<not> sys_ok E Sys_signal [] then Inr (1, [])
          else if lo_type opt = TYPE_FILE \<and> \<not> sys_ok E Sys_fopen (lo_logfile opt) then Inr (1, [])
          else if pcre_compile E (lo_match opt) \<noteq> None then Inr (1, [])
          else if plain_socket E (lo_endpoint opt) \<noteq> 0 then Inr (plain_socket E (lo_endpoint opt), [])
          else bind_res (log_loop ms (opt\<lparr>lo_logfd := lo_type opt = TYPE_FILE\<rparr>)) (\<lambda>(opt, fx). Inr (0, fx)))"

section \<open>bolo2meta\<close>

definition meta_metric :: "pdu \<Rightarrow> string" where
  "meta_metric p =
     (if hd p = ''COUNTER'' then if length p = 4 then ''counter'' else ''bogon.counter''
      else if hd p = ''SAMPLE'' then if length p = 9 then ''sample'' else ''bogon.sample''
      else if hd p = ''RATE'' then if length p = 5 then ''rate'' else ''bogon.rate''
      else if hd p = ''STATE'' then if length p = 6 then ''state'' else ''bogon.state''
      else if hd p = ''TRANSITION'' then if length p = 6 then ''transition'' else ''bogon.transition''
      else if hd p = ''EVENT'' then if length p = 4 then ''event'' else ''bogon.event''
      else if hd p = ''SET.KEYS'' then if length p mod 2 = 1 \<and> 3 \<le> length p then ''setkeys'' else ''bogon.setkeys''
      else ''bogon.unknown'')"

datatype meta_socket = Me_control | Me_subscriber | Me_other

definition meta_reactor :: "meta_socket \<Rightarrow> pdu \<Rightarrow> verdict \<times> pdu list" where
  "meta_reactor sock p =
     (case sock of
        Me_control \<Rightarrow> (HALT, [])
      | Me_subscriber \<Rightarrow> (CONTINUE, [[''COUNT'', meta_metric p], [''COUNT'', ''total'']])
      | Me_other \<Rightarrow> (HALT, []))"

fun meta_loop :: "(meta_socket \<times> pdu) list \<Rightarrow> verdict \<times> pdu list" where
  "meta_loop [] = (CONTINUE, [])"
| "meta_loop ((sock, p) # ms) =
     (let (v, fx) = meta_reactor sock p
      in if v = HALT then (HALT, fx) else let (v, gx) = meta_loop ms in (v, fx @ gx))"

definition meta_dispatcher_thread :: "env \<Rightarrow> string \<Rightarrow> int" where
  "meta_dispatcher_thread E endpoint = first_failure
     [bolo_subscriber_connect_supervisor E, bolo_subscriber_connect_monitor E,
      if \<not> sys_ok E Sys_socket endpoint then - 1 else sys_rc E Sys_setsockopt endpoint, sys_rc E Sys_connect endpoint,
      if sys_ok E Sys_reactor_new [] then 0 else - 1, sys_rc E Sys_reactor_set ''control'',
      sys_rc E Sys_reactor_set ''subscriber'', sys_rc E Sys_thread ''dispatcher'']"

record meta_options =
  me_endpoint :: string
  me_verbose :: "32 word"
  me_daemonize :: bool
  me_pidfile :: string
  me_user :: string
  me_group :: string
  me_submit_to :: string
  me_prefix :: "string option"

definition meta_defaults :: meta_options where
  "meta_defaults = \<lparr>me_endpoint = ''tcp://127.0.0.1:2997'', me_verbose = 0, me_daemonize = True,
     me_pidfile = ''/var/run/bolo2meta.pid'', me_user = ''root'', me_group = ''root'',
     me_submit_to = ''tcp://127.0.0.1:2999'', me_prefix = None\<rparr>"

fun meta_getopt :: "(char \<times> string) list \<Rightarrow> meta_options \<Rightarrow> int + meta_options" where
  "meta_getopt [] opt = Inr opt"
| "meta_getopt ((c, optarg) # os) opt =
     (if c = CHR ''h'' \<or> c = CHR 0x3F \<or> c = CHR ''V'' then Inl 0
      else if c = CHR ''v'' then meta_getopt os (opt\<lparr>me_verbose := me_verbose opt + 1\<rparr>)
      else if c = CHR ''e'' then meta_getopt os (opt\<lparr>me_endpoint := optarg\<rparr>)
      else if c = CHR ''F'' then meta_getopt os (opt\<lparr>me_daemonize := False\<rparr>)
      else if c = CHR ''p'' then meta_getopt os (opt\<lparr>me_pidfile := optarg\<rparr>)
      else if c = CHR ''u'' then meta_getopt os (opt\<lparr>me_user := optarg\<rparr>)
      else if c = CHR ''g'' then meta_getopt os (opt\<lparr>me_group := optarg\<rparr>)
      else if c = CHR ''S'' then meta_getopt os (opt\<lparr>me_submit_to := optarg\<rparr>)
      else if c = CHR ''P'' then meta_getopt os (opt\<lparr>me_prefix := Some optarg\<rparr>)
      else Inl 1)"

definition meta_metrics :: "(string \<times> string) list" where
  "meta_metrics = map (Pair ''COUNT'') [''counter'', ''bogon.counter'', ''sample'', ''bogon.sample'', ''rate'', ''bogon.rate'',
     ''state'', ''bogon.state'', ''transition'', ''bogon.transition'', ''event'', ''bogon.event'', ''bogon.unknown'']"

text \<open>The exit code, the monitor that runs and the metrics it was told about.\<close>

definition bolo2meta_main ::
  "env \<Rightarrow> string \<Rightarrow> (char \<times> string) list \<Rightarrow> bool list \<Rightarrow> (int \<times> signal) list \<Rightarrow> int \<times> (monitor_t option \<times> pdu list) option" where
  "bolo2meta_main E host os sends sigs =
     (case meta_getopt os meta_defaults of
        Inl rc \<Rightarrow> (rc, None)
      | Inr opt \<Rightarrow>
          let prefix = (case me_prefix opt of None \<Rightarrow> host @ '':sys:bolo'' | Some p \<Rightarrow> p);
              (rc, mon) = bolo_subscriber_monitor_thread E prefix (me_submit_to opt)
          in if me_daemonize opt \<and> sys_rc E Sys_daemonize (me_pidfile opt) \<noteq> 0 then (3, None)
             else if \<not> sys_ok E Sys_zmq_ctx [] then (1, None)
             else if bolo_subscriber_init E \<noteq> 0 then (2, None)
             else if rc \<noteq> 0 then (2, None)
             else if bolo_subscriber_scheduler_thread E \<noteq> 0 then (2, None)
             else let (_, announced) = bolo_subscriber_metrics E sends meta_metrics in
               if meta_dispatcher_thread E (me_endpoint opt) \<noteq> 0 then (2, None)
               else let _ = bolo_subscriber_supervisor E sigs in (0, Some (mon, announced)))"

section \<open>bolo2redis\<close>

text \<open>The answer of the server to a \<open>SET\<close>; without a connection the client library returns no answer.\<close>

datatype redis_reply = Reply_ok | Reply_error | No_reply

record redis_options =
  re_endpoint :: string
  re_verbose :: "32 word"
  re_daemonize :: bool
  re_host :: string
  re_port :: "32 word"
  re_pidfile :: string
  re_user :: string
  re_group :: string

definition redis_defaults :: redis_options where
  "redis_defaults = \<lparr>re_endpoint = ''tcp://127.0.0.1:2997'', re_verbose = 0, re_daemonize = True, re_host = ''127.0.0.1'',
     re_port = 6379, re_pidfile = ''/var/run/bolo2redis.pid'', re_user = ''root'', re_group = ''root''\<rparr>"

fun redis_getopt :: "(char \<times> string) list \<Rightarrow> redis_options \<Rightarrow> int + redis_options" where
  "redis_getopt [] opt = Inr opt"
| "redis_getopt ((c, optarg) # os) opt =
     (if c = CHR ''h'' \<or> c = CHR 0x3F \<or> c = CHR ''V'' then Inl 0
      else if c = CHR ''v'' then redis_getopt os (opt\<lparr>re_verbose := re_verbose opt + 1\<rparr>)
      else if c = CHR ''e'' then redis_getopt os (opt\<lparr>re_endpoint := optarg\<rparr>)
      else if c = CHR ''F'' then redis_getopt os (opt\<lparr>re_daemonize := False\<rparr>)
      else if c = CHR ''p'' then redis_getopt os (opt\<lparr>re_pidfile := optarg\<rparr>)
      else if c = CHR ''u'' then redis_getopt os (opt\<lparr>re_user := optarg\<rparr>)
      else if c = CHR ''g'' then redis_getopt os (opt\<lparr>re_group := optarg\<rparr>)
      else if c = CHR ''H'' then redis_getopt os (opt\<lparr>re_host := optarg\<rparr>)
      else if c = CHR ''P'' then redis_getopt os (opt\<lparr>re_port := atoi optarg\<rparr>)
      else Inl 1)"

text \<open>The commands sent for the pairs of one PDU, in order.\<close>

fun redis_pairs :: "(string \<Rightarrow> string \<Rightarrow> redis_reply) \<Rightarrow> string list \<Rightarrow> (string \<times> string) list res" where
  "redis_pairs R (k # v # rest) =
     (if R k v = No_reply then Inl NullDeref else bind_res (redis_pairs R rest) (\<lambda>cs. Inr ((k, v) # cs)))"
| "redis_pairs R _ = Inr []"

definition redis_pdu :: "(string \<Rightarrow> string \<Rightarrow> redis_reply) \<Rightarrow> pdu \<Rightarrow> (string \<times> string) list res" where
  "redis_pdu R p = (if hd p = ''SET.KEYS'' \<and> length p mod 2 = 1 then redis_pairs R (tl p) else Inr [])"

fun redis_loop :: "(string \<Rightarrow> string \<Rightarrow> redis_reply) \<Rightarrow> pdu list \<Rightarrow> (string \<times> string) list res" where
  "redis_loop R [] = Inr []"
| "redis_loop R (p # ps) = bind_res (redis_pdu R p) (\<lambda>cs. bind_res (redis_loop R ps) (\<lambda>ds. Inr (cs @ ds)))"

text \<open>Connecting to Redis gives nothing, an error or a connection; only the error ends the program.\<close>

definition bolo2redis_main ::
  "env \<Rightarrow> (string \<Rightarrow> 32 word \<Rightarrow> bool option) \<Rightarrow> (string \<Rightarrow> string \<Rightarrow> redis_reply) \<Rightarrow> (char \<times> string) list \<Rightarrow> pdu list
    \<Rightarrow> (int \<times> (string \<times> string) list) res" where
  "bolo2redis_main E connect R os ps =
     (case redis_getopt os redis_defaults of
        Inl rc \<Rightarrow> Inr (rc, [])
      | Inr opt \<Rightarrow>
          if re_daemonize opt \<and> sys_rc E Sys_daemonize (re_pidfile opt) \<noteq> 0 then Inr (3, [])
          else if plain_socket E (re_endpoint opt) \<noteq> 0 then Inr (plain_socket E (re_endpoint opt), [])
          else case connect (re_host opt) (re_port opt) of
              Some False \<Rightarrow> Inr (3, [])
            | Some True \<Rightarrow> bind_res (redis_loop R ps) (\<lambda>cs. Inr (0, cs))
            | None \<Rightarrow> bind_res (redis_loop (\<lambda>k v. No_reply) ps) (\<lambda>cs. Inr (0, cs)))"

section \<open>bolo2influxdb\<close>

text \<open>
  A name is \<open>host:type:metric\<close> or \<open>host:type:item:metric\<close>, where the item may hold more
  colons.
\<close>

record influx_name =
  in_host :: string
  in_type :: string
  in_item :: "string option"
  in_metric :: string

definition influx_parse :: "string \<Rightarrow> influx_name option" where
  "influx_parse name =
     (case cut_first (CHR '':'') name of
        None \<Rightarrow> None
      | Some (host, r) \<Rightarrow>
          (case cut_first (CHR '':'') r of
             None \<Rightarrow> None
           | Some (type, r) \<Rightarrow>
               Some (case cut_last (CHR '':'') r of
                  None \<Rightarrow> \<lparr>in_host = host, in_type = type, in_item = None, in_metric = r\<rparr>
                | Some (item, metric) \<Rightarrow> \<lparr>in_host = host, in_type = type, in_item = Some item, in_metric = metric\<rparr>)))"

definition influx_fields :: "pdu \<Rightarrow> string" where
  "influx_fields p =
     (if hd p = ''SAMPLE'' then ''n='' @ p ! 3 @ '',min='' @ p ! 4 @ '',max='' @ p ! 5 @ '',sum='' @ p ! 6 @ '',mean='' @ p ! 7 @ '',var='' @ p ! 8
      else if hd p = ''COUNTER'' then ''value='' @ p ! 3
      else ''window='' @ p ! 3 @ '',value='' @ p ! 4)"

definition influx_line :: "influx_name \<Rightarrow> pdu \<Rightarrow> string" where
  "influx_line n p = in_metric n @ '',host='' @ in_host n @ '',type='' @ in_type n @
     (case in_item n of None \<Rightarrow> [] | Some item \<Rightarrow> '',item='' @ item) @ '' '' @ influx_fields p @ '' '' @ p ! 1 @ ''000000000'' @ [CHR 10]"

datatype influx_effect = Udp string | Influx_monitor pdu

text \<open>
  \<open>send\<close> is given the length \<open>snprintf\<close> asks for, so a line that does not fit into the
  packet is read beyond its end. A name of another pattern is dropped without a measurement.
\<close>

definition influx_subscriber :: "env \<Rightarrow> real \<Rightarrow> pdu \<Rightarrow> influx_effect list res" where
  "influx_subscriber E secs p =
     (if \<not> is_metric p then Inr []
      else case influx_parse (p ! 2) of
          None \<Rightarrow> Inr []
        | Some n \<Rightarrow>
            if 65536 < length (influx_line n p) then Inl OutOfBounds
            else Inr [Udp (if length (influx_line n p) = 65536 then take 65535 (influx_line n p) @ [NUL] else influx_line n p),
              Influx_monitor [''SAMPLE'', ''dispatch.time.s'', fmt_lf E secs]])"

definition influx_reactor :: "env \<Rightarrow> real \<Rightarrow> rrd_socket \<Rightarrow> pdu \<Rightarrow> (verdict \<times> influx_effect list) res" where
  "influx_reactor E secs sock p =
     (case sock of
        Rd_control \<Rightarrow> Inr (if hd p = ''TERMINATE'' then HALT else CONTINUE, [])
      | Rd_tock \<Rightarrow> Inr (CONTINUE, [])
      | Rd_subscriber \<Rightarrow> bind_res (influx_subscriber E secs p) (\<lambda>fx. Inr (CONTINUE, fx))
      | Rd_other \<Rightarrow> Inr (HALT, []))"

fun influx_loop :: "(env \<times> real \<times> rrd_socket \<times> pdu) list \<Rightarrow> (verdict \<times> influx_effect list) res" where
  "influx_loop [] = Inr (CONTINUE, [])"
| "influx_loop ((E, secs, sock, p) # ms) =
     bind_res (influx_reactor E secs sock p) (\<lambda>(v, fx).
       if v = HALT then Inr (HALT, fx) else bind_res (influx_loop ms) (\<lambda>(v, gx). Inr (v, fx @ gx)))"

text \<open>
  The address of the server; without a colon the port is what the variable happened to
  hold, \<open>junk\<close>.
\<close>

definition influx_address :: "32 word \<Rightarrow> string \<Rightarrow> (string \<times> 32 word) option" where
  "influx_address junk influx =
     (case cut_first (CHR '':'') influx of
        None \<Rightarrow> Some (influx, junk)
      | Some (host, p) \<Rightarrow>
          let port = atoi p in if sint port \<le> 0 \<or> 65535 < sint port then None else Some (host, port))"

definition influx_dispatcher_thread :: "env \<Rightarrow> 32 word \<Rightarrow> string \<Rightarrow> string \<Rightarrow> int" where
  "influx_dispatcher_thread E junk endpoint influx =
     (if \<not> sys_ok E Sys_socket ''udp'' then 1
      else case influx_address junk influx of
          None \<Rightarrow> 1
        | Some (host, port) \<Rightarrow>
            if sys_rc E Sys_inet_pton host \<noteq> 1 then 1
            else first_failure
              [sys_rc E Sys_connect ''udp'', bolo_subscriber_connect_supervisor E, bolo_subscriber_connect_monitor E,
               bolo_subscriber_connect_scheduler E,
               if \<not> sys_ok E Sys_socket endpoint then - 1 else sys_rc E Sys_setsockopt endpoint, sys_rc E Sys_connect endpoint,
               if sys_ok E Sys_reactor_new [] then 0 else - 1, sys_rc E Sys_reactor_set ''control'',
               sys_rc E Sys_reactor_set ''tock'', sys_rc E Sys_reactor_set ''subscriber'', sys_rc E Sys_thread ''dispatcher''])"

record influx_options =
  io_endpoint :: string
  io_influxdb :: "string option"
  io_verbose :: "32 word"
  io_daemonize :: bool
  io_pidfile :: string
  io_user :: string
  io_group :: string
  io_submit_to :: string
  io_prefix :: "string option"

definition influx_defaults :: influx_options where
  "influx_defaults = \<lparr>io_endpoint = ''tcp://127.0.0.1:2997'', io_influxdb = None, io_verbose = 0, io_daemonize = True,
     io_pidfile = ''/var/run/bolo2influxdb.pid'', io_user = ''root'', io_group = ''root'',
     io_submit_to = ''tcp://127.0.0.1:2999'', io_prefix = None\<rparr>"

fun influx_getopt :: "(char \<times> string) list \<Rightarrow> influx_options \<Rightarrow> int + influx_options" where
  "influx_getopt [] opt = Inr opt"
| "influx_getopt ((c, optarg) # os) opt =
     (if c = CHR ''h'' \<or> c = CHR 0x3F \<or> c = CHR ''V'' then Inl 0
      else if c = CHR ''v'' then influx_getopt os (opt\<lparr>io_verbose := io_verbose opt + 1\<rparr>)
      else if c = CHR ''e'' then influx_getopt os (opt\<lparr>io_endpoint := optarg\<rparr>)
      else if c = CHR ''F'' then influx_getopt os (opt\<lparr>io_daemonize := False\<rparr>)
      else if c = CHR ''p'' then influx_getopt os (opt\<lparr>io_pidfile := optarg\<rparr>)
      else if c = CHR ''u'' then influx_getopt os (opt\<lparr>io_user := optarg\<rparr>)
      else if c = CHR ''g'' then influx_getopt os (opt\<lparr>io_group := optarg\<rparr>)
      else if c = CHR ''H'' then influx_getopt os (opt\<lparr>io_influxdb := Some optarg\<rparr>)
      else if c = CHR ''S'' then influx_getopt os (opt\<lparr>io_submit_to := optarg\<rparr>)
      else if c = CHR ''P'' then influx_getopt os (opt\<lparr>io_prefix := Some optarg\<rparr>)
      else Inl 1)"

definition bolo2influxdb_main ::
  "env \<Rightarrow> 32 word \<Rightarrow> string \<Rightarrow> (char \<times> string) list \<Rightarrow> bool list \<Rightarrow> (int \<times> signal) list \<Rightarrow> int \<times> (monitor_t option \<times> pdu list) option" where
  "bolo2influxdb_main E junk host os sends sigs =
     (case influx_getopt os influx_defaults of
        Inl rc \<Rightarrow> (rc, None)
      | Inr opt \<Rightarrow>
          (case io_influxdb opt of
             None \<Rightarrow> (1, None)
           | Some influx \<Rightarrow>
               let prefix = (case io_prefix opt of None \<Rightarrow> host @ '':sys:bolo2influxdb'' | Some p \<Rightarrow> p);
                   (rc, mon) = bolo_subscriber_monitor_thread E prefix (io_submit_to opt)
               in if io_daemonize opt \<and> sys_rc E Sys_daemonize (io_pidfile opt) \<noteq> 0 then (3, None)
                  else if \<not> sys_ok E Sys_zmq_ctx [] then (1, None)
                  else if bolo_subscriber_init E \<noteq> 0 then (2, None)
                  else if rc \<noteq> 0 then (2, None)
                  else if bolo_subscriber_scheduler_thread E \<noteq> 0 then (2, None)
                  else let (_, announced) = bolo_subscriber_metrics E sends [(''SAMPLE'', ''dispatch.time.s'')] in
                    if influx_dispatcher_thread E junk (io_endpoint opt) influx \<noteq> 0 then (2, None)
                    else let _ = bolo_subscriber_supervisor E sigs in (0, Some (mon, announced))))"

section \<open>bolo2sqlite\<close>

text \<open>
  The two tables of the database; \<open>id\<close> is the row number. The statements of the program
  read and write them as their SQL says. Whether preparing and running a statement
  succeeds is a parameter.
\<close>

record sq_state_row =
  sr_name :: string
  sr_status :: string
  sr_message :: string
  sr_first_seen :: "32 word"
  sr_last_seen :: "32 word"

record sq_point_row =
  sp_name :: "string option"
  sp_type :: string
  sp_first_seen :: "32 word"
  sp_last_seen :: "32 word"

record sq_db =
  sq_states :: "sq_state_row list"
  sq_datapoints :: "sq_point_row list"

record sqstate_t =
  ss_name :: string
  ss_ts :: string
  ss_code :: string
  ss_summary :: string

record sqmetric_t =
  sm_type :: string
  sm_ts :: string
  sm_name :: "string option"

definition s_state_parse :: "pdu \<Rightarrow> sqstate_t" where
  "s_state_parse p = \<lparr>ss_name = p ! 1, ss_ts = p ! 2, ss_code = p ! 4, ss_summary = p ! 5\<rparr>"

text \<open>A frame that is not there is a null pointer; a name that is not there becomes \<open>NULL\<close> in the database.\<close>

definition s_metric_parse :: "pdu \<Rightarrow> sqmetric_t option" where
  "s_metric_parse p = (if length p < 2 then None
     else Some \<lparr>sm_type = hd p, sm_ts = p ! 1, sm_name = if length p = 2 then None else Some (p ! 2)\<rparr>)"

fun find_row :: "(sq_state_row \<Rightarrow> bool) \<Rightarrow> sq_state_row list \<Rightarrow> (nat \<times> sq_state_row) option" where
  "find_row P [] = None"
| "find_row P (r # rs) = (if P r then Some (0, r) else map_option (\<lambda>(i, r). (Suc i, r)) (find_row P rs))"

datatype sq_stage = Prepare_get | Prepare_insert | Prepare_update | Bind_get | Step_get | Step_update | Step_insert | Open_db

definition s_insert_state :: "(sq_stage \<Rightarrow> bool) \<Rightarrow> sqstate_t \<Rightarrow> sq_db \<Rightarrow> bool \<times> sq_db" where
  "s_insert_state ok s db =
     (if \<not> (ok Prepare_get \<and> ok Prepare_insert \<and> ok Prepare_update \<and> ok Bind_get \<and> ok Step_get) then (False, db)
      else let ts = atoi (ss_ts s) in
        case find_row (\<lambda>r. sr_name r = ss_name s) (sq_states db) of
          Some (i, r) \<Rightarrow>
            if \<not> ok Step_update then (False, db)
            else (True, db\<lparr>sq_states := (sq_states db)[i := r\<lparr>sr_status := ss_code s, sr_message := ss_summary s,
                sr_first_seen := if ss_code s = sr_status r then sr_first_seen r else ts, sr_last_seen := ts\<rparr>]\<rparr>)
        | None \<Rightarrow>
            if \<not> ok Step_insert then (False, db)
            else (True, db\<lparr>sq_states := sq_states db @ [\<lparr>sr_name = ss_name s, sr_status = ss_code s, sr_message = ss_summary s,
                sr_first_seen = ts, sr_last_seen = ts\<rparr>]\<rparr>))"

text \<open>
  The update looks for the name alone, so the row it finds may be of another type; \<open>NULL\<close>
  equals nothing.
\<close>

definition same_name :: "sqmetric_t \<Rightarrow> sq_point_row \<Rightarrow> bool" where
  "same_name m r \<longleftrightarrow> sm_name m \<noteq> None \<and> sp_name r = sm_name m"

definition s_track_datapoint :: "(sq_stage \<Rightarrow> bool) \<Rightarrow> sqmetric_t \<Rightarrow> sq_db \<Rightarrow> bool \<times> sq_db" where
  "s_track_datapoint ok m db =
     (let ts = atoi (sm_ts m) in
      if \<not> ok Step_update then (False, db)
      else if list_ex (same_name m) (sq_datapoints db)
      then (True, db\<lparr>sq_datapoints := map (\<lambda>r. if same_name m r then r\<lparr>sp_last_seen := ts\<rparr> else r) (sq_datapoints db)\<rparr>)
      else if \<not> ok Step_insert then (False, db)
      else (True, db\<lparr>sq_datapoints := sq_datapoints db @ [\<lparr>sp_name = sm_name m, sp_type = sm_type m, sp_first_seen = ts, sp_last_seen = ts\<rparr>]\<rparr>))"

text \<open>Connecting once; the statements prepared then stay. Without a connection the PDU is lost.\<close>

definition s_connect_db :: "(sq_stage \<Rightarrow> bool) \<Rightarrow> bool \<Rightarrow> bool" where
  "s_connect_db ok conn \<longleftrightarrow> conn \<or> ok Open_db \<and> ok Prepare_get \<and> ok Prepare_insert \<and> ok Prepare_update"

definition sqlite_pdu :: "(sq_stage \<Rightarrow> bool) \<Rightarrow> pdu \<Rightarrow> bool \<times> sq_db \<Rightarrow> (bool \<times> sq_db) res" where
  "sqlite_pdu ok p = (\<lambda>(conn, db).
     if hd p = ''STATE'' \<and> length p = 6 then
       let c = s_connect_db ok conn in Inr (c, if c then snd (s_insert_state ok (s_state_parse p) db) else db)
     else if hd p = ''SAMPLE'' \<or> hd p = ''RATE'' \<or> hd p = ''COUNTER'' then
       let c = s_connect_db ok conn in
       if c then case s_metric_parse p of None \<Rightarrow> Inl NullDeref | Some m \<Rightarrow> Inr (c, snd (s_track_datapoint ok m db))
       else Inr (c, db)
     else Inr (conn, db))"

fun sqlite_loop :: "((sq_stage \<Rightarrow> bool) \<times> pdu) list \<Rightarrow> bool \<times> sq_db \<Rightarrow> (bool \<times> sq_db) res" where
  "sqlite_loop [] S = Inr S"
| "sqlite_loop ((ok, p) # ms) S = bind_res (sqlite_pdu ok p S) (sqlite_loop ms)"

record sqlite_options =
  so_endpoint :: string
  so_verbose :: "32 word"
  so_daemonize :: bool
  so_pidfile :: string
  so_user :: string
  so_group :: string
  so_database :: string

definition sqlite_defaults :: sqlite_options where
  "sqlite_defaults = \<lparr>so_endpoint = ''tcp://127.0.0.1:2997'', so_verbose = 0, so_daemonize = True,
     so_pidfile = ''/var/run/bolo2sqlite.pid'', so_user = ''root'', so_group = ''root'', so_database = ''bolo''\<rparr>"

fun sqlite_getopt :: "(char \<times> string) list \<Rightarrow> sqlite_options \<Rightarrow> int + sqlite_options" where
  "sqlite_getopt [] opt = Inr opt"
| "sqlite_getopt ((c, optarg) # os) opt =
     (if c = CHR ''h'' \<or> c = CHR 0x3F \<or> c = CHR ''V'' then Inl 0
      else if c = CHR ''v'' then sqlite_getopt os (opt\<lparr>so_verbose := so_verbose opt + 1\<rparr>)
      else if c = CHR ''e'' then sqlite_getopt os (opt\<lparr>so_endpoint := optarg\<rparr>)
      else if c = CHR ''F'' then sqlite_getopt os (opt\<lparr>so_daemonize := False\<rparr>)
      else if c = CHR ''p'' then sqlite_getopt os (opt\<lparr>so_pidfile := optarg\<rparr>)
      else if c = CHR ''u'' then sqlite_getopt os (opt\<lparr>so_user := optarg\<rparr>)
      else if c = CHR ''g'' then sqlite_getopt os (opt\<lparr>so_group := optarg\<rparr>)
      else if c = CHR ''d'' then sqlite_getopt os (opt\<lparr>so_database := optarg\<rparr>)
      else Inl 1)"

text \<open>The database of a given name when the program starts is a parameter.\<close>

definition bolo2sqlite_main ::
  "env \<Rightarrow> (string \<Rightarrow> sq_db) \<Rightarrow> (char \<times> string) list \<Rightarrow> ((sq_stage \<Rightarrow> bool) \<times> pdu) list \<Rightarrow> (int \<times> sq_db option) res" where
  "bolo2sqlite_main E dbs os ms =
     (case sqlite_getopt os sqlite_defaults of
        Inl rc \<Rightarrow> Inr (rc, None)
      | Inr opt \<Rightarrow>
          if so_daemonize opt \<and> sys_rc E Sys_daemonize (so_pidfile opt) \<noteq> 0 then Inr (3, None)
          else if plain_socket E (so_endpoint opt) \<noteq> 0 then Inr (plain_socket E (so_endpoint opt), None)
          else bind_res (sqlite_loop ms (False, dbs (so_database opt))) (\<lambda>(c, db). Inr (0, Some db)))"

section \<open>What bolo2meta counts\<close>

definition meta_kinds :: "string list" where
  "meta_kinds = [''counter'', ''sample'', ''rate'', ''state'', ''transition'', ''event'', ''setkeys'']"

text \<open>
  Note: every PDU the kernel broadcasts is counted once under its own kind and
  once in the total, never as one of unknown shape.
\<close>

theorem meta_no_bogons:
  assumes "kernel_reactor E sock p K = Inr (v, K', fx)" "Broadcast q \<in> set fx"
  shows "\<exists>kind \<in> set meta_kinds. meta_reactor Me_subscriber q = (CONTINUE, [[''COUNT'', kind], [''COUNT'', ''total'']])"
proof -
  have "wire_ok q" using kernel_typed [OF assms(1)] assms(2) by (auto simp: list_all_iff typed_def)
  then have "meta_metric q \<in> set meta_kinds"
    by (auto simp: wire_ok_def counter_frames_def sample_frames_def rate_frames_def status_frames_def event_frames_def
      key_frames_def meta_metric_def meta_kinds_def odd_iff_mod_2_eq_one)
  then show ?thesis by (simp add: meta_reactor_def)
qed

theorem meta_no_bogons_witness:
  "\<exists>K' q. kernel_reactor plain_env S_listener [''COUNTER'', dec 200, ''c'', dec 1] (blank_kernel demo_server) = Inr (CONTINUE, K', [Broadcast q]) \<and>
    (\<exists>kind \<in> set meta_kinds. meta_reactor Me_subscriber q = (CONTINUE, [[''COUNT'', kind], [''COUNT'', ''total'']]))"
proof -
  obtain K' where K: "kernel_reactor plain_env S_listener [''COUNTER'', dec 200, ''c'', dec 1] (blank_kernel demo_server) =
    Inr (CONTINUE, K', [Broadcast [''COUNTER'', dec 60, ''c'', dec 7]])" using demo_counter_broadcast by blast
  from meta_no_bogons [OF K, of "[''COUNTER'', dec 60, ''c'', dec 7]"] K show ?thesis by fastforce
qed

section \<open>The rows bolo2sqlite keeps\<close>

definition is_state :: "pdu \<Rightarrow> bool" where
  "is_state p \<longleftrightarrow> hd p = ''STATE'' \<and> length p = 6"

definition about :: "string \<Rightarrow> pdu list \<Rightarrow> pdu list" where
  "about k ps = filter (\<lambda>p. is_state p \<and> p ! 1 = k) ps"

text \<open>The row for the broadcasts of one state: what the last one says, since when its status is the same.\<close>

definition row_of :: "pdu list \<Rightarrow> sq_state_row" where
  "row_of qs = (let q = last qs; run = takeWhile (\<lambda>r. r ! 4 = q ! 4) (rev qs) in
     \<lparr>sr_name = q ! 1, sr_status = q ! 4, sr_message = q ! 5, sr_first_seen = atoi (last run ! 2), sr_last_seen = atoi (q ! 2)\<rparr>)"

definition rows_ok :: "pdu list \<Rightarrow> sq_db \<Rightarrow> bool" where
  "rows_ok ps db \<longleftrightarrow> distinct (map sr_name (sq_states db)) \<and>
     (\<forall>k. find (\<lambda>r. sr_name r = k) (sq_states db) = (if about k ps = [] then None else Some (row_of (about k ps))))"

lemma row_of_one: "row_of [q] = \<lparr>sr_name = q ! 1, sr_status = q ! 4, sr_message = q ! 5, sr_first_seen = atoi (q ! 2), sr_last_seen = atoi (q ! 2)\<rparr>"
  by (simp add: row_of_def)

lemma row_of_snoc:
  assumes "qs \<noteq> []" "r = row_of qs"
  shows "row_of (qs @ [q]) = \<lparr>sr_name = q ! 1, sr_status = q ! 4, sr_message = q ! 5,
    sr_first_seen = if q ! 4 = sr_status r then sr_first_seen r else atoi (q ! 2), sr_last_seen = atoi (q ! 2)\<rparr>"
proof -
  have "takeWhile (\<lambda>p. p ! 4 = last qs ! 4) (rev qs) \<noteq> []" using assms(1) by (cases qs rule: rev_cases) auto
  moreover have "takeWhile (\<lambda>p. p ! 4 = q ! 4) (rev qs) = []" if "q ! 4 \<noteq> last qs ! 4"
    using that assms(1) by (cases qs rule: rev_cases) auto
  ultimately show ?thesis using assms(2) by (auto simp: row_of_def Let_def)
qed

lemma find_row_find:
  "case find_row P rs of
     None \<Rightarrow> find P rs = None
   | Some (i, r) \<Rightarrow> i < length rs \<and> rs ! i = r \<and> find P rs = Some r"
  by (induction rs) (auto split: option.splits)

lemma find_update:
  "distinct (map sr_name rs) \<Longrightarrow> i < length rs \<Longrightarrow> sr_name r = sr_name (rs ! i) \<Longrightarrow>
    find (\<lambda>r. sr_name r = k) (rs[i := r]) = (if k = sr_name r then Some r else find (\<lambda>r. sr_name r = k) rs)"
proof (induction rs arbitrary: i)
  case (Cons x rs)
  then show ?case by (cases i) (auto dest: nth_mem)
qed simp

lemma insert_state_rows:
  assumes "rows_ok ps db" "is_state q"
  shows "rows_ok (ps @ [q]) (snd (s_insert_state (\<lambda>_. True) (s_state_parse q) db))"
proof -
  let ?k = "q ! 1" and ?rs = "sq_states db"
  have d: "distinct (map sr_name ?rs)" and f: "\<And>k. find (\<lambda>r. sr_name r = k) ?rs = (if about k ps = [] then None else Some (row_of (about k ps)))"
    using assms(1) by (auto simp: rows_ok_def)
  have a: "about k (ps @ [q]) = about k ps @ (if k = ?k then [q] else [])" for k using assms(2) by (simp add: about_def)
  note r = find_row_find [of "\<lambda>r. sr_name r = ?k" ?rs]
  show ?thesis
  proof (cases "find_row (\<lambda>r. sr_name r = ?k) ?rs")
    case None
    with r have e: "find (\<lambda>r. sr_name r = ?k) ?rs = None" by simp
    with f [of ?k] have n: "about ?k ps = []" by (simp split: if_splits)
    from e have "?k \<notin> sr_name ` set ?rs" by (auto simp: find_None_iff)
    show ?thesis using None n \<open>?k \<notin> sr_name ` set ?rs\<close> d f by (auto simp: rows_ok_def s_insert_state_def s_state_parse_def a row_of_one find_snoc Let_def split: option.splits)
  next
    case (Some x)
    then obtain i y where x: "find_row (\<lambda>r. sr_name r = ?k) ?rs = Some (i, y)" by (cases x) auto
    with r f [of ?k] have y: "i < length ?rs" "?rs ! i = y" "about ?k ps \<noteq> []" "y = row_of (about ?k ps)" by (auto split: if_splits)
    have yk: "sr_name y = ?k" using x r find_Some_iff [of "\<lambda>r. sr_name r = ?k" ?rs y] by auto
    have m: "map sr_name (?rs[i := z]) = map sr_name ?rs" if "sr_name z = ?k" for z
      using that y(1,2) yk by (metis list_update_id map_update)
    show ?thesis using x d f y(1,2) yk row_of_snoc [OF y(3,4)]
      by (auto simp: rows_ok_def s_insert_state_def s_state_parse_def a m find_update [OF d y(1)] Let_def)
  qed
qed



lemma sqlite_rows_step:
  assumes "rows_ok ps db" "wire_ok p"
  shows "\<exists>c' db'. sqlite_pdu (\<lambda>_. True) p (c, db) = Inr (c', db') \<and> rows_ok (ps @ [p]) db'"
proof (cases "is_state p")
  case True
  then show ?thesis using insert_state_rows [OF assms(1) True] by (auto simp: sqlite_pdu_def is_state_def s_connect_db_def Let_def)
next
  case False
  have "rows_ok (ps @ [p]) db'" if "sq_states db' = sq_states db" for db'
    using assms(1) False that by (simp add: rows_ok_def about_def)
  moreover have "s_metric_parse p \<noteq> None" if "hd p = ''SAMPLE'' \<or> hd p = ''RATE'' \<or> hd p = ''COUNTER''"
    using that assms(2) by (auto simp: s_metric_parse_def wire_ok_def counter_frames_def sample_frames_def rate_frames_def
      status_frames_def event_frames_def key_frames_def)
  moreover have "sq_states (snd (s_track_datapoint ok m db)) = sq_states db" for ok m by (simp add: s_track_datapoint_def Let_def)
  ultimately show ?thesis using False by (auto simp: sqlite_pdu_def is_state_def s_connect_db_def Let_def split: option.splits)
qed

lemma sqlite_rows_loop:
  "rows_ok qs db \<Longrightarrow> list_all wire_ok ps \<Longrightarrow>
    \<exists>c' db'. sqlite_loop (map (Pair (\<lambda>_. True)) ps) (c, db) = Inr (c', db') \<and> rows_ok (qs @ ps) db'"
proof (induction ps arbitrary: qs c db)
  case (Cons p ps)
  from sqlite_rows_step [OF Cons.prems(1), of p c] Cons.prems(2) obtain c1 db1 where
    1: "sqlite_pdu (\<lambda>_. True) p (c, db) = Inr (c1, db1)" "rows_ok (qs @ [p]) db1" by auto
  from Cons.IH [OF 1(2), of c1] Cons.prems(2) 1(1) show ?case by simp
qed simp

text \<open>
  C34: after any broadcasts of the kernel, as long as no statement fails, the
  table of states has one row for every state that was broadcast and no other: its status,
  message and time are those of the last broadcast, and its first time is that of the first
  broadcast since when the status is the same.
\<close>

theorem sqlite_rows:
  assumes "kernel_thread ms K = Inr (v, K', fx)"
  shows "\<exists>c db. sqlite_loop (map (Pair (\<lambda>_. True)) (told fx)) (False, \<lparr>sq_states = [], sq_datapoints = []\<rparr>) = Inr (c, db) \<and>
    distinct (map sr_name (sq_states db)) \<and>
    (\<forall>k. find (\<lambda>r. sr_name r = k) (sq_states db) =
      (if about k (told fx) = [] then None else Some (row_of (about k (told fx)))))"
proof -
  have "list_all typed fx" using assms
  proof (induction ms arbitrary: K fx)
    case (Cons m ms)
    then show ?case by (cases m) (fastforce simp: bind_res_Inr_iff dest: kernel_typed split: if_splits)
  qed simp
  then have "list_all wire_ok (told fx)"
    by (induction fx) (auto simp: told_def List.map_filter_simps typed_def split: effect.splits)
  moreover have "rows_ok [] \<lparr>sq_states = [], sq_datapoints = []\<rparr>" by (simp add: rows_ok_def about_def)
  ultimately show ?thesis using sqlite_rows_loop [of "[]" _ "told fx" False] by (auto simp: rows_ok_def)
qed


theorem sqlite_rows_witness:
  "\<exists>K' fx c db. kernel_thread [(plain_env, S_listener, [''STATE'', dec 90, ''s'', dec 2, ''disk full''])] (blank_kernel demo_server) =
      Inr (CONTINUE, K', fx) \<and> about ''s'' (told fx) \<noteq> [] \<and>
    sqlite_loop (map (Pair (\<lambda>_. True)) (told fx)) (False, \<lparr>sq_states = [], sq_datapoints = []\<rparr>) = Inr (c, db) \<and>
    find (\<lambda>r. sr_name r = ''s'') (sq_states db) = Some (row_of (about ''s'' (told fx)))"
proof -
  from demo_state_submission obtain K' s' where r: "kernel_thread [(plain_env, S_listener, [''STATE'', dec 90, ''s'', dec 2, ''disk full''])] (blank_kernel demo_server) =
      Inr (CONTINUE, K', [broadcast_transition s', broadcast_state s'])" "state_name s' = ''s''" by blast
  have "about ''s'' (told [broadcast_transition s', broadcast_state s']) \<noteq> []"
    by (simp add: about_def is_state_def broadcast_transition_def broadcast_state_def state_frames_def r(2))
  with sqlite_rows [OF r(1)] r(1) show ?thesis by (auto split: if_splits)
qed

section \<open>The keys bolo2redis sets\<close>

definition live_pairs :: "(string \<times> string option) list \<Rightarrow> (string \<times> string) list" where
  "live_pairs kvs = List.map_filter (\<lambda>(k, v). map_option (Pair k) v) kvs"

definition flat :: "(string \<times> string) list \<Rightarrow> string list" where
  "flat ps = concat (map (\<lambda>(k, v). [k, v]) ps)"

lemma live_pairs_simps [simp]:
  "live_pairs [] = []" "live_pairs ((k, None) # kvs) = live_pairs kvs" "live_pairs ((k, Some v) # kvs) = (k, v) # live_pairs kvs"
  by (simp_all add: live_pairs_def List.map_filter_simps)

lemma redis_pairs_flat: "\<forall>k v. R k v \<noteq> No_reply \<Longrightarrow> redis_pairs R (flat ps) = Inr ps"
  by (induction ps) (auto simp: flat_def)

lemma redis_group:
  assumes "\<forall>k v. R k v \<noteq> No_reply"
  shows "redis_pdu R (''SET.KEYS'' # flat ps) = Inr ps"
proof -
  have "length (flat ps) mod 2 = 0" by (induction ps) (auto simp: flat_def)
  then show ?thesis using redis_pairs_flat [OF assms] by (simp add: redis_pdu_def mod_Suc)
qed

lemma redis_setkeys:
  assumes "\<forall>k v. R k v \<noteq> No_reply" "p = ''SET.KEYS'' # flat ps" "n = length ps"
  shows "redis_loop R (told (setkeys_loop kvs p n)) = Inr (ps @ live_pairs kvs)"
  using assms(2,3)
proof (induction kvs p n arbitrary: ps rule: setkeys_loop.induct)
  case (1 p n)
  then show ?case using redis_group [OF assms(1), of ps] by (cases "n = 0") auto
next
  case (2 k kvs p n)
  then show ?case by simp
next
  case (3 k v kvs p n)
  have f: "p @ [k, v] = ''SET.KEYS'' # flat (ps @ [(k, v)])" using 3(3) by (simp add: flat_def)
  show ?case
  proof (cases "n + 1 = 30")
    case True
    have "redis_loop R (told (setkeys_loop kvs [''SET.KEYS''] 0)) = Inr (live_pairs kvs)"
      using 3(1) [OF True, of "[]"] by (simp add: flat_def)
    moreover have "setkeys_loop ((k, Some v) # kvs) p n = Broadcast (''SET.KEYS'' # flat (ps @ [(k, v)])) # setkeys_loop kvs [''SET.KEYS''] 0"
      using True by (simp flip: f)
    ultimately show ?thesis using redis_group [OF assms(1), of "ps @ [(k, v)]"] by simp
  next
    case False
    with 3(2) [OF False f] 3(4) show ?thesis by simp
  qed
qed

lemma told_files: "write_db E S = Inr fx \<Longrightarrow> told fx = []" "told (write_keys E S) = []"
  by (auto simp: told_def write_db_def write_keys_def save_keys_def bind_res_Inr_iff Let_def List.map_filter_simps split: option.splits)

text \<open>
  C35: when the kernel saves its state and its broadcasts reach \<open>bolo2redis\<close>, the
  server is told to set every key of the kernel that has a value, to that value, each once,
  and no other key.
\<close>

theorem redis_mirror:
  assumes "visits_all E" "savestate_step E K = Inr (K', fx)" "due (k_savestate K) (time_s E)" "\<forall>k v. R k v \<noteq> No_reply"
  shows "\<exists>cs. redis_loop R (told fx) = Inr cs \<and> distinct (map fst cs) \<and>
    (\<forall>k v. (k, v) \<in> set cs \<longleftrightarrow> fmlookup (s_keys (k_server K)) k = Some (Some v))"
proof -
  let ?kvs = "key_pairs E (s_keys (k_server K))"
  have "told fx = told (broadcast_setkeys E K)"
    using assms(2,3) told_files by (auto simp: savestate_step_def bind_res_Inr_iff)
  then have c: "redis_loop R (told fx) = Inr (live_pairs ?kvs)"
    using redis_setkeys [OF assms(4), of "[''SET.KEYS'']" "[]" 0 ?kvs] by (simp add: broadcast_setkeys_def flat_def)
  note k = key_pairs_props [OF assms(1), of "s_keys (k_server K)"]
  have s: "(k, v) \<in> set (live_pairs kvs) \<longleftrightarrow> (k, Some v) \<in> set kvs" for k v kvs
    by (auto simp: live_pairs_def List.map_filter_def) force
  have d: "distinct (map fst kvs) \<Longrightarrow> distinct (map fst (live_pairs kvs))" for kvs
  proof (induction kvs)
    case (Cons x kvs)
    then show ?case by (cases x; cases "snd x") (force simp: s)+
  qed simp
  have "(k, Some v) \<in> set ?kvs \<longleftrightarrow> fmlookup (s_keys (k_server K)) k = Some (Some v)" for k v
    using k by (metis map_of_SomeD map_of_is_SomeI)
  with c d [OF k(1)] s show ?thesis by simp
qed

theorem redis_mirror_witness:
  "\<exists>K' fx cs. savestate_step plain_env (set_keys (fmupd ''k'' (Some ''v'') fmempty) (blank_kernel demo_server)) = Inr (K', fx) \<and>
    redis_loop (\<lambda>k v. Reply_ok) (told fx) = Inr cs \<and> (\<forall>k v. (k, v) \<in> set cs \<longleftrightarrow> k = ''k'' \<and> v = ''v'')"
proof -
  let ?K = "set_keys (fmupd ''k'' (Some ''v'') fmempty) (blank_kernel demo_server)"
  have d: "due (k_savestate ?K) (time_s plain_env)"
    by (simp add: due_def set_keys_def blank_kernel_def demo_server_def Let_def)
  obtain K' fx where s: "savestate_step plain_env ?K = Inr (K', fx)"
    using d by (simp add: savestate_step_def write_db_def demo_server_def blank_kernel_def set_keys_def Let_def)
  have e: "fmlookup (s_keys (k_server ?K)) k = Some (Some v) \<longleftrightarrow> k = ''k'' \<and> v = ''v''" for k v by auto
  have r: "\<forall>k v. (\<lambda>k v. Reply_ok) k v \<noteq> No_reply" by simp
  from redis_mirror [OF plain_env_visits_all(2) s d r] obtain cs where
    c: "redis_loop (\<lambda>k v. Reply_ok) (told fx) = Inr cs" "\<forall>k v. (k, v) \<in> set cs \<longleftrightarrow> fmlookup (s_keys (k_server ?K)) k = Some (Some v)"
    by (elim exE conjE)
  show ?thesis by (intro exI conjI) (rule s, rule c(1), rule c(2) [unfolded e])
qed

end
