(* ===== verification/Bolo_Opentsdb.thy ===== *)
theory Bolo_Opentsdb
  imports Bolo_Subscriber
begin

text \<open>
  The relay \<open>opentsdb2bolo\<close> (\<open>src/src/opentsdb2bolo/main.c\<close>): it accepts TCP connections,
  reads lines in the format of OpenTSDB and submits them to the aggregator as samples.

  The buffers of the connections are kept byte by byte. Sockets and \<open>epoll\<close> are given by
  what their calls return; log texts and help texts are left out.
\<close>

section \<open>One line\<close>

definition split_while :: "(char \<Rightarrow> bool) \<Rightarrow> string \<Rightarrow> string \<times> string" where
  "split_while P s = (takeWhile P s, dropWhile P s)"

definition next_word :: "string \<Rightarrow> string \<times> string" where
  "next_word s = (let (w, r) = split_while (\<lambda>c. \<not> isspace c) s in (w, dropWhile isspace r))"

lemma next_word_shorter: "s \<noteq> [] \<Longrightarrow> length (snd (next_word s)) < length s \<or> isspace (hd s)"
  by (cases s) (auto simp: next_word_def split_while_def less_Suc_eq_le intro: le_trans [OF length_dropWhile_le length_dropWhile_le])

text \<open>The tags, each followed by a comma. The text never begins with a blank.\<close>

function put_tags :: "string \<Rightarrow> string" where
  "put_tags s = (if s = [] \<or> isspace (hd s) then [] else fst (next_word s) @ '','' @ put_tags (snd (next_word s)))"
  by pat_completeness auto

termination
  by (relation "measure length") (use next_word_shorter in auto)

declare put_tags.simps [simp del]

text \<open>The result, and the PDU that was handed to the socket; \<open>ok\<close> tells whether sending works.\<close>

definition s_send :: "bool \<Rightarrow> string \<Rightarrow> int \<times> pdu option" where
  "s_send ok buf =
     (if take 4 buf \<noteq> ''put '' then (- 1, None)
      else let (metric, r) = next_word (drop 4 buf); (ts, r) = next_word r; (value, tags) = next_word r;
               pdu = [''SAMPLE'', ts, put_tags tags @ ''metric='' @ metric, value]
           in if ok then (0, Some pdu) else (1, None))"

section \<open>The buffer of a connection\<close>

record client_t =
  cl_fd :: int
  cl_buffer :: string
  cl_nread :: nat

text \<open>The first newline from a position on, as \<open>strchr\<close> finds it.\<close>

definition find_eol :: "string \<Rightarrow> nat \<Rightarrow> nat option" where
  "find_eol mem i = (let s = cstr (drop i mem) in
     if CHR 10 \<in> set s then Some (i + length (takeWhile (\<lambda>c. c \<noteq> CHR 10) s)) else None)"

text \<open>
  Complete lines are handed on and cut off the front of the buffer. The bytes that move
  are as many as were read; what lies behind them stays, with no null character before
  it, so that \<open>strchr\<close> may find a newline that belongs to an earlier line. Then the number
  of bytes read wraps around and \<open>memmove\<close> leaves the buffer.
\<close>

function client_lines :: "(string \<Rightarrow> bool) \<Rightarrow> string \<Rightarrow> nat \<Rightarrow> nat option \<Rightarrow> (string \<times> nat \<times> pdu list) res" where
  "client_lines ok mem nread None = Inr (mem, nread, [])"
| "client_lines ok mem nread (Some eol) =
     (let mem1 = mem[eol := NUL]; line = cstr mem1; n = Suc eol in
      if nread < n then Inl OutOfBounds
      else let mem2 = take (nread - n) (drop n mem1) @ drop (nread - n) mem1 in
        bind_res (client_lines ok mem2 (nread - n) (find_eol mem2 0)) (\<lambda>(mem, nread, ps).
          Inr (mem, nread, (case snd (s_send (ok line) line) of None \<Rightarrow> [] | Some p \<Rightarrow> [p]) @ ps)))"
  by pat_completeness auto

termination
  by (relation "measure (\<lambda>(ok, mem, nread, eol). nread)") auto

declare client_lines.simps(2) [simp del]

text \<open>
  Reading: at most as many bytes as are free behind those read before, but written to the
  start of the buffer. No bytes mean the end of the connection; then a line that was begun
  is ended. The result also tells whether the connection was closed.
\<close>

definition client_read :: "(string \<Rightarrow> bool) \<Rightarrow> string \<Rightarrow> client_t \<Rightarrow> (client_t \<times> pdu list) res" where
  "client_read ok input c =
     (let d = take (8190 - cl_nread c - 1) input; n = length d; eof = n = 0;
          mem = overlay d (cl_buffer c);
          (mem, nread) = (if eof \<and> cl_nread c \<noteq> 0 then (mem[cl_nread c := CHR 10], Suc (cl_nread c)) else (mem, cl_nread c));
          mem = mem[nread + n := NUL]
      in bind_res (client_lines ok mem (nread + n) (find_eol mem nread)) (\<lambda>(mem, nread, ps).
           Inr (\<lparr>cl_fd = if eof then - 1 else cl_fd c, cl_buffer = mem, cl_nread = nread\<rparr>, ps)))"

section \<open>Connections\<close>

text \<open>
  A descriptor that is ready, with what the calls on it return: the new descriptor of
  \<open>accept\<close>, the result of \<open>epoll_ctl\<close>, and what \<open>read\<close> finds or that it fails.
\<close>

record tsdb_event =
  te_fd :: int
  te_accept :: int
  te_ctl :: int
  te_input :: "string option"
  te_send :: "string \<Rightarrow> bool"

fun find_client :: "int \<Rightarrow> client_t list \<Rightarrow> nat" where
  "find_client fd [] = 0"
| "find_client fd (c # cs) = (if cl_fd c = fd then 0 else Suc (find_client fd cs))"

definition tsdb_accept :: "tsdb_event \<Rightarrow> client_t list \<Rightarrow> client_t list option" where
  "tsdb_accept ev cs =
     (let j = find_client (- 1) cs in
      if te_accept ev < 0 \<or> length cs \<le> j \<or> te_ctl ev = - 1 then None
      else Some (cs[j := (cs ! j)\<lparr>cl_fd := te_accept ev, cl_nread := 0\<rparr>]))"

datatype tsdb_outcome = Go_on "client_t list" "pdu list" | Exit int

definition tsdb_ready :: "tsdb_event \<Rightarrow> client_t list \<Rightarrow> tsdb_outcome res" where
  "tsdb_ready ev cs =
     (let j = find_client (te_fd ev) cs in
      if length cs \<le> j then Inr (Go_on cs [])
      else case te_input ev of
          None \<Rightarrow> Inr (Exit 1)
        | Some input \<Rightarrow> bind_res (client_read (te_send ev) input (cs ! j)) (\<lambda>(c, ps). Inr (Go_on (cs[j := c]) ps)))"

definition tsdb_event_step :: "int \<Rightarrow> tsdb_event \<Rightarrow> client_t list \<Rightarrow> tsdb_outcome res" where
  "tsdb_event_step listenfd ev cs =
     (if te_fd ev = listenfd then
        case tsdb_accept ev cs of None \<Rightarrow> Inr (Go_on cs []) | Some cs \<Rightarrow> tsdb_ready ev cs
      else tsdb_ready ev cs)"

text \<open>The main loop: the events \<open>epoll_wait\<close> gives, or none when it fails.\<close>

fun tsdb_loop :: "int \<Rightarrow> tsdb_event option list \<Rightarrow> client_t list \<Rightarrow> (int option \<times> client_t list \<times> pdu list) res" where
  "tsdb_loop listenfd [] cs = Inr (None, cs, [])"
| "tsdb_loop listenfd (None # evs) cs = Inr (Some 1, cs, [])"
| "tsdb_loop listenfd (Some ev # evs) cs =
     bind_res (tsdb_event_step listenfd ev cs) (\<lambda>r. case r of
         Exit rc \<Rightarrow> Inr (Some rc, cs, [])
       | Go_on cs ps \<Rightarrow> bind_res (tsdb_loop listenfd evs cs) (\<lambda>(rc, cs, qs). Inr (rc, cs, ps @ qs)))"

section \<open>Start\<close>

text \<open>The listening socket. An address is refused when \<open>inet_pton\<close> accepts it and used when it does not.\<close>

definition s_listen :: "env \<Rightarrow> string \<Rightarrow> int" where
  "s_listen E bindto =
     (let (buf, port) = (case cut_first (CHR '':'') bindto of None \<Rightarrow> (bindto, 13321) | Some (h, p) \<Rightarrow> (h, sint (atoi p))) in
      if port < 0 \<or> 65535 < port then - 1
      else if buf \<noteq> ''*'' \<and> sys_rc E Sys_inet_pton buf \<noteq> 0 then - 1
      else if sys_rc E Sys_socket ''tcp'' < 0 then sys_rc E Sys_socket ''tcp''
      else if sys_rc E Sys_bind ''tcp'' \<noteq> 0 then - 1
      else if sys_rc E Sys_listen ''tcp'' \<noteq> 0 then - 1
      else sys_rc E Sys_socket ''tcp'')"

record tsdb_options =
  to_submit_to :: string
  to_listen :: string
  to_verbose :: "32 word"
  to_daemonize :: bool
  to_pidfile :: string
  to_user :: string
  to_group :: string
  to_prefix :: "string option"
  to_maxconn :: "32 word"

definition tsdb_defaults :: tsdb_options where
  "tsdb_defaults = \<lparr>to_submit_to = ''tcp://127.0.0.1:2999'', to_listen = ''*:13321'', to_verbose = 0, to_daemonize = True,
     to_pidfile = ''/var/run/opentsdb2bolo.pid'', to_user = ''root'', to_group = ''root'', to_prefix = None, to_maxconn = 1024\<rparr>"

fun tsdb_getopt :: "(char \<times> string) list \<Rightarrow> tsdb_options \<Rightarrow> int + tsdb_options" where
  "tsdb_getopt [] opt = Inr opt"
| "tsdb_getopt ((c, optarg) # os) opt =
     (if c = CHR ''h'' \<or> c = CHR 0x3F \<or> c = CHR ''V'' then Inl 0
      else if c = CHR ''v'' then tsdb_getopt os (opt\<lparr>to_verbose := to_verbose opt + 1\<rparr>)
      else if c = CHR ''F'' then tsdb_getopt os (opt\<lparr>to_daemonize := False\<rparr>)
      else if c = CHR ''p'' then tsdb_getopt os (opt\<lparr>to_pidfile := optarg\<rparr>)
      else if c = CHR ''u'' then tsdb_getopt os (opt\<lparr>to_user := optarg\<rparr>)
      else if c = CHR ''g'' then tsdb_getopt os (opt\<lparr>to_group := optarg\<rparr>)
      else if c = CHR ''l'' then tsdb_getopt os (opt\<lparr>to_listen := optarg\<rparr>)
      else if c = CHR ''S'' then tsdb_getopt os (opt\<lparr>to_submit_to := optarg\<rparr>)
      else if c = CHR ''P'' then tsdb_getopt os (opt\<lparr>to_prefix := Some optarg\<rparr>)
      else if c = CHR ''m'' then tsdb_getopt os (opt\<lparr>to_maxconn := word_of_int (strtol optarg)\<rparr>)
      else Inl 1)"

definition blank_clients :: "tsdb_options \<Rightarrow> client_t list" where
  "blank_clients opt = replicate (nat (sint (to_maxconn opt))) \<lparr>cl_fd = - 1, cl_buffer = replicate 8192 NUL, cl_nread = 0\<rparr>"

text \<open>
  The exit code, if the program ends, and what it submits. \<open>calloc\<close> fails for a
  negative number of connections only.
\<close>

definition opentsdb2bolo_main :: "env \<Rightarrow> (char \<times> string) list \<Rightarrow> tsdb_event option list \<Rightarrow> (int option \<times> pdu list) res" where
  "opentsdb2bolo_main E os evs =
     (case tsdb_getopt os tsdb_defaults of
        Inl rc \<Rightarrow> Inr (Some rc, [])
      | Inr opt \<Rightarrow>
          let listenfd = s_listen E (to_listen opt) in
          if to_daemonize opt \<and> sys_rc E Sys_daemonize (to_pidfile opt) \<noteq> 0 then Inr (Some 3, [])
          else if \<not> sys_ok E Sys_zmq_ctx [] \<or> \<not> sys_ok E Sys_socket (to_submit_to opt) \<or> sys_rc E Sys_connect (to_submit_to opt) \<noteq> 0
          then Inr (Some 1, [])
          else if sint (to_maxconn opt) < 0 \<or> listenfd < 0 \<or> \<not> sys_ok E Sys_epoll_create [] \<or> sys_rc E Sys_epoll_ctl [] = - 1 then Inr (Some 1, [])
          else bind_res (tsdb_loop listenfd evs (blank_clients opt)) (\<lambda>(rc, cs, ps). Inr (rc, ps)))"

section \<open>Lines that arrive complete\<close>

definition plain_line :: "string \<Rightarrow> bool" where
  "plain_line l \<longleftrightarrow> CHR 10 \<notin> set l \<and> NUL \<notin> set l"

definition ended :: "string list \<Rightarrow> string" where
  "ended ls = concat (map (\<lambda>l. l @ [CHR 10]) ls)"

definition sends :: "(string \<Rightarrow> bool) \<Rightarrow> string list \<Rightarrow> pdu list" where
  "sends ok ls = concat (map (\<lambda>l. case snd (s_send (ok l) l) of None \<Rightarrow> [] | Some p \<Rightarrow> [p]) ls)"

lemma plain_cstr: "plain_line l \<Longrightarrow> cstr (l @ NUL # r) = l"
  by (simp add: plain_line_def cstring_def)

lemma find_eol_line: "plain_line l \<Longrightarrow> find_eol (l @ CHR 10 # r) 0 = Some (length l)"
proof -
  assume l: "plain_line l"
  then have "cstr (l @ CHR 10 # r) = l @ CHR 10 # cstr r"
    by (induction l) (auto simp: plain_line_def cstr_def)
  with l show ?thesis by (auto simp: find_eol_def plain_line_def takeWhile_append Let_def)
qed

lemma find_eol_none: "plain_line l \<Longrightarrow> find_eol (l @ NUL # r) 0 = None"
  by (simp add: find_eol_def plain_cstr) (simp add: plain_line_def)

lemma client_lines_line:
  assumes "plain_line l" "length l < nread" "mem = l @ CHR 10 # r"
  shows "client_lines ok mem nread (Some (length l)) =
    (let mem2 = take (nread - Suc (length l)) r @ drop (nread - Suc (length l)) (l @ NUL # r) in
     bind_res (client_lines ok mem2 (nread - Suc (length l)) (find_eol mem2 0)) (\<lambda>(mem, nread, ps).
       Inr (mem, nread, sends ok [l] @ ps)))"
proof -
  have "mem[length l := NUL] = l @ NUL # r" by (simp add: assms(3))
  with assms(1,2) show ?thesis by (simp add: client_lines.simps(2) plain_cstr sends_def Let_def)
qed

lemma client_lines_fault: "nread \<le> eol \<Longrightarrow> client_lines ok mem nread (Some eol) = Inl OutOfBounds"
  by (simp add: client_lines.simps(2) Let_def)

lemma client_lines_ended:
  "ls \<noteq> [] \<Longrightarrow> list_all plain_line ls \<Longrightarrow>
    \<exists>mem. client_lines ok (ended ls @ r) (length (ended ls)) (Some (length (hd ls))) = Inr (mem, 0, sends ok ls) \<and>
      length mem = length (ended ls @ r)"
proof (induction ls arbitrary: r)
  case (Cons l ls)
  then have l: "plain_line l" by simp
  have m: "ended (l # ls) @ r = l @ CHR 10 # ended ls @ r" by (simp add: ended_def)
  have n: "length l < length (ended (l # ls))" "length (ended (l # ls)) - Suc (length l) = length (ended ls)" by (simp_all add: ended_def)
  note c = client_lines_line [OF l n(1) m, unfolded n(2)]
  show ?case
  proof (cases ls)
    case Nil
    with c find_eol_none [OF l, of r] show ?thesis by (simp add: ended_def)
  next
    case (Cons k ks)
    let ?r = "drop (length (ended ls)) (l @ NUL # ended ls @ r)"
    have k: "plain_line k" "ended ls = k @ CHR 10 # ended ks" using Cons.prems Cons by (auto simp: ended_def)
    have e: "take (length (ended ls)) (ended ls @ r) @ ?r = ended ls @ ?r" by simp
    have f: "find_eol (ended ls @ ?r) 0 = Some (length (hd ls))" using find_eol_line [OF k(1)] Cons k(2) by simp
    from Cons.IH [of ?r] Cons.prems Cons obtain mem where
      "client_lines ok (ended ls @ ?r) (length (ended ls)) (Some (length (hd ls))) = Inr (mem, 0, sends ok ls)"
      "length mem = length (ended ls @ ?r)" by auto
    moreover have "length (ended ls @ ?r) = length (ended (l # ls) @ r)" by (simp add: ended_def)
    ultimately show ?thesis using c unfolding e f Let_def by (simp add: sends_def)
  qed
qed simp

lemma client_read_ended:
  assumes "cl_nread c = 0" "length (cl_buffer c) = 8192" "ls \<noteq> []" "list_all plain_line ls" "length (ended ls) \<le> 8189"
  shows "\<exists>c'. client_read ok (ended ls) c = Inr (c', sends ok ls) \<and> cl_fd c' = cl_fd c \<and> cl_nread c' = 0 \<and> length (cl_buffer c') = 8192"
proof -
  let ?n = "length (ended ls)"
  have n0: "ended ls \<noteq> []" using assms(3) by (cases ls) (auto simp: ended_def)
  have "(overlay (ended ls) (cl_buffer c))[?n := NUL] = ended ls @ NUL # drop (Suc ?n) (cl_buffer c)"
    using assms(2,5) by (simp add: overlay_def list_update_append upd_conv_take_nth_drop)
  moreover have "find_eol (ended ls @ x) 0 = Some (length (hd ls))" for x
    using assms(3,4) find_eol_line by (cases ls) (auto simp: ended_def)
  moreover from client_lines_ended [OF assms(3,4), of ok "NUL # drop (Suc ?n) (cl_buffer c)"] obtain mem where
    "client_lines ok (ended ls @ NUL # drop (Suc ?n) (cl_buffer c)) ?n (Some (length (hd ls))) = Inr (mem, 0, sends ok ls)"
    "length mem = length (ended ls @ NUL # drop (Suc ?n) (cl_buffer c))" by auto
  ultimately show ?thesis using assms(1,2,5) n0 by (simp add: client_read_def Let_def)
qed


lemma next_word_word:
  assumes "list_all (\<lambda>c. \<not> isspace c) w" "r = [] \<or> isspace (hd r)"
  shows "next_word (w @ r) = (w, dropWhile isspace r)"
proof -
  have "takeWhile (\<lambda>c. \<not> isspace c) w = w" "dropWhile (\<lambda>c. \<not> isspace c) w = []" using assms(1) by (auto simp: list_all_iff takeWhile_eq_all_conv)
  with assms show ?thesis
    by (cases r) (auto simp: next_word_def split_while_def takeWhile_append dropWhile_append list_all_iff simp del: dropWhile_eq_Nil_conv)
qed

definition tsdb_word :: "string \<Rightarrow> bool" where
  "tsdb_word w \<longleftrightarrow> w \<noteq> [] \<and> list_all (\<lambda>c. \<not> isspace c \<and> c \<noteq> NUL) w"

lemma next_word_unwords:
  assumes "list_all tsdb_word (w # ws)"
  shows "next_word (unwords (w # ws)) = (w, unwords ws)"
proof -
  have w: "list_all (\<lambda>c. \<not> isspace c) w" using assms by (auto simp: tsdb_word_def list_all_iff)
  show ?thesis
  proof (cases ws)
    case Nil
    with next_word_word [OF w, of "[]"] show ?thesis by simp
  next
    case (Cons v vs)
    then obtain c cs where "unwords ws = c # cs" "\<not> isspace c"
      using assms by (cases vs; cases v) (auto simp: tsdb_word_def)
    with next_word_word [OF w, of "CHR '' '' # unwords ws"] Cons show ?thesis by (simp add: isspace_def)
  qed
qed

lemma put_tags_unwords: "list_all tsdb_word ws \<Longrightarrow> put_tags (unwords ws) = concat (map (\<lambda>t. t @ '','') ws)"
proof (induction ws)
  case Nil
  then show ?case by (simp add: put_tags.simps)
next
  case (Cons w ws)
  then have "unwords (w # ws) \<noteq> []" "\<not> isspace (hd (unwords (w # ws)))"
    by (cases ws; cases w; auto simp: tsdb_word_def)+
  with Cons next_word_unwords [OF Cons.prems] show ?case by (subst put_tags.simps) simp
qed

definition put_line :: "string \<times> string \<times> string \<times> string list \<Rightarrow> string" where
  "put_line x = (case x of (metric, ts, value, tags) \<Rightarrow> ''put '' @ unwords (metric # ts # value # tags))"

definition put_sample :: "string \<times> string \<times> string \<times> string list \<Rightarrow> pdu" where
  "put_sample x = (case x of (metric, ts, value, tags) \<Rightarrow>
     [''SAMPLE'', ts, concat (map (\<lambda>t. t @ '','') tags) @ ''metric='' @ metric, value])"

definition put_ok :: "string \<times> string \<times> string \<times> string list \<Rightarrow> bool" where
  "put_ok x = (case x of (metric, ts, value, tags) \<Rightarrow> list_all tsdb_word (metric # ts # value # tags))"

lemma s_send_put: "put_ok x \<Longrightarrow> s_send True (put_line x) = (0, Some (put_sample x))"
proof (cases x)
  case (fields m t v ts)
  assume "put_ok x"
  then have w: "list_all tsdb_word (m # t # v # ts)" "list_all tsdb_word (t # v # ts)" "list_all tsdb_word (v # ts)" "list_all tsdb_word ts"
    by (auto simp: fields put_ok_def)
  show ?thesis
    unfolding fields put_line_def put_sample_def s_send_def prod.case
    by (simp add: next_word_unwords [OF w(1)] next_word_unwords [OF w(2)] next_word_unwords [OF w(3)] put_tags_unwords [OF w(4)] del: unwords.simps)
qed

lemma unwords_chars: "list_all tsdb_word ws \<Longrightarrow> c \<in> set (unwords ws) \<Longrightarrow> c \<noteq> CHR 10 \<and> c \<noteq> NUL"
proof (induction ws rule: unwords.induct)
  case (3 w v ws)
  then show ?case by (auto simp: tsdb_word_def list_all_iff isspace_def)
qed (auto simp: tsdb_word_def list_all_iff isspace_def)

lemma put_line_plain: "put_ok x \<Longrightarrow> plain_line (put_line x)"
proof (cases x)
  case (fields m t v ts)
  assume "put_ok x"
  then have "list_all tsdb_word (m # t # v # ts)" by (simp add: fields put_ok_def)
  from unwords_chars [OF this] show ?thesis by (auto simp: fields put_line_def plain_line_def simp del: unwords.simps)
qed

text \<open>
  C39: a read that brings only complete \<open>put\<close> lines, however many, is submitted
  as one sample per line, in order, with the time and the value of the line and a name
  made of its tags and its metric, and leaves the connection ready for the next read.
\<close>

theorem opentsdb_lines:
  assumes "xs \<noteq> []" "list_all put_ok xs" "length (ended (map put_line xs)) \<le> 8189" "cl_nread c = 0" "length (cl_buffer c) = 8192"
  shows "\<exists>c'. client_read (\<lambda>l. True) (ended (map put_line xs)) c = Inr (c', map put_sample xs) \<and>
    cl_fd c' = cl_fd c \<and> cl_nread c' = 0 \<and> length (cl_buffer c') = 8192"
proof -
  have "list_all plain_line (map put_line xs)" using assms(2) put_line_plain by (induction xs) auto
  moreover have "sends (\<lambda>l. True) (map put_line xs) = map put_sample xs"
    using assms(2) s_send_put by (induction xs) (auto simp: sends_def)
  ultimately show ?thesis using client_read_ended [OF assms(4,5) _ _ assms(3), of "\<lambda>l. True"] assms(1) by auto
qed

definition blank_client :: client_t where
  "blank_client = \<lparr>cl_fd = 7, cl_buffer = replicate 8192 NUL, cl_nread = 0\<rparr>"

theorem opentsdb_lines_witness:
  "\<exists>c'. client_read (\<lambda>l. True) (ended [''put load.1m 1471535210 0.27 job=vault index=1'', ''put up 1471535211 1'']) blank_client =
    Inr (c', [[''SAMPLE'', ''1471535210'', ''job=vault,index=1,metric=load.1m'', ''0.27''], [''SAMPLE'', ''1471535211'', ''metric=up'', ''1'']])"
proof -
  let ?xs = "[(''load.1m'', ''1471535210'', ''0.27'', [''job=vault'', ''index=1'']), (''up'', ''1471535211'', ''1'', [])]"
  have l: "map put_line ?xs = [''put load.1m 1471535210 0.27 job=vault index=1'', ''put up 1471535211 1'']" by (simp add: put_line_def)
  have s: "map put_sample ?xs = [[''SAMPLE'', ''1471535210'', ''job=vault,index=1,metric=load.1m'', ''0.27''], [''SAMPLE'', ''1471535211'', ''metric=up'', ''1'']]"
    by (simp add: put_sample_def)
  have o: "list_all put_ok ?xs" by (simp add: put_ok_def tsdb_word_def isspace_def)
  have n: "length (ended (map put_line ?xs)) \<le> 8189" unfolding l by (simp add: ended_def)
  from opentsdb_lines [OF _ o n, of blank_client, unfolded l s] show ?thesis by (auto simp: blank_client_def)
qed


section \<open>A line that arrives in part\<close>

text \<open>
  C40: a read that brings two complete lines and a part of a third which is
  longer than the second and not longer than the first, where the first is not longer than
  both others together, makes the program take bytes left from an earlier move for a line, count
  below zero and copy beyond its buffer.
\<close>

theorem opentsdb_overrun:
  assumes "plain_line a" "plain_line b" "plain_line r" "length b < length r" "length r \<le> length a" "length a \<le> length b + length r"
    and "cl_nread c = 0" "length (cl_buffer c) = 8192" "length a + length b + length r + 2 \<le> 8189"
  shows "client_read ok (a @ [CHR 10] @ b @ [CHR 10] @ r) c = Inl OutOfBounds"
proof -
  let ?d = "a @ [CHR 10] @ b @ [CHR 10] @ r" and ?n = "length a + length b + length r + 2"
  obtain z where z: "(overlay ?d (cl_buffer c))[?n := NUL] = ?d @ NUL # z"
    using assms(8,9) by (simp add: overlay_def list_update_append upd_conv_take_nth_drop)
  define t where "t = drop (length b + length r - length a) b @ CHR 10 # r @ NUL # z"
  have m1: "take (Suc (length b + length r)) (b @ CHR 10 # r @ NUL # z) @ drop (Suc (length b + length r)) (a @ NUL # b @ CHR 10 # r @ NUL # z) =
    b @ CHR 10 # r @ t" using assms(4-6) by (simp add: t_def Suc_diff_le)
  define q where "q = r @ drop (length r - Suc (length b)) r @ drop (length b + length r - length a) b"
  have m2: "take (length r) (r @ t) @ drop (length r) (b @ NUL # r @ t) = q @ CHR 10 # r @ NUL # z"
    using less_imp_Suc_add [OF assms(4)] by (auto simp: t_def q_def)
  have pl: "plain_line q" "length r \<le> length q"
    using assms(2,3) by (auto simp: q_def plain_line_def dest: in_set_dropD)
  have n: "Suc (length b + length r) - Suc (length b) = length r" by simp
  have f: "find_eol (?d @ NUL # z) 0 = Some (length a)" using find_eol_line [OF assms(1)] by simp
  have "client_lines ok (?d @ NUL # z) ?n (Some (length a)) = Inl OutOfBounds"
  proof -
    have 1: "client_lines ok (?d @ NUL # z) ?n (Some (length a)) = bind_res (client_lines ok (b @ CHR 10 # r @ t) (Suc (length b + length r)) (Some (length b)))
      (\<lambda>(mem, nread, ps). Inr (mem, nread, sends ok [a] @ ps))"
      using client_lines_line [OF assms(1), of ?n "?d @ NUL # z" "b @ CHR 10 # r @ NUL # z" ok] m1 find_eol_line [OF assms(2), of "r @ t"] by simp
    have 2: "client_lines ok (b @ CHR 10 # r @ t) (Suc (length b + length r)) (Some (length b)) = Inl OutOfBounds"
      using client_lines_line [OF assms(2), of "Suc (length b + length r)" _ "r @ t" ok, OF _ refl,
        unfolded n m2 Let_def find_eol_line [OF pl(1)] client_lines_fault [OF pl(2)]] by simp
    show ?thesis unfolding 1 2 by simp
  qed
  then show ?thesis using assms(7,9) z f by (simp add: client_read_def Let_def add.assoc)
qed


theorem opentsdb_overrun_witness:
  "client_read (\<lambda>l. True) (''put load 1 2 a=b'' @ [CHR 10] @ ''put m 1 2'' @ [CHR 10] @ ''put load 1 2'') blank_client = Inl OutOfBounds"
  by (rule opentsdb_overrun) (simp_all add: plain_line_def blank_client_def)

end
