(* ===== verification/Bolo_Commands.thy ===== *)
theory Bolo_Commands
  imports Bolo_Pdu Bolo_Wire
begin

text \<open>
  The commands \<open>bolo send\<close>, \<open>bolo forget\<close>, \<open>bolo query\<close> and \<open>bolo tail\<close>
  (\<open>src/src/bolo/cmd_*.c\<close>) and the choice of the command (\<open>src/src/bolo/main.c\<close>). Sockets
  are given by what their calls return, a server by its replies; \<open>getopt_long\<close> by the
  options it returns, each with its argument, and the arguments that are left. Texts for
  the terminal other than results are left out.
\<close>

section \<open>Choosing a command\<close>

datatype bolo_command =
  Cmd_help nat | Cmd_version | Cmd_aggregator nat | Cmd_cache nat | Cmd_forget nat | Cmd_name nat | Cmd_query nat |
  Cmd_send nat | Cmd_spy nat | Cmd_tail nat | Cmd_fail

text \<open>The options before the command: where they end, and whether help or the version was asked for.\<close>

fun main_options :: "nat \<Rightarrow> string list \<Rightarrow> bool \<Rightarrow> bool \<Rightarrow> (nat \<times> bool \<times> bool) option" where
  "main_options i [] h v = Some (i, h, v)"
| "main_options i (a # as) h v =
     (if a = ''-h'' \<or> a = ''-?'' \<or> a = ''--help'' then main_options (Suc i) as True v
      else if a = ''-V'' \<or> a = ''--version'' then main_options (Suc i) as h True
      else if at_char a = CHR ''-'' then None
      else Some (i, h, v))"

text \<open>
  \<open>path\<close> is the array after \<open>readlink\<close>, if that succeeds; nothing ends the text in it.
\<close>

definition bolo_main :: "string option \<Rightarrow> string list \<Rightarrow> bolo_command" where
  "bolo_main path argv =
     (case path of
        None \<Rightarrow> Cmd_fail
      | Some p \<Rightarrow>
          if cstr p = ''/usr/sbin/bolo'' then Cmd_aggregator (length argv)
          else case main_options 1 (tl argv) False False of
              None \<Rightarrow> Cmd_fail
            | Some (i, h, v) \<Rightarrow>
                if h then Cmd_help i
                else if v then Cmd_version
                else if i = length argv then Cmd_help i
                else let a = argv ! i in
                  if a = ''help'' then Cmd_help i
                  else if a = ''version'' then Cmd_version
                  else if a = ''aggr'' \<or> a = ''aggregator'' then Cmd_aggregator i
                  else if a = ''cache'' then Cmd_cache i
                  else if a = ''forget'' then Cmd_forget i
                  else if a = ''name'' then Cmd_name i
                  else if a = ''query'' then Cmd_query i
                  else if a = ''send'' then Cmd_send i
                  else if a = ''spy'' then Cmd_spy i
                  else if a = ''tail'' then Cmd_tail i
                  else Cmd_fail)"

text \<open>The help of a command is its manual page; the exit code when \<open>man\<close> cannot be run.\<close>

definition cmd_help :: "nat \<Rightarrow> string list \<Rightarrow> int \<times> string option" where
  "cmd_help off argv = (if Suc off < length argv then (1, Some (''bolo-'' @ argv ! Suc off)) else (0, None))"

section \<open>bolo send\<close>

datatype send_type = TYPE_STREAM | TYPE_STATE | TYPE_COUNTER | TYPE_SAMPLE | TYPE_KEY | TYPE_EVENT | TYPE_RATE

definition send_type_of :: "string \<Rightarrow> send_type option" where
  "send_type_of s =
     (if strcaseeq s ''state'' then Some TYPE_STATE
      else if strcaseeq s ''counter'' then Some TYPE_COUNTER
      else if strcaseeq s ''sample'' then Some TYPE_SAMPLE
      else if strcaseeq s ''stream'' then Some TYPE_STREAM
      else if strcaseeq s ''key'' then Some TYPE_KEY
      else if strcaseeq s ''event'' then Some TYPE_EVENT
      else if strcaseeq s ''rate'' then Some TYPE_RATE
      else None)"

fun send_getopt :: "(char \<times> string) list \<Rightarrow> string \<times> send_type \<Rightarrow> int + string \<times> send_type" where
  "send_getopt [] opt = Inr opt"
| "send_getopt ((c, optarg) # os) (endpoint, type) =
     (if c = CHR ''e'' then send_getopt os (optarg, type)
      else if c = CHR ''t'' then case send_type_of optarg of None \<Rightarrow> Inl 1 | Some t \<Rightarrow> send_getopt os (endpoint, t)
      else Inl 1)"

text \<open>The PDU of the arguments; \<open>Inl\<close> is the exit code. A stream has none.\<close>

definition send_args :: "env \<Rightarrow> send_type \<Rightarrow> string list \<Rightarrow> (int + pdu option) res" where
  "send_args E type argv =
     (let usage = (\<lambda>p. case p of None \<Rightarrow> Inl 1 | Some p \<Rightarrow> Inr (Some p)) in
      case type of
        TYPE_STATE \<Rightarrow> Inr (usage (bolo_parse_state_pdu E argv None))
      | TYPE_COUNTER \<Rightarrow> Inr (usage (bolo_parse_counter_pdu E argv None))
      | TYPE_SAMPLE \<Rightarrow> Inr (usage (bolo_parse_sample_pdu E argv None))
      | TYPE_RATE \<Rightarrow> Inr (usage (bolo_parse_rate_pdu E argv None))
      | TYPE_STREAM \<Rightarrow> Inr (if argv \<noteq> [] then Inl 1 else Inr None)
      | TYPE_KEY \<Rightarrow> Inr (usage (bolo_parse_setkeys_pdu argv))
      | TYPE_EVENT \<Rightarrow> bind_res (bolo_parse_event_pdu E argv None) (\<lambda>p. Inr (usage p)))"

text \<open>\<open>ok\<close> tells for every PDU whether it can be sent; \<open>rc\<close> starts as what its memory holds.\<close>

definition send_pdu :: "(pdu \<Rightarrow> bool) \<Rightarrow> pdu \<Rightarrow> int \<times> pdu list" where
  "send_pdu ok p = (if ok p then (0, [p]) else (3, []))"

function send_stream :: "env \<Rightarrow> (pdu \<Rightarrow> bool) \<Rightarrow> string \<Rightarrow> int \<Rightarrow> (int \<times> pdu list) res" where
  "send_stream E ok content rc =
     (if content = [] then Inr (rc, [])
      else let buf = cstr (fst (fgets 8191 content));
               line = (case cut_last (CHR 10) buf of None \<Rightarrow> buf | Some (b, _) \<Rightarrow> b)
           in bind_res (bolo_stream_pdu E line) (\<lambda>p. case p of
                None \<Rightarrow> send_stream E ok (snd (fgets 8191 content)) rc
              | Some p \<Rightarrow>
                  let (rc, sent) = send_pdu ok p in
                  if rc \<noteq> 0 then Inr (rc, sent)
                  else bind_res (send_stream E ok (snd (fgets 8191 content)) rc) (\<lambda>(rc, ps). Inr (rc, sent @ ps))))"
  by pat_completeness auto

termination
  by (relation "measure (\<lambda>(E, ok, c, rc). length c)") (use fgets_shorter [of _ 8190] in auto)

declare send_stream.simps [simp del]

text \<open>The exit code of a connection to a server.\<close>

definition dial :: "env \<Rightarrow> string \<Rightarrow> int" where
  "dial E endpoint = (if \<not> sys_ok E Sys_zmq_ctx [] \<or> \<not> sys_ok E Sys_socket endpoint \<or> sys_rc E Sys_connect endpoint \<noteq> 0 then 3 else 0)"

definition cmd_send ::
  "env \<Rightarrow> (pdu \<Rightarrow> bool) \<Rightarrow> int \<Rightarrow> (char \<times> string) list \<Rightarrow> string list \<Rightarrow> string \<Rightarrow> (int \<times> pdu list) res" where
  "cmd_send E ok junk os argv input =
     (case send_getopt os (''tcp://127.0.0.1:2999'', TYPE_STREAM) of
        Inl rc \<Rightarrow> Inr (rc, [])
      | Inr (endpoint, type) \<Rightarrow>
          bind_res (send_args E type argv) (\<lambda>r. case r of
              Inl rc \<Rightarrow> Inr (rc, [])
            | Inr p \<Rightarrow>
                if dial E endpoint \<noteq> 0 then Inr (dial E endpoint, [])
                else case p of Some p \<Rightarrow> Inr (send_pdu ok p) | None \<Rightarrow> send_stream E ok input junk))"

section \<open>bolo forget\<close>

record forget_options =
  fo_endpoint :: "string option"
  fo_payload :: "16 word"
  fo_ignore :: byte

definition payload_of :: "string \<Rightarrow> 16 word option" where
  "payload_of s =
     (if strcaseeq s ''all'' then Some 0xffff
      else if strcaseeq s ''state'' then Some PAYLOAD_STATE
      else if strcaseeq s ''counter'' then Some PAYLOAD_COUNTER
      else if strcaseeq s ''sample'' then Some PAYLOAD_SAMPLE
      else if strcaseeq s ''rate'' then Some PAYLOAD_RATE
      else None)"

fun forget_getopt :: "(char \<times> string) list \<Rightarrow> forget_options \<Rightarrow> int + forget_options" where
  "forget_getopt [] opt = Inr opt"
| "forget_getopt ((c, optarg) # os) opt =
     (if c = CHR ''e'' then forget_getopt os (opt\<lparr>fo_endpoint := Some optarg\<rparr>)
      else if c = CHR ''t'' then
        case payload_of optarg of None \<Rightarrow> Inl 1 | Some b \<Rightarrow> forget_getopt os (opt\<lparr>fo_payload := fo_payload opt OR b\<rparr>)
      else if c = CHR ''i'' then forget_getopt os (opt\<lparr>fo_ignore := 1\<rparr>)
      else Inl 1)"

text \<open>
  The first argument that is left is copied even if there is none: the test before looks
  at \<open>optind\<close>, which is past the command at least.
\<close>

definition forget_request :: "(char \<times> string) list \<Rightarrow> string list \<Rightarrow> (int + string \<times> pdu) res" where
  "forget_request os argv =
     (case forget_getopt os \<lparr>fo_endpoint = None, fo_payload = 0, fo_ignore = 0\<rparr> of
        Inl rc \<Rightarrow> Inr (Inl rc)
      | Inr opt \<Rightarrow>
          (case argv of
             [] \<Rightarrow> Inl NullDeref
           | pattern # _ \<Rightarrow>
               let payload = (if fo_payload opt = 0 then 0xffff else fo_payload opt);
                   endpoint = (case fo_endpoint opt of None \<Rightarrow> ''tcp://127.0.0.1:2998'' | Some e \<Rightarrow> e)
               in Inr (Inr (endpoint, bolo_forget_pdu payload pattern (fo_ignore opt)))))"

text \<open>
  \<open>server\<close> gives the reply to a request; sending fails when \<open>ok\<close> says so. The text of an
  error is printed.
\<close>

definition cmd_forget ::
  "env \<Rightarrow> (pdu \<Rightarrow> bool) \<Rightarrow> (pdu \<Rightarrow> pdu option) \<Rightarrow> (char \<times> string) list \<Rightarrow> string list \<Rightarrow> int res" where
  "cmd_forget E ok server os argv =
     bind_res (forget_request os argv) (\<lambda>r. case r of
         Inl rc \<Rightarrow> Inr rc
       | Inr (endpoint, p) \<Rightarrow>
           if dial E endpoint \<noteq> 0 then Inr (dial E endpoint)
           else if \<not> ok p then Inr 3
           else case server p of None \<Rightarrow> Inr 3 | Some q \<Rightarrow>
             if hd q = ''ERROR'' then if length q < 2 then Inl NullDeref else Inr 1 else Inr 0)"

section \<open>bolo query\<close>

text \<open>
  Every line of the input is a command. Where a command takes a list of words, the frame
  added for each word is the text from the end of the word on, which is empty.
\<close>

datatype query_request = Ask_nothing | Ask pdu

definition query_word :: "string \<Rightarrow> string \<times> string" where
  "query_word s = (takeWhile (\<lambda>c. \<not> isspace c) s, dropWhile isspace (dropWhile (\<lambda>c. \<not> isspace c) s))"

function query_words :: "string \<Rightarrow> nat" where
  "query_words c = (if c = [] \<or> isspace (hd c) then 0 else Suc (query_words (snd (query_word c))))"
  by pat_completeness auto

termination
proof (relation "measure length")
  fix c :: string
  assume "\<not> (c = [] \<or> isspace (hd c))"
  then show "(snd (query_word c), c) \<in> measure length"
    by (cases c) (auto simp: query_word_def less_Suc_eq_le intro: le_trans [OF length_dropWhile_le length_dropWhile_le])
qed simp

declare query_words.simps [simp del]

definition query_one :: "string \<Rightarrow> string \<Rightarrow> query_request" where
  "query_one type c =
     (let c = dropWhile isspace c; (arg, rest) = query_word c in if c = [] \<or> rest \<noteq> [] then Ask_nothing else Ask [type, arg])"

definition query_list :: "string \<Rightarrow> string \<Rightarrow> query_request" where
  "query_list type c =
     (let c = dropWhile isspace c in if c = [] then Ask_nothing else Ask (type # replicate (query_words c) []))"

definition query_line :: "string \<Rightarrow> query_request" where
  "query_line line =
     (let a = dropWhile isspace (cstr line) in
      if a = [] \<or> hd a = CHR ''#'' then Ask_nothing
      else let cmd = takeWhile (\<lambda>c. \<not> isspace c) a; c = tl (dropWhile (\<lambda>c. \<not> isspace c) a) in
        if strcaseeq cmd ''stat'' then query_one ''GET.STATE'' c
        else if strcaseeq cmd ''set.keys'' then
          if query_words (dropWhile isspace c) mod 2 \<noteq> 0 then Ask_nothing else query_list ''SET.KEYS'' c
        else if strcaseeq cmd ''get.keys'' then query_list ''GET.KEYS'' c
        else if strcaseeq cmd ''del.keys'' then query_list ''DEL.KEYS'' c
        else if strcaseeq cmd ''search.keys'' then query_one ''SEARCH.KEYS'' c
        else if strcaseeq cmd ''get.events'' then Ask [''GET.EVENTS'', if c = [] then ''0'' else takeWhile isdigit c]
        else if strcaseeq cmd ''dump'' then Ask [''DUMP'']
        else Ask_nothing)"

text \<open>
  What is printed for a reply, or the exit code for one of an unknown type. A frame that
  is not there is a null pointer.
\<close>

fun query_pairs :: "string list \<Rightarrow> string list res" where
  "query_pairs [] = Inr []"
| "query_pairs [k] = Inl NullDeref"
| "query_pairs (k # v # rest) = bind_res (query_pairs rest) (\<lambda>ls. Inr ((k @ '' = '' @ v) # ls))"

definition query_answer :: "pdu \<Rightarrow> pdu \<Rightarrow> (int + string list) res" where
  "query_answer request p =
     (if hd p = ''ERROR'' then if length p < 2 then Inl NullDeref else Inr (Inr [])
      else if hd request = ''GET.STATE'' then
        if hd p \<noteq> ''STATE'' then Inr (Inl 4)
        else if length p < 6 then Inl NullDeref
        else Inr (Inr [unwords [p ! 1, p ! 2, p ! 3, p ! 4, p ! 5]])
      else if hd request = ''GET.KEYS'' then bind_res (query_pairs (tl p)) (\<lambda>ls. Inr (Inr ls))
      else if hd request = ''SEARCH.KEYS'' then Inr (Inr (tl p))
      else if hd request = ''GET.EVENTS'' then
        if hd p \<noteq> ''EVENTS'' then Inr (Inl 4) else if length p < 2 then Inl NullDeref else Inr (Inr [p ! 1])
      else if hd request = ''DUMP'' then
        if hd p \<noteq> ''DUMP'' then Inr (Inl 4) else if length p < 2 then Inl NullDeref else Inr (Inr [p ! 1])
      else Inr (Inr []))"

text \<open>
  The loop over the input. \<open>server\<close> gives the reply to a request in its state: none means
  that receiving fails. The result is the exit code and the lines printed.
\<close>

function query_loop ::
  "(pdu \<Rightarrow> bool) \<Rightarrow> ('s \<Rightarrow> pdu \<Rightarrow> 's \<times> pdu option) \<Rightarrow> 's \<Rightarrow> string \<Rightarrow> (int \<times> 's \<times> string list) res" where
  "query_loop ok server s content =
     (if content = [] then Inr (0, s, [])
      else case query_line (fst (fgets 8191 content)) of
          Ask_nothing \<Rightarrow> query_loop ok server s (snd (fgets 8191 content))
        | Ask p \<Rightarrow>
            if \<not> ok p then Inr (3, s, [])
            else case server s p of
                (s, None) \<Rightarrow> Inr (3, s, [])
              | (s, Some q) \<Rightarrow>
                  bind_res (query_answer p q) (\<lambda>r. case r of
                      Inl rc \<Rightarrow> Inr (rc, s, [])
                    | Inr ls \<Rightarrow> bind_res (query_loop ok server s (snd (fgets 8191 content))) (\<lambda>(rc, s, ms). Inr (rc, s, ls @ ms))))"
  by pat_completeness auto

termination
  by (relation "measure (\<lambda>(ok, sv, s, c). length c)") (use fgets_shorter [of _ 8190] in auto)

declare query_loop.simps [simp del]

text \<open>The option for the endpoint is followed by the branch for unknown options, so any option ends the command.\<close>

definition cmd_query ::
  "env \<Rightarrow> (pdu \<Rightarrow> bool) \<Rightarrow> ('s \<Rightarrow> pdu \<Rightarrow> 's \<times> pdu option) \<Rightarrow> 's \<Rightarrow> (char \<times> string) list \<Rightarrow> string \<Rightarrow> (int \<times> 's \<times> string list) res" where
  "cmd_query E ok server s os input =
     (if os \<noteq> [] then Inr (1, s, [])
      else if dial E ''tcp://127.0.0.1:2998'' \<noteq> 0 then Inr (3, s, [])
      else query_loop ok server s input)"

section \<open>bolo tail\<close>

record tail_options =
  ta_endpoint :: string
  ta_verbose :: "32 word"
  ta_match :: string
  ta_mask :: "32 word"

abbreviation (input) MASK_STATE :: "32 word" where "MASK_STATE \<equiv> 0x01"
abbreviation (input) MASK_TRANSITION :: "32 word" where "MASK_TRANSITION \<equiv> 0x02"
abbreviation (input) MASK_EVENT :: "32 word" where "MASK_EVENT \<equiv> 0x04"
abbreviation (input) MASK_RATE :: "32 word" where "MASK_RATE \<equiv> 0x08"
abbreviation (input) MASK_COUNTER :: "32 word" where "MASK_COUNTER \<equiv> 0x10"
abbreviation (input) MASK_SAMPLE :: "32 word" where "MASK_SAMPLE \<equiv> 0x20"

definition tail_bit :: "char \<Rightarrow> 32 word option" where
  "tail_bit c =
     (if c = CHR ''T'' then Some MASK_TRANSITION
      else if c = CHR ''R'' then Some MASK_RATE
      else if c = CHR ''A'' then Some MASK_STATE
      else if c = CHR ''C'' then Some MASK_COUNTER
      else if c = CHR ''E'' then Some MASK_EVENT
      else if c = CHR ''S'' then Some MASK_SAMPLE
      else None)"

fun tail_getopt :: "(char \<times> string) list \<Rightarrow> tail_options \<Rightarrow> int + tail_options" where
  "tail_getopt [] opt = Inr opt"
| "tail_getopt ((c, optarg) # os) opt =
     (if c = CHR ''h'' \<or> c = CHR 0x3F \<or> c = CHR ''V'' then Inl 0
      else if c = CHR ''v'' then tail_getopt os (opt\<lparr>ta_verbose := ta_verbose opt + 1\<rparr>)
      else if c = CHR ''e'' then tail_getopt os (opt\<lparr>ta_endpoint := optarg\<rparr>)
      else if c = CHR ''m'' then tail_getopt os (opt\<lparr>ta_match := optarg\<rparr>)
      else case tail_bit c of None \<Rightarrow> Inl 1 | Some b \<Rightarrow> tail_getopt os (opt\<lparr>ta_mask := ta_mask opt OR b\<rparr>))"

definition tail_wants :: "32 word \<Rightarrow> string \<Rightarrow> bool" where
  "tail_wants wanted type \<longleftrightarrow>
     wanted AND MASK_STATE \<noteq> 0 \<and> type = ''STATE'' \<or> wanted AND MASK_TRANSITION \<noteq> 0 \<and> type = ''TRANSITION'' \<or>
     wanted AND MASK_EVENT \<noteq> 0 \<and> type = ''EVENT'' \<or> wanted AND MASK_RATE \<noteq> 0 \<and> type = ''RATE'' \<or>
     wanted AND MASK_COUNTER \<noteq> 0 \<and> type = ''COUNTER'' \<or> wanted AND MASK_SAMPLE \<noteq> 0 \<and> type = ''SAMPLE''"

definition s_print :: "env \<Rightarrow> tail_options \<Rightarrow> pdu \<Rightarrow> string list res" where
  "s_print E opt p =
     (let i = (if hd p = ''TRANSITION'' \<or> hd p = ''STATE'' then 1 else 2) in
      if length p \<le> i then Inl NullDeref
      else Inr (if pcre_exec E (ta_match opt) (p ! i) = 0 then [unwords p] else []))"

fun tail_loop :: "env \<Rightarrow> tail_options \<Rightarrow> pdu list \<Rightarrow> string list res" where
  "tail_loop E opt [] = Inr []"
| "tail_loop E opt (p # ps) =
     bind_res (if tail_wants (ta_mask opt) (hd p) then s_print E opt p else Inr []) (\<lambda>ls.
     bind_res (tail_loop E opt ps) (\<lambda>ms. Inr (ls @ ms)))"

definition cmd_tail :: "env \<Rightarrow> (char \<times> string) list \<Rightarrow> pdu list \<Rightarrow> (int \<times> string list) res" where
  "cmd_tail E os ps =
     (case tail_getopt os \<lparr>ta_endpoint = ''tcp://127.0.0.1:2997'', ta_verbose = 0, ta_match = ''.'', ta_mask = 0\<rparr> of
        Inl rc \<Rightarrow> Inr (rc, [])
      | Inr opt \<Rightarrow>
          let opt = (if ta_mask opt = 0 then opt\<lparr>ta_mask := 0x3f\<rparr> else opt) in
          if pcre_compile E (ta_match opt) \<noteq> None then Inr (1, [])
          else if \<not> sys_ok E Sys_zmq_ctx [] \<or> \<not> sys_ok E Sys_socket (ta_endpoint opt) \<or>
            sys_rc E Sys_setsockopt (ta_endpoint opt) \<noteq> 0 \<or> sys_rc E Sys_connect (ta_endpoint opt) \<noteq> 0 then Inr (3, [])
          else bind_res (tail_loop E opt ps) (\<lambda>ls. Inr (0, ls)))"

section \<open>Forgetting from the command line\<close>

definition forget_ok :: "char \<times> string \<Rightarrow> bool" where
  "forget_ok = (\<lambda>(c, arg). c = CHR ''e'' \<or> c = CHR ''i'' \<or> c = CHR ''t'' \<and> payload_of arg \<noteq> None)"

definition kind_bits :: "(string \<times> 16 word) list" where
  "kind_bits = [(''state'', PAYLOAD_STATE), (''counter'', PAYLOAD_COUNTER), (''sample'', PAYLOAD_SAMPLE), (''rate'', PAYLOAD_RATE)]"

lemma payload_bit:
  assumes "payload_of arg = Some b" "(kind, t) \<in> set kind_bits"
  shows "b AND t \<noteq> 0 \<longleftrightarrow> strcaseeq arg ''all'' \<or> strcaseeq arg kind"
  using assms by (auto simp: payload_of_def kind_bits_def strcaseeq_def split: if_splits)

lemma payload_nonzero: "payload_of arg = Some b \<Longrightarrow> b \<noteq> 0"
  by (auto simp: payload_of_def split: if_splits)

definition names_kind :: "(char \<times> string) list \<Rightarrow> string \<Rightarrow> bool" where
  "names_kind os kind \<longleftrightarrow> list_ex (\<lambda>(c, arg). c = CHR ''t'' \<and> (strcaseeq arg ''all'' \<or> strcaseeq arg kind)) os"

text \<open>The kinds the options select: those they name, or all if they name none.\<close>

definition chosen :: "(char \<times> string) list \<Rightarrow> string \<Rightarrow> bool" where
  "chosen os kind \<longleftrightarrow> \<not> list_ex (\<lambda>(c, arg). c = CHR ''t'') os \<or> names_kind os kind"

lemma forget_getopt_ok: "list_all forget_ok os \<Longrightarrow> \<exists>opt'. forget_getopt os opt = Inr opt'"
  by (induction os opt rule: forget_getopt.induct) (auto simp: forget_ok_def)

lemma forget_getopt_ignore:
  "forget_getopt os opt = Inr opt' \<Longrightarrow> fo_ignore opt' = (if list_ex (\<lambda>(c, arg). c = CHR ''i'') os then 1 else fo_ignore opt)"
  by (induction os opt rule: forget_getopt.induct) (auto split: if_splits option.splits)

lemma forget_getopt_none:
  "forget_getopt os opt = Inr opt' \<Longrightarrow> fo_payload opt' = 0 \<longleftrightarrow> fo_payload opt = 0 \<and> \<not> list_ex (\<lambda>(c, arg). c = CHR ''t'') os"
  by (induction os opt rule: forget_getopt.induct) (auto simp: or_eq_0_iff dest: payload_nonzero split: if_splits option.splits)

lemma forget_getopt_bits:
  assumes "forget_getopt os opt = Inr opt'" "(kind, t) \<in> set kind_bits"
  shows "fo_payload opt' AND t \<noteq> 0 \<longleftrightarrow> fo_payload opt AND t \<noteq> 0 \<or> names_kind os kind"
  using assms(1)
proof (induction os opt rule: forget_getopt.induct)
  case (2 c arg os opt)
  have "(fo_payload opt OR b) AND t \<noteq> 0 \<longleftrightarrow> fo_payload opt AND t \<noteq> 0 \<or> strcaseeq arg ''all'' \<or> strcaseeq arg kind"
    if "payload_of arg = Some b" for b
    using payload_bit [OF that assms(2)] by (simp add: bit.conj_disj_distrib2 or_eq_0_iff)
  with 2 show ?case by (auto simp: names_kind_def split: if_splits option.splits)
qed (simp add: names_kind_def)

text \<open>The command asks the kernel for what its options and its argument say.\<close>

lemma forget_request_ok:
  assumes "list_all forget_ok os"
  obtains endpoint payload where "forget_request os (pattern # rest) = Inr (Inr (endpoint,
      bolo_forget_pdu payload pattern (if list_ex (\<lambda>(c, arg). c = CHR ''i'') os then 1 else 0)))"
    "\<And>kind t. (kind, t) \<in> set kind_bits \<Longrightarrow> payload_is payload t \<longleftrightarrow> chosen os kind"
proof -
  let ?o = "\<lparr>fo_endpoint = None, fo_payload = 0, fo_ignore = 0\<rparr>"
  obtain opt where o: "forget_getopt os ?o = Inr opt" using forget_getopt_ok [OF assms] by blast
  note b = forget_getopt_bits [OF o, simplified] and n = forget_getopt_none [OF o, simplified] and i = forget_getopt_ignore [OF o, simplified]
  let ?p = "if fo_payload opt = 0 then 0xffff else fo_payload opt"
  have "payload_is ?p t \<longleftrightarrow> chosen os kind" if k: "(kind, t) \<in> set kind_bits" for kind t
  proof (cases "fo_payload opt = 0")
    case True
    with n k show ?thesis by (auto simp: payload_is_def chosen_def kind_bits_def)
  next
    case False
    with b [OF k] n show ?thesis by (auto simp: payload_is_def chosen_def word_gt_0)
  qed
  then show ?thesis by (intro that [of _ ?p]) (simp_all add: forget_request_def o i Let_def)
qed

definition kernel_answer :: "env \<Rightarrow> kernel_t \<Rightarrow> pdu \<Rightarrow> pdu option" where
  "kernel_answer E K p = (case kernel_reactor E S_management p K of Inr (v, K', [Reply q]) \<Rightarrow> Some q | _ \<Rightarrow> None)"

text \<open>
  C14: \<open>bolo forget\<close> run against the kernel succeeds and touches no data
  points but those the command line selects: of each kind the options name, or of all kinds, those whose
  name matches the pattern. With \<open>-i\<close> exactly these are marked ignored. Without it, of these
  exactly the ones are removed that the walk over the hash table meets (\<open>met\<close>); the walk
  removes entries while it goes, and which keys it then meets is up to the library.
\<close>

theorem forget_command:
  assumes "visits_all E" "pcre_compile E pattern = None" "list_all forget_ok os" "\<forall>e. dial E e = 0"
    and "hit = (\<lambda>kind k. chosen os kind \<and> pcre_exec E pattern k = 0)" "ignore = (list_ex (\<lambda>(c, arg). c = CHR ''i'') os)" "d = k_db K"
  shows "cmd_forget E (\<lambda>p. True) (kernel_answer E K) os (pattern # rest) = Inr 0 \<and>
    (\<exists>endpoint p d'. forget_request os (pattern # rest) = Inr (Inr (endpoint, p)) \<and>
      kernel_reactor E S_management p K = Inr (CONTINUE, set_db d' K, [Reply [''OK'']]) \<and>
      left_over ignore (hit ''state'') (met E H_states pattern (states d)) (\<lambda>x. x\<lparr>state_ignore := 1\<rparr>) (states d) (states d') \<and>
      left_over ignore (hit ''counter'') (met E H_counters pattern (counters d)) (\<lambda>x. x\<lparr>counter_ignore := 1\<rparr>) (counters d) (counters d') \<and>
      left_over ignore (hit ''sample'') (met E H_samples pattern (samples d)) (\<lambda>x. x\<lparr>sample_ignore := 1\<rparr>) (samples d) (samples d') \<and>
      left_over ignore (hit ''rate'') (met E H_rates pattern (rates d)) (\<lambda>x. x\<lparr>rate_ignore := 1\<rparr>) (rates d) (rates d') \<and>
      events d' = events d)"
proof -
  let ?i = "(if ignore then 1 else 0) :: byte"
  obtain endpoint payload where r: "forget_request os (pattern # rest) = Inr (Inr (endpoint, bolo_forget_pdu payload pattern ?i))"
    "\<And>kind t. (kind, t) \<in> set kind_bits \<Longrightarrow> payload_is payload t \<longleftrightarrow> chosen os kind"
    using forget_request_ok [OF assms(3)] unfolding assms(6) by blast
  let ?p = "bolo_forget_pdu payload pattern ?i" and ?d = "forget E payload pattern ?i (k_db K)"
  have u: "unat payload < 2 ^ 64" "unat ?i < 2 ^ 64" using unsigned_less [where 'a = nat and w = payload] unsigned_less [where 'a = nat and w = ?i] by simp_all
  have k: "kernel_reactor E S_management ?p K = Inr (CONTINUE, set_db ?d K, [Reply [''OK'']])"
    using u by (simp add: kernel_reactor_def management_def pdu_is_def mgmt_forget_def bolo_forget_pdu_def assms(2) ucast_narrow Let_def)
  then have c: "cmd_forget E (\<lambda>p. True) (kernel_answer E K) os (pattern # rest) = Inr 0"
    by (simp add: cmd_forget_def r(1) assms(4) kernel_answer_def)
  have i: "?i \<noteq> 0 \<longleftrightarrow> ignore" by simp
  note p = r(2) [of "''state''"] r(2) [of "''counter''"] r(2) [of "''sample''"] r(2) [of "''rate''"]
  note f = forget_selected [OF assms(1) refl refl, where payload = payload and pattern = pattern and ign = ?i and d = "k_db K", unfolded i]
  show ?thesis
    by (intro conjI exI, rule c, rule r(1), rule k)
      (use f p in \<open>simp_all add: assms(5,7) kind_bits_def\<close>)
qed

theorem forget_command_witness:
  "cmd_forget plain_env (\<lambda>p. True) (kernel_answer plain_env (blank_kernel demo_server)) [(CHR ''t'', ''counter'')] [''c''] = Inr 0 \<and>
    (\<exists>endpoint p d'. forget_request [(CHR ''t'', ''counter'')] [''c''] = Inr (Inr (endpoint, p)) \<and>
      kernel_reactor plain_env S_management p (blank_kernel demo_server) =
        Inr (CONTINUE, set_db d' (blank_kernel demo_server), [Reply [''OK'']]) \<and> fmlookup (counters d') ''c'' = None)"
proof -
  let ?os = "[(CHR ''t'', ''counter'')]"
  have d: "\<forall>e. dial plain_env e = 0" by (simp add: dial_def)
  have o: "list_all forget_ok ?os" "chosen ?os ''counter''" "pcre_compile plain_env ''c'' = None" "pcre_exec plain_env ''c'' ''c'' = 0"
    by (simp_all add: forget_ok_def payload_of_def chosen_def names_kind_def strcaseeq_def plain_env_def)
  note f = forget_command [OF plain_env_visits_all(2) o(3,1) d refl refl refl, of "blank_kernel demo_server" "[]"]
  from f obtain endpoint p d' where
    "forget_request ?os [''c''] = Inr (Inr (endpoint, p))"
    "kernel_reactor plain_env S_management p (blank_kernel demo_server) = Inr (CONTINUE, set_db d' (blank_kernel demo_server), [Reply [''OK'']])"
    "left_over (list_ex (\<lambda>(c, arg). c = CHR ''i'') ?os) (\<lambda>k. chosen ?os ''counter'' \<and> pcre_exec plain_env ''c'' k = 0)
      (met plain_env H_counters ''c'' (counters (k_db (blank_kernel demo_server)))) (\<lambda>x. x\<lparr>counter_ignore := 1\<rparr>) (counters (k_db (blank_kernel demo_server))) (counters d')" by (elim exE conjE)
  moreover have "''c'' \<in> met plain_env H_counters ''c'' (counters demo_db)" by (simp add: met_def plain_env_def demo_db_def)
  with calculation(3) o(2,4) have "fmlookup (counters d') ''c'' = None" by (simp add: left_over_def)
  ultimately show ?thesis using f by blast
qed

section \<open>Requests that go wrong\<close>

text \<open>
  Note: \<open>stat\<close> asks for \<open>GET.STATE\<close>, which the kernel does not answer, and \<open>get.keys\<close> asks for
  the empty key, whatever keys were given.
\<close>

lemma query_words_one:
  assumes "w \<noteq> []" "list_all (\<lambda>c. \<not> isspace c) w"
  shows "query_words w = 1"
proof -
  have "dropWhile (\<lambda>c. \<not> isspace c) w = []" "\<not> isspace (hd w)" using assms by (auto simp: list_all_iff)
  then have "snd (query_word w) = []" unfolding query_word_def by (simp only: snd_conv dropWhile.simps)
  then show ?thesis using assms(1) \<open>\<not> isspace (hd w)\<close> by (simp add: query_words.simps)
qed

lemma query_stat_unanswered: "kernel_answer E K [''GET.STATE'', s] = None"
  by (simp add: kernel_answer_def kernel_reactor_def management_def pdu_is_def)

lemma query_get_keys:
  assumes "w \<noteq> []" "list_all (\<lambda>c. \<not> isspace c \<and> c \<noteq> NUL) w"
  shows "query_line (''get.keys '' @ w) = Ask [''GET.KEYS'', []]"
proof -
  have c: "cstr (''get.keys '' @ w) = ''get.keys '' @ w" using assms(2) by (intro cstr_id) (auto simp: cstring_def list_all_iff)
  have s: "dropWhile isspace w = w" using assms by (cases w) auto
  have "query_words w = 1" using assms by (intro query_words_one) (auto simp: list_all_iff)
  with assms(1) show ?thesis unfolding query_line_def c using s by (simp add: isspace_def [of "CHR ''g''"] isspace_def [of "CHR ''e''"] isspace_def [of "CHR ''t''"] isspace_def [of "CHR ''.''"]
      isspace_def [of "CHR ''k''"] isspace_def [of "CHR ''y''"] isspace_def [of "CHR ''s''"] isspace_def [of "CHR '' ''"] strcaseeq_def tolower_def query_list_def Let_def)
qed

end
