(* ===== verification/Bolo_Spy.thy ===== *)
theory Bolo_Spy
  imports Bolo_Aggregator Bolo_Restart "HOL-Library.Multiset"
begin

text \<open>
  The command \<open>bolo spy\<close> (\<open>src/src/bolo/cmd_spy.c\<close>): it reads a configuration and a save
  file and prints every data point, sorted by name and kind.

  \<open>strings_sort\<close> is a parameter. \<open>box\<close> allocates the size of a pointer for a record of two
  words; the model keeps the record. Texts on standard error and the help text are left out.
\<close>

section \<open>Data points with their keys\<close>

datatype boxed_t = BOXED_STATE state_t | BOXED_SAMPLE sample_t | BOXED_COUNTER counter_t | BOXED_RATE rate_t

definition box :: "boxed_t \<Rightarrow> string \<Rightarrow> string list \<times> (string, boxed_t) fmap \<Rightarrow> string list \<times> (string, boxed_t) fmap" where
  "box b key = (\<lambda>(sort, index). (sort @ [key], fmupd key b index))"

fun box_key :: "boxed_t \<Rightarrow> string" where
  "box_key (BOXED_STATE s) = state_name s @ '' (state)''"
| "box_key (BOXED_COUNTER c) = counter_name c @ '' (counter)''"
| "box_key (BOXED_RATE r) = rate_name r @ '' (rate)''"
| "box_key (BOXED_SAMPLE m) = sample_name m @ '' (sample)''"

text \<open>The data points in the order of the four loops.\<close>

definition db_boxes :: "env \<Rightarrow> db_t \<Rightarrow> boxed_t list" where
  "db_boxes E d =
     map BOXED_STATE (table_entries E H_states (states d)) @
     map BOXED_COUNTER (table_entries E H_counters (counters d)) @
     map BOXED_RATE (table_entries E H_rates (rates d)) @
     map BOXED_SAMPLE (table_entries E H_samples (samples d))"

definition box_all :: "env \<Rightarrow> db_t \<Rightarrow> string list \<times> (string, boxed_t) fmap" where
  "box_all E d = fold (\<lambda>b. box b (box_key b)) (db_boxes E d) ([], fmempty)"

section \<open>Printing\<close>

definition STATUS :: "byte \<Rightarrow> string res" where
  "STATUS s = (if 3 < s then Inl OutOfBounds else Inr ([''OK'', ''WARNING'', ''CRITICAL'', ''UNKNOWN''] ! unat s))"

definition spy_state :: "bool \<Rightarrow> state_t \<Rightarrow> string list res" where
  "spy_state yaml s =
     bind_res (STATUS (state_status s)) (\<lambda>status.
       Inr (if yaml then
         [state_name s @ '':'', ''  type:      state'', ''  status:    '' @ status, ''  code:      '' @ dec (unat (state_status s)),
          ''  stale:     '' @ (if state_stale s \<noteq> 0 then ''yes'' else ''no''),
          ''  freshness: '' @ dec (unat (freshness (state_type s))),
          ''  last_seen: '' @ show_int (sint (state_last_seen s)), ''  expiry:    '' @ show_int (sint (state_expiry s)),
          ''  summary: |-'', ''    '' @ state_summary s, []]
       else
         [''state :: '' @ state_name s,
          ''  ['' @ dec (unat (state_status s)) @ ''] '' @ (if state_stale s \<noteq> 0 then ''(stale) '' else []) @ status @ '' - '' @ state_summary s,
          ''  last seen '' @ show_int (sint (state_last_seen s)) @ '' / expires '' @ show_int (sint (state_expiry s)),
          ''  freshness '' @ dec (unat (freshness (state_type s))), []]))"

text \<open>In the YAML form the line for the maximum shows the minimum.\<close>

definition spy_sample :: "env \<Rightarrow> bool \<Rightarrow> sample_t \<Rightarrow> string list" where
  "spy_sample E yaml m =
     (let e = (\<lambda>x. fmt_e E (Finite x)); n = dec (unat (sample_n m)); w = show_int (sint (window_time (sample_window m)));
          t = show_int (sint (sample_last_seen m))
      in if yaml then
        [sample_name m @ '':'', ''  type:      sample'', ''  n:         '' @ n, ''  min:       '' @ e (sample_min m),
         ''  max:       '' @ e (sample_min m), ''  mean:      '' @ e (sample_mean m), ''  sum:       '' @ e (sample_sum m),
         ''  var:       '' @ e (sample_var m), ''  window:    '' @ w, ''  last_seen: '' @ t, []]
      else
        [''sample :: '' @ sample_name m,
         ''  n='' @ n @ '' min='' @ e (sample_min m) @ '' max='' @ e (sample_max m) @ '' sum='' @ e (sample_sum m) @
           '' mean='' @ e (sample_mean m) @ '' var='' @ e (sample_var m),
         ''  window '' @ w, ''  last seen '' @ t, []])"

definition spy_counter :: "bool \<Rightarrow> counter_t \<Rightarrow> string list" where
  "spy_counter yaml c =
     (let v = dec (unat (counter_value c)); w = show_int (sint (window_time (counter_window c))); t = show_int (sint (counter_last_seen c))
      in if yaml then
        [counter_name c @ '':'', ''  type:      counter'', ''  value:     '' @ v, ''  window:    '' @ w, ''  last_seen: '' @ t, []]
      else
        [''counter :: '' @ counter_name c @ '' = '' @ v, ''  window '' @ w, ''  last seen '' @ t, []])"

definition spy_rate :: "bool \<Rightarrow> rate_t \<Rightarrow> string list" where
  "spy_rate yaml r =
     (let a = dec (unat (rate_first r)); b = dec (unat (rate_last r)); w = show_int (sint (window_time (rate_window r)));
          s = show_int (sint (rate_first_seen r)); t = show_int (sint (rate_last_seen r))
      in if yaml then
        [rate_name r @ '':'', ''  type:        rate'', ''  first_value: '' @ a, ''  last_value:  '' @ b, ''  window:      '' @ w,
         ''  first_seen:  '' @ s, ''  last_seen:   '' @ t, []]
      else
        [''rate :: '' @ rate_name r @ '' ( '' @ a @ '' : '' @ b @ '' )'', ''  window '' @ w,
         ''  first seen '' @ s @ '' / last seen '' @ t, []])"

fun print_box :: "env \<Rightarrow> bool \<Rightarrow> boxed_t \<Rightarrow> string list res" where
  "print_box E yaml (BOXED_STATE s) = spy_state yaml s"
| "print_box E yaml (BOXED_SAMPLE m) = Inr (spy_sample E yaml m)"
| "print_box E yaml (BOXED_COUNTER c) = Inr (spy_counter yaml c)"
| "print_box E yaml (BOXED_RATE r) = Inr (spy_rate yaml r)"

fun print_boxes :: "env \<Rightarrow> bool \<Rightarrow> (string, boxed_t) fmap \<Rightarrow> string list \<Rightarrow> string list res" where
  "print_boxes E yaml index [] = Inr []"
| "print_boxes E yaml index (k # ks) =
     (case fmlookup index k of
        None \<Rightarrow> Inl NullDeref
      | Some b \<Rightarrow> bind_res (print_box E yaml b) (\<lambda>ls. bind_res (print_boxes E yaml index ks) (\<lambda>ms. Inr (ls @ ms))))"

definition spy_report :: "env \<Rightarrow> (string list \<Rightarrow> string list) \<Rightarrow> bool \<Rightarrow> db_t \<Rightarrow> string list res" where
  "spy_report E strings_sort yaml d = (let (sort, index) = box_all E d in print_boxes E yaml index (strings_sort sort))"

section \<open>The command\<close>

record spy_options =
  spy_config_file :: string
  spy_yaml :: bool

fun spy_getopt :: "(char \<times> string) list \<Rightarrow> spy_options \<Rightarrow> int + spy_options" where
  "spy_getopt [] opt = Inr opt"
| "spy_getopt ((c, optarg) # os) opt =
     (if c = CHR ''h'' \<or> c = CHR 0x3F then Inl 0
      else if c = CHR ''c'' then spy_getopt os (opt\<lparr>spy_config_file := optarg\<rparr>)
      else if c = CHR ''Y'' then spy_getopt os (opt\<lparr>spy_yaml := True\<rparr>)
      else Inl 1)"

definition spy_server :: server_t where
  "spy_server = \<lparr>s_db = empty_db, s_keys = fmempty,
     s_config = (s_config default_server)\<lparr>c_keysfile := None, c_grace_period := 0\<rparr>,
     s_interval = \<lparr>i_tick = 0, i_freshness = 0, i_sweep = 0, i_savestate = 0\<rparr>\<rparr>"

text \<open>The exit code and the lines on standard output.\<close>

definition cmd_spy :: "nat \<Rightarrow> env \<Rightarrow> (string list \<Rightarrow> string list) \<Rightarrow> (char \<times> string) list \<Rightarrow> string list \<Rightarrow> (int \<times> string list) res option" where
  "cmd_spy fuel E strings_sort os args =
     (case spy_getopt os \<lparr>spy_config_file = ''/etc/bolo.conf'', spy_yaml = False\<rparr> of
        Inl rc \<Rightarrow> Some (Inr (rc, []))
      | Inr opt \<Rightarrow>
          (case args of
             [savedb] \<Rightarrow>
               map_option (\<lambda>r. bind_res r (\<lambda>(rc, S).
                 if rc \<noteq> 0 then Inr (2, [])
                 else bind_res (binf_read E (s_db S) savedb (c_save_size (s_config S))) (\<lambda>(rc, d).
                   if rc \<noteq> 0 then Inr (2, [])
                   else bind_res (spy_report E strings_sort (spy_yaml opt) d) (\<lambda>ls. Inr (0, ls)))))
               (configure fuel E (spy_config_file opt) spy_server)
           | _ \<Rightarrow> Some (Inr (1, []))))"

section \<open>What is printed of a data point\<close>

text \<open>
  A description of the output apart from the code. In the YAML form an entry is the name, then fields with their values
  in one column, then an empty line. In the other form it is a title with the kind and the name, and indented lines.
\<close>

fun point_kind :: "boxed_t \<Rightarrow> string" where
  "point_kind (BOXED_STATE _) = ''state''"
| "point_kind (BOXED_SAMPLE _) = ''sample''"
| "point_kind (BOXED_COUNTER _) = ''counter''"
| "point_kind (BOXED_RATE _) = ''rate''"

fun point_name :: "boxed_t \<Rightarrow> string" where
  "point_name (BOXED_STATE s) = state_name s"
| "point_name (BOXED_SAMPLE m) = sample_name m"
| "point_name (BOXED_COUNTER c) = counter_name c"
| "point_name (BOXED_RATE r) = rate_name r"

definition point_rank :: "boxed_t \<Rightarrow> string" where
  "point_rank b = point_name b @ '' ('' @ point_kind b @ '')''"

definition status_word :: "byte \<Rightarrow> string" where
  "status_word s = (if s = 0 then ''OK'' else if s = 1 then ''WARNING'' else if s = 2 then ''CRITICAL'' else ''UNKNOWN'')"

definition int_text :: "32 word \<Rightarrow> string" where
  "int_text w = show_int (sint w)"

definition real_text :: "env \<Rightarrow> real \<Rightarrow> string" where
  "real_text E x = fmt_e E (Finite x)"

text \<open>The fields of the YAML form; the value of \<open>max\<close> is the minimum, as the code has it.\<close>

fun yaml_fields :: "env \<Rightarrow> boxed_t \<Rightarrow> (string \<times> string) list" where
  "yaml_fields E (BOXED_STATE s) =
     [(''status'', status_word (state_status s)), (''code'', dec (unat (state_status s))),
      (''stale'', if state_stale s = 0 then ''no'' else ''yes''), (''freshness'', dec (unat (freshness (state_type s)))),
      (''last_seen'', int_text (state_last_seen s)), (''expiry'', int_text (state_expiry s))]"
| "yaml_fields E (BOXED_SAMPLE m) =
     [(''n'', dec (unat (sample_n m))), (''min'', real_text E (sample_min m)), (''max'', real_text E (sample_min m)),
      (''mean'', real_text E (sample_mean m)), (''sum'', real_text E (sample_sum m)), (''var'', real_text E (sample_var m)),
      (''window'', int_text (window_time (sample_window m))), (''last_seen'', int_text (sample_last_seen m))]"
| "yaml_fields E (BOXED_COUNTER c) =
     [(''value'', dec (unat (counter_value c))), (''window'', int_text (window_time (counter_window c))),
      (''last_seen'', int_text (counter_last_seen c))]"
| "yaml_fields E (BOXED_RATE r) =
     [(''first_value'', dec (unat (rate_first r))), (''last_value'', dec (unat (rate_last r))),
      (''window'', int_text (window_time (rate_window r))), (''first_seen'', int_text (rate_first_seen r)),
      (''last_seen'', int_text (rate_last_seen r))]"

definition yaml_line :: "nat \<Rightarrow> string \<times> string \<Rightarrow> string" where
  "yaml_line column = (\<lambda>(field, text). ''  '' @ field @ '':'' @ replicate (column - length field) (CHR '' '') @ text)"

fun text_body :: "env \<Rightarrow> boxed_t \<Rightarrow> string \<times> string list" where
  "text_body E (BOXED_STATE s) = ([],
     [''['' @ dec (unat (state_status s)) @ ''] '' @ (if state_stale s = 0 then [] else ''(stale) '') @
        status_word (state_status s) @ '' - '' @ state_summary s,
      ''last seen '' @ int_text (state_last_seen s) @ '' / expires '' @ int_text (state_expiry s),
      ''freshness '' @ dec (unat (freshness (state_type s)))])"
| "text_body E (BOXED_SAMPLE m) = ([],
     [''n='' @ dec (unat (sample_n m)) @ concat (map (\<lambda>(field, x). CHR '' '' # field @ CHR ''='' # real_text E x)
        [(''min'', sample_min m), (''max'', sample_max m), (''sum'', sample_sum m), (''mean'', sample_mean m), (''var'', sample_var m)]),
      ''window '' @ int_text (window_time (sample_window m)), ''last seen '' @ int_text (sample_last_seen m)])"
| "text_body E (BOXED_COUNTER c) = ('' = '' @ dec (unat (counter_value c)),
     [''window '' @ int_text (window_time (counter_window c)), ''last seen '' @ int_text (counter_last_seen c)])"
| "text_body E (BOXED_RATE r) = ('' ( '' @ dec (unat (rate_first r)) @ '' : '' @ dec (unat (rate_last r)) @ '' )'',
     [''window '' @ int_text (window_time (rate_window r)),
      ''first seen '' @ int_text (rate_first_seen r) @ '' / last seen '' @ int_text (rate_last_seen r)])"

definition entry_text :: "env \<Rightarrow> bool \<Rightarrow> boxed_t \<Rightarrow> string list" where
  "entry_text E yaml b =
     (if yaml then
        [point_name b @ '':''] @
        map (yaml_line (case b of BOXED_RATE _ \<Rightarrow> 12 | _ \<Rightarrow> 10)) ((''type'', point_kind b) # yaml_fields E b) @
        (case b of BOXED_STATE s \<Rightarrow> [''  summary: |-'', ''    '' @ state_summary s] | _ \<Rightarrow> []) @ [[]]
      else
        [point_kind b @ '' :: '' @ point_name b @ fst (text_body E b)] @ map ((@) ''  '') (snd (text_body E b)) @ [[]])"

definition bad_status :: "boxed_t \<Rightarrow> bool" where
  "bad_status b = (case b of BOXED_STATE s \<Rightarrow> 3 < state_status s | _ \<Rightarrow> False)"

lemma box_key_rank: "box_key b = point_rank b"
  by (cases b) (simp_all add: point_rank_def)

lemma status_cases: "(s :: byte) \<le> 3 \<Longrightarrow> s = 0 \<or> s = 1 \<or> s = 2 \<or> s = 3"
  by (simp add: word_le_nat_alt word_unat_eq_iff) linarith

lemma STATUS_word: "STATUS s = (if 3 < s then Inl OutOfBounds else Inr (status_word s))"
  using status_cases [of s] by (auto simp: STATUS_def status_word_def not_less)

lemma print_box_text: "print_box E yaml b = (if bad_status b then Inl OutOfBounds else Inr (entry_text E yaml b))"
proof (cases b)
  case (BOXED_STATE s)
  then show ?thesis
    by (cases "3 < state_status s")
      (simp_all add: bad_status_def STATUS_word spy_state_def entry_text_def
        yaml_line_def int_text_def numeral_eq_Suc)
qed (simp_all add: bad_status_def spy_sample_def spy_counter_def spy_rate_def entry_text_def
  yaml_line_def int_text_def real_text_def Let_def numeral_eq_Suc)

section \<open>Every data point is printed once, in order\<close>

lemma box_fold:
  "fold (\<lambda>b. box b (box_key b)) bs (keys, index) = (keys @ map box_key bs, fold (\<lambda>b. fmupd (box_key b) b) bs index)"
  by (induction bs arbitrary: keys index) (simp_all add: box_def)

lemma index_lookup:
  "distinct (map box_key bs) \<Longrightarrow> b \<in> set bs \<Longrightarrow> fmlookup (fold (\<lambda>b. fmupd (box_key b) b) bs index) (box_key b) = Some b"
proof (induction bs arbitrary: index)
  case (Cons a bs)
  have "box_key b \<notin> box_key ` set bs \<Longrightarrow> fmlookup (fold (\<lambda>b. fmupd (box_key b) b) bs i) (box_key b) = fmlookup i (box_key b)" for i
    by (induction bs arbitrary: i) auto
  with Cons show ?case by auto
qed simp

lemma print_boxes_all:
  assumes "\<forall>b \<in> set bs. fmlookup index (box_key b) = Some b"
  shows "print_boxes E yaml index (map box_key bs) =
    (if \<exists>b \<in> set bs. bad_status b then Inl OutOfBounds else Inr (concat (map (entry_text E yaml) bs)))"
  using assms by (induction bs) (simp_all add: print_box_text)

text \<open>The kind at the end of a key keeps data points of different kinds apart.\<close>

lemma kinds_differ [simp]:
  "a @ '' (state)'' \<noteq> b @ '' (counter)''" "a @ '' (state)'' \<noteq> b @ '' (rate)''" "a @ '' (state)'' \<noteq> b @ '' (sample)''"
  "a @ '' (counter)'' \<noteq> b @ '' (rate)''" "a @ '' (counter)'' \<noteq> b @ '' (sample)''" "a @ '' (rate)'' \<noteq> b @ '' (sample)''"
  by (auto dest: arg_cong [of _ _ rev])

lemma box_keys_distinct:
  assumes "visits_all E" "wf_db d"
  shows "distinct (map box_key (db_boxes E d))"
proof -
  note n = wf_dbD [OF assms(2), unfolded state_ok_def counter_ok_def sample_entry_ok_def rate_ok_def, THEN conjunct1]
  have "distinct (map state_name (table_entries E H_states (states d)))"
    "distinct (map counter_name (table_entries E H_counters (counters d)))"
    "distinct (map sample_name (table_entries E H_samples (samples d)))"
    "distinct (map rate_name (table_entries E H_rates (rates d)))"
    by (rule table_entries_keys(1) [OF assms(1)], use n in blast)+
  then show ?thesis
    by (auto simp: db_boxes_def distinct_map comp_def inj_on_def simp del: append.simps dest: sym [of "_ @ _" "_ @ _"])
qed

lemma table_entries_ran:
  assumes "visits_all E"
  shows "set (table_entries E h t) = fmran' t"
  using visits_allD [OF assms, of h "fmdom t"]
  by (auto simp: table_entries_def List.map_filter_def fmran'_def fmlookup_dom'_iff intro!: rev_image_eqI intro: fmdomI)

lemma db_boxes_set:
  assumes "visits_all E"
  shows "set (db_boxes E d) = BOXED_STATE ` fmran' (states d) \<union> BOXED_COUNTER ` fmran' (counters d) \<union>
    BOXED_RATE ` fmran' (rates d) \<union> BOXED_SAMPLE ` fmran' (samples d)"
  by (auto simp: db_boxes_def table_entries_ran [OF assms])

text \<open>
  C38: on a well-formed database in which no state has a status above 3 \<open>bolo spy\<close> prints every
  state, counter, rate and sample exactly once, each as \<open>entry_text\<close> describes it in the form asked for, in the
  order of their names followed by their kinds. When a state has a status above 3, as a pending one has, the array of
  names is read out of bounds instead. \<open>strings_sort\<close> is only assumed to sort.
\<close>

theorem spy_sorted:
  assumes "visits_all E" "wf_db d" "\<forall>xs. sorted (strings_sort xs) \<and> mset (strings_sort xs) = mset xs"
  shows "if \<exists>s \<in> fmran' (states d). 3 < state_status s then spy_report E strings_sort yaml d = Inl OutOfBounds
    else \<exists>bs. spy_report E strings_sort yaml d = Inr (concat (map (entry_text E yaml) bs)) \<and>
      sorted (map (\<lambda>b. point_name b @ '' ('' @ point_kind b @ '')'') bs) \<and> distinct bs \<and>
      set bs = BOXED_STATE ` fmran' (states d) \<union> BOXED_COUNTER ` fmran' (counters d) \<union>
        BOXED_RATE ` fmran' (rates d) \<union> BOXED_SAMPLE ` fmran' (samples d)"
proof -
  let ?bs = "db_boxes E d"
  let ?index = "fold (\<lambda>b. fmupd (box_key b) b) ?bs fmempty"
  have d: "distinct (map box_key ?bs)" by (rule box_keys_distinct [OF assms(1,2)])
  have a: "box_all E d = (map box_key ?bs, ?index)" by (simp add: box_all_def box_fold)
  define bs where "bs = map (\<lambda>k. the (fmlookup ?index k)) (strings_sort (map box_key ?bs))"
  have "mset bs = mset (map (\<lambda>k. the (fmlookup ?index k)) (map box_key ?bs))" using assms(3) by (simp add: bs_def multiset.map_comp)
  also have "map (\<lambda>k. the (fmlookup ?index k)) (map box_key ?bs) = ?bs" using index_lookup [OF d] by (simp add: map_idI)
  finally have m: "mset bs = mset ?bs" .
  then have set: "set bs = set ?bs" and dist: "distinct bs" using d by (auto simp: distinct_map dest: mset_eq_setD mset_eq_imp_distinct_iff)
  have k: "map box_key bs = strings_sort (map box_key ?bs)"
    unfolding bs_def map_map comp_def
  proof (rule map_idI)
    fix k
    assume "k \<in> set (strings_sort (map box_key ?bs))"
    moreover have "set (strings_sort (map box_key ?bs)) = set (map box_key ?bs)" using assms(3) mset_eq_setD by blast
    ultimately show "box_key (the (fmlookup ?index k)) = k" using index_lookup [OF d] by fastforce
  qed
  have s: "set bs = BOXED_STATE ` fmran' (states d) \<union> BOXED_COUNTER ` fmran' (counters d) \<union>
      BOXED_RATE ` fmran' (rates d) \<union> BOXED_SAMPLE ` fmran' (samples d)"
    unfolding set by (rule db_boxes_set [OF assms(1)])
  have "map point_rank bs = map box_key bs" by (simp add: box_key_rank)
  then have "sorted (map point_rank bs)" using assms(3) k by simp
  moreover have "spy_report E strings_sort yaml d =
      (if \<exists>b \<in> set bs. bad_status b then Inl OutOfBounds else Inr (concat (map (entry_text E yaml) bs)))"
    using print_boxes_all [of bs ?index E yaml] index_lookup [OF d] set by (simp add: spy_report_def a k)
  moreover have "(\<exists>b \<in> set bs. bad_status b) \<longleftrightarrow> (\<exists>s \<in> fmran' (states d). 3 < state_status s)"
    unfolding s by (simp add: bad_status_def bex_Un)
  ultimately show ?thesis using s dist by (auto simp: point_rank_def [abs_def])
qed

theorem spy_sorted_witness:
  "\<exists>bs. spy_report plain_env sort True demo_db = Inr (concat (map (entry_text plain_env True) bs)) \<and>
    sorted (map (\<lambda>b. point_name b @ '' ('' @ point_kind b @ '')'') bs) \<and> distinct bs \<and>
    set bs = BOXED_STATE ` fmran' (states demo_db) \<union> BOXED_COUNTER ` fmran' (counters demo_db) \<union>
      BOXED_RATE ` fmran' (rates demo_db) \<union> BOXED_SAMPLE ` fmran' (samples demo_db)"
proof -
  have "\<forall>xs :: string list. sorted (sort xs) \<and> mset (sort xs) = mset xs" by simp
  moreover have "\<not> (\<exists>s \<in> fmran' (states demo_db). 3 < state_status s)"
    by (auto simp: demo_db_def fmran'_def split: if_splits)
  ultimately show ?thesis using spy_sorted [OF plain_env_visits_all(2) demo_wf, of sort True] by presburger
qed

end
