(* ===== verification/Bolo_Slack.thy ===== *)
theory Bolo_Slack
  imports Bolo_Outputs
begin

text \<open>
  The subscriber \<open>bolo2slack\<close> (\<open>src/src/bolo2slack/main.c\<close>): it sends a message to a webhook
  for every transition of a state. The request is built byte by byte in memory of a
  computed size.

  The HTTP library is a parameter: the sizes of the buffers it offers when it asks for the
  body, and whether the transfer succeeds. \<open>fill\<close> gives the bytes of new memory. Sockets
  are given by what their calls return; log texts and help texts are left out.
\<close>

section \<open>The request\<close>

abbreviation (input) backslash :: char where "backslash \<equiv> CHR 0x5C"
abbreviation (input) quote :: char where "quote \<equiv> CHR 0x22"

fun quoted_len :: "bool \<Rightarrow> string \<Rightarrow> nat" where
  "quoted_len esc [] = 0"
| "quoted_len esc (c # cs) =
     (if \<not> esc \<and> c = quote then 1 else 0) + (if c = CHR 10 \<or> c = CHR 9 \<or> c = CHR 13 then 1 else 0) + 1 + quoted_len (c = backslash) cs"

definition s_quotedlen :: "string \<Rightarrow> nat" where
  "s_quotedlen s = quoted_len False s"

definition poke :: "nat \<Rightarrow> char \<Rightarrow> string \<Rightarrow> string res" where
  "poke i c mem = (if i < length mem then Inr (mem[i := c]) else Inl OutOfBounds)"

definition copy_at :: "nat \<Rightarrow> string \<Rightarrow> string \<Rightarrow> string res" where
  "copy_at i s mem = (if i + length s \<le> length mem then Inr (take i mem @ s @ drop (i + length s) mem) else Inl OutOfBounds)"

definition escape :: "char \<Rightarrow> char option" where
  "escape c = (if c = CHR 10 then Some (CHR ''n'') else if c = CHR 13 then Some (CHR ''r'')
     else if c = CHR 9 then Some (CHR ''t'') else if c = quote then Some quote else None)"

fun s_quotedcopy :: "string \<Rightarrow> string \<Rightarrow> nat \<Rightarrow> nat \<Rightarrow> (string \<times> nat) res" where
  "s_quotedcopy mem [] n len = Inr (mem, n)"
| "s_quotedcopy mem (c # cs) n len =
     (if len \<le> n then Inr (mem, n)
      else case escape c of
          None \<Rightarrow> bind_res (poke n c mem) (\<lambda>mem. s_quotedcopy mem cs (n + 1) len)
        | Some e \<Rightarrow>
            bind_res (poke n backslash mem) (\<lambda>mem.
              if n + 1 = len then Inr (mem, n + 1)
              else bind_res (poke (n + 1) e mem) (\<lambda>mem.
                if n + 2 = len then Inr (mem, n + 2) else s_quotedcopy mem cs (n + 2) len)))"

record request_t =
  rq_json :: string
  rq_len :: nat
  rq_sent :: nat

definition request_len :: "string \<Rightarrow> string \<Rightarrow> string \<Rightarrow> string \<Rightarrow> nat" where
  "request_len avatar username channel message =
     1 + 14 + s_quotedlen avatar + 2 + 12 + s_quotedlen username + 2 + 11 + s_quotedlen channel + 2 + 8 + s_quotedlen message + 1 + 1"

text \<open>One member: the text before the value, and the value.\<close>

definition put_member :: "nat \<Rightarrow> string \<times> nat \<Rightarrow> string \<Rightarrow> string \<Rightarrow> (string \<times> nat) res" where
  "put_member len = (\<lambda>(mem, n) label value.
     bind_res (copy_at n label mem) (\<lambda>mem. s_quotedcopy mem value (n + length label) len))"

definition s_new_request :: "(nat \<Rightarrow> string) \<Rightarrow> string \<Rightarrow> string \<Rightarrow> string \<Rightarrow> string \<Rightarrow> request_t res" where
  "s_new_request fill avatar username channel message =
     (let len = request_len avatar username channel message in
      bind_res (poke 0 (CHR ''{'') (fill (len + 1))) (\<lambda>mem.
      bind_res (put_member len (mem, 1) ([quote] @ ''icon_emoji'' @ [quote] @ '':'' @ [quote]) avatar) (\<lambda>s.
      bind_res (put_member len s ([quote] @ '','' @ [quote] @ ''username'' @ [quote] @ '':'' @ [quote]) username) (\<lambda>s.
      bind_res (put_member len s ([quote] @ '','' @ [quote] @ ''channel'' @ [quote] @ '':'' @ [quote]) channel) (\<lambda>s.
      bind_res (put_member len s ([quote] @ '','' @ [quote] @ ''text'' @ [quote] @ '':'' @ [quote]) message) (\<lambda>(mem, n).
      bind_res (poke n quote mem) (\<lambda>mem.
      bind_res (poke (n + 1) (CHR ''}'') mem) (\<lambda>mem.
      Inr \<lparr>rq_json = mem, rq_len = len, rq_sent = 0\<rparr>))))))))"

text \<open>What the HTTP library gets for a buffer of a given size.\<close>

definition s_slack_reader :: "nat \<Rightarrow> request_t \<Rightarrow> request_t \<times> string" where
  "s_slack_reader room r =
     (if rq_len r = rq_sent r then (r, [])
      else let sent = min room (rq_len r - rq_sent r)
           in (r\<lparr>rq_sent := rq_sent r + sent\<rparr>, take sent (drop (rq_sent r) (rq_json r))))"

fun slack_reads :: "nat list \<Rightarrow> request_t \<Rightarrow> string" where
  "slack_reads [] r = []"
| "slack_reads (room # sizes) r = (let (r, s) = s_slack_reader room r in s @ slack_reads sizes r)"

section \<open>Notifications\<close>

record slack_options =
  sk_endpoint :: string
  sk_verbose :: "32 word"
  sk_daemonize :: bool
  sk_pidfile :: string
  sk_user :: string
  sk_group :: string
  sk_match :: string
  sk_webhook :: "string option"
  sk_username :: string
  sk_channel :: "string option"
  sk_avatar :: string

datatype slack_post = Slack_post string string

text \<open>\<open>webhook\<close> and \<open>channel\<close> are set before the first PDU is received.\<close>

definition s_notify :: "env \<Rightarrow> (nat \<Rightarrow> string) \<Rightarrow> nat list \<Rightarrow> slack_options \<Rightarrow> string \<Rightarrow> string \<Rightarrow> pdu \<Rightarrow> slack_post list res" where
  "s_notify E fill sizes opt webhook channel p =
     (let name = p ! 1; code = p ! 4; summary = p ! 5 in
      if pcre_exec E (sk_match opt) name = 0 then
        let message = name @ '' is now *'' @ code @ ''*'' @ [CHR 10] @ ''> '' @ summary @ [CHR 10] in
        bind_res (s_new_request fill (sk_avatar opt) (sk_username opt) channel message) (\<lambda>r.
          Inr [Slack_post webhook (slack_reads sizes r)])
      else Inr [])"

definition slack_pdu :: "env \<Rightarrow> (nat \<Rightarrow> string) \<Rightarrow> nat list \<Rightarrow> slack_options \<Rightarrow> string \<Rightarrow> string \<Rightarrow> pdu \<Rightarrow> slack_post list res" where
  "slack_pdu E fill sizes opt webhook channel p =
     (if hd p = ''TRANSITION'' \<and> length p = 6 then s_notify E fill sizes opt webhook channel p else Inr [])"

fun slack_loop ::
  "env \<Rightarrow> (nat \<Rightarrow> string) \<Rightarrow> slack_options \<Rightarrow> string \<Rightarrow> string \<Rightarrow> (nat list \<times> pdu) list \<Rightarrow> slack_post list res" where
  "slack_loop E fill opt webhook channel [] = Inr []"
| "slack_loop E fill opt webhook channel ((sizes, p) # ms) =
     bind_res (slack_pdu E fill sizes opt webhook channel p) (\<lambda>xs.
     bind_res (slack_loop E fill opt webhook channel ms) (\<lambda>ys. Inr (xs @ ys)))"

definition slack_defaults :: slack_options where
  "slack_defaults = \<lparr>sk_endpoint = ''tcp://127.0.0.1:2997'', sk_verbose = 0, sk_daemonize = True,
     sk_pidfile = ''/var/run/bolo2slack.pid'', sk_user = ''root'', sk_group = ''root'', sk_match = ''.'', sk_webhook = None,
     sk_username = ''bolo'', sk_channel = None, sk_avatar = '':robot_face:''\<rparr>"

fun slack_getopt :: "(char \<times> string) list \<Rightarrow> slack_options \<Rightarrow> int + slack_options" where
  "slack_getopt [] opt = Inr opt"
| "slack_getopt ((c, optarg) # os) opt =
     (if c = CHR ''h'' \<or> c = CHR 0x3F \<or> c = CHR ''V'' then Inl 0
      else if c = CHR ''v'' then slack_getopt os (opt\<lparr>sk_verbose := sk_verbose opt + 1\<rparr>)
      else if c = CHR ''e'' then slack_getopt os (opt\<lparr>sk_endpoint := optarg\<rparr>)
      else if c = CHR ''F'' then slack_getopt os (opt\<lparr>sk_daemonize := False\<rparr>)
      else if c = CHR ''p'' then slack_getopt os (opt\<lparr>sk_pidfile := optarg\<rparr>)
      else if c = CHR ''u'' then slack_getopt os (opt\<lparr>sk_user := optarg\<rparr>)
      else if c = CHR ''g'' then slack_getopt os (opt\<lparr>sk_group := optarg\<rparr>)
      else if c = CHR ''m'' then slack_getopt os (opt\<lparr>sk_match := optarg\<rparr>)
      else if c = CHR ''U'' then slack_getopt os (opt\<lparr>sk_webhook := Some optarg\<rparr>)
      else if c = CHR ''C'' then slack_getopt os (opt\<lparr>sk_channel := Some optarg\<rparr>)
      else if c = CHR ''N'' then slack_getopt os (opt\<lparr>sk_username := optarg\<rparr>)
      else if c = CHR ''A'' then slack_getopt os (opt\<lparr>sk_avatar := optarg\<rparr>)
      else Inl 1)"

text \<open>\<open>curl\<close> tells whether the HTTP library could be set up.\<close>

definition bolo2slack_main ::
  "env \<Rightarrow> (nat \<Rightarrow> string) \<Rightarrow> bool \<Rightarrow> (char \<times> string) list \<Rightarrow> (nat list \<times> pdu) list \<Rightarrow> (int \<times> slack_post list) res" where
  "bolo2slack_main E fill curl os ms =
     (case slack_getopt os slack_defaults of
        Inl rc \<Rightarrow> Inr (rc, [])
      | Inr opt \<Rightarrow>
          (case (sk_channel opt, sk_webhook opt) of
             (Some channel, Some webhook) \<Rightarrow>
               if sk_daemonize opt \<and> sys_rc E Sys_daemonize (sk_pidfile opt) \<noteq> 0 then Inr (3, [])
               else if pcre_compile E (sk_match opt) \<noteq> None then Inr (1, [])
               else if \<not> curl then Inr (3, [])
               else if plain_socket E (sk_endpoint opt) \<noteq> 0 then Inr (plain_socket E (sk_endpoint opt), [])
               else bind_res (slack_loop E fill opt webhook channel ms) (\<lambda>xs. Inr (0, xs))
           | _ \<Rightarrow> Inr (1, [])))"

section \<open>The request is well-formed JSON\<close>

definition json_quote :: "string \<Rightarrow> string" where
  "json_quote s = concat (map (\<lambda>c. case escape c of None \<Rightarrow> [c] | Some e \<Rightarrow> [backslash, e]) s)"

text \<open>A reader of JSON, as far as objects of strings go: the value and what follows it.\<close>

definition json_unescape :: "char \<Rightarrow> char option" where
  "json_unescape e = (if e = CHR ''n'' then Some (CHR 10) else if e = CHR ''r'' then Some (CHR 13)
     else if e = CHR ''t'' then Some (CHR 9) else if e = quote \<or> e = backslash \<or> e = CHR ''/'' then Some e else None)"

fun json_string :: "string \<Rightarrow> (string \<times> string) option" where
  "json_string [] = None"
| "json_string [c] = (if c = quote then Some ([], []) else None)"
| "json_string (c # e # cs) =
     (if c = quote then Some ([], e # cs)
      else if c = backslash then
        case json_unescape e of None \<Rightarrow> None | Some x \<Rightarrow> map_option (\<lambda>(s, r). (x # s, r)) (json_string cs)
      else if (of_char c :: nat) < 32 then None
      else map_option (\<lambda>(s, r). (c # s, r)) (json_string (e # cs)))"

definition json_member :: "string \<Rightarrow> ((string \<times> string) \<times> string) option" where
  "json_member s =
     (if at_char s \<noteq> quote then None
      else case json_string (tl s) of
          None \<Rightarrow> None
        | Some (k, r) \<Rightarrow>
            if take 2 r \<noteq> '':'' @ [quote] then None
            else map_option (\<lambda>(v, r). ((k, v), r)) (json_string (drop 2 r)))"

fun json_members :: "nat \<Rightarrow> string \<Rightarrow> (string \<times> string) list option" where
  "json_members 0 s = None"
| "json_members (Suc n) s =
     (case json_member s of
        None \<Rightarrow> None
      | Some (m, r) \<Rightarrow> if r = ''}'' then Some [m] else if at_char r = CHR '','' then map_option ((#) m) (json_members n (tl r)) else None)"

definition json_object :: "string \<Rightarrow> (string \<times> string) list option" where
  "json_object s = (if at_char s = CHR ''{'' then json_members (length s) (tl s) else None)"

definition slack_char :: "char \<Rightarrow> bool" where
  "slack_char c \<longleftrightarrow> c \<noteq> backslash \<and> (32 \<le> (of_char c :: nat) \<or> c = CHR 10 \<or> c = CHR 13 \<or> c = CHR 9)"

lemma json_quote_simps [simp]:
  "json_quote [] = []" "json_quote (c # cs) = (case escape c of None \<Rightarrow> [c] | Some e \<Rightarrow> [backslash, e]) @ json_quote cs"
  by (simp_all add: json_quote_def)

lemma json_string_plain: "c \<noteq> quote \<Longrightarrow> c \<noteq> backslash \<Longrightarrow> 32 \<le> (of_char c :: nat) \<Longrightarrow>
    json_string (c # cs) = map_option (\<lambda>(s, r). (c # s, r)) (json_string cs)"
  by (cases cs) auto

lemma json_string_quote: "list_all slack_char s \<Longrightarrow> json_string (json_quote s @ quote # r) = Some (s, r)"
proof (induction s)
  case Nil
  then show ?case by (cases r) simp_all
next
  case (Cons c s)
  show ?case
  proof (cases "escape c")
    case None
    with Cons.prems have "c \<noteq> quote" "c \<noteq> backslash" "32 \<le> (of_char c :: nat)" by (auto simp: escape_def slack_char_def split: if_splits)
    with None Cons show ?thesis by (simp add: json_string_plain)
  next
    case (Some e)
    then have "json_unescape e = Some c" by (auto simp: escape_def json_unescape_def split: if_splits)
    with Some Cons show ?thesis by simp
  qed
qed

definition slack_json :: "string \<Rightarrow> string \<Rightarrow> string \<Rightarrow> string \<Rightarrow> string" where
  "slack_json avatar username channel message =
     ''{'' @ ([quote] @ ''icon_emoji'' @ [quote] @ '':'' @ [quote]) @ json_quote avatar @
     ([quote] @ '','' @ [quote] @ ''username'' @ [quote] @ '':'' @ [quote]) @ json_quote username @
     ([quote] @ '','' @ [quote] @ ''channel'' @ [quote] @ '':'' @ [quote]) @ json_quote channel @
     ([quote] @ '','' @ [quote] @ ''text'' @ [quote] @ '':'' @ [quote]) @ json_quote message @ [quote] @ ''}''"

lemma json_member_quote:
  assumes "list_all slack_char v" "list_all slack_char k" "json_quote k = k"
  shows "json_member (quote # k @ quote # CHR '':'' # quote # json_quote v @ quote # r) = Some ((k, v), r)"
  using json_string_quote [OF assms(2), of "CHR '':'' # quote # json_quote v @ quote # r"] json_string_quote [OF assms(1), of r] assms(3)
  by (simp add: json_member_def at_char_def)

lemma slack_json_object:
  assumes "list_all slack_char a" "list_all slack_char u" "list_all slack_char c" "list_all slack_char m"
  shows "json_object (slack_json a u c m) = Some [(''icon_emoji'', a), (''username'', u), (''channel'', c), (''text'', m)]"
proof -
  have "4 \<le> length (slack_json a u c m)" by (simp add: slack_json_def)
  then obtain n where "length (slack_json a u c m) = 4 + n" using le_Suc_ex by blast
  then have n: "length (slack_json a u c m) = Suc (Suc (Suc (Suc n)))" by simp
  have k: "list_all slack_char ''icon_emoji''" "json_quote ''icon_emoji'' = ''icon_emoji''"
    "list_all slack_char ''username''" "json_quote ''username'' = ''username''"
    "list_all slack_char ''channel''" "json_quote ''channel'' = ''channel''"
    "list_all slack_char ''text''" "json_quote ''text'' = ''text''"
    by (simp_all add: slack_char_def escape_def)
  note q = json_member_quote [OF assms(1) k(1,2), simplified] json_member_quote [OF assms(2) k(3,4), simplified]
    json_member_quote [OF assms(3) k(5,6), simplified] json_member_quote [OF assms(4) k(7,8), simplified]
  show ?thesis unfolding json_object_def n by (simp add: slack_json_def at_char_def q)
qed

lemma escape_facts: "escape c = Some e \<Longrightarrow> c \<noteq> backslash"
  by (auto simp: escape_def split: if_splits)

lemma s_quotedlen_quote: "backslash \<notin> set s \<Longrightarrow> s_quotedlen s = length (json_quote s)"
proof -
  have "quoted_len False s = length (json_quote s)" if "backslash \<notin> set s" for s
    using that by (induction s) (auto simp: escape_def)
  then show "backslash \<notin> set s \<Longrightarrow> ?thesis" by (simp add: s_quotedlen_def)
qed

text \<open>The copy writes the quoted text behind the first \<open>n\<close> bytes.\<close>

definition written :: "nat \<Rightarrow> string \<Rightarrow> string \<Rightarrow> string" where
  "written n s mem = take n mem @ s @ drop (n + length s) mem"

lemma poke_written: "n < length mem \<Longrightarrow> poke n c mem = Inr (written n [c] mem)"
  by (simp add: poke_def written_def upd_conv_take_nth_drop)

lemma written_written: "n + length s \<le> length mem \<Longrightarrow> written (n + length s) t (written n s mem) = written n (s @ t) mem"
  by (simp add: written_def ac_simps)

lemma written_length [simp]: "n + length s \<le> length mem \<Longrightarrow> length (written n s mem) = length mem"
  by (simp add: written_def)

lemma copy_at_written: "n + length s \<le> length mem \<Longrightarrow> copy_at n s mem = Inr (written n s mem)"
  by (simp add: copy_at_def written_def)

lemma written_nil [simp]: "written n [] mem = mem"
  by (simp add: written_def)

lemma quotedcopy_fits:
  "n + length (json_quote s) \<le> len \<Longrightarrow> len \<le> length mem \<Longrightarrow>
    s_quotedcopy mem s n len = Inr (written n (json_quote s) mem, n + length (json_quote s))"
proof (induction s arbitrary: n mem)
  case (Cons c s)
  show ?case
  proof (cases "escape c")
    case None
    with Cons.prems Cons.IH [of "n + 1" "written n [c] mem"] written_written [of n "[c]" mem "json_quote s"]
    show ?thesis by (simp add: poke_written)
  next
    case (Some e)
    have w: "written (n + 1) [e] (written n [backslash] mem) = written n [backslash, e] mem"
      using Some Cons.prems written_written [of n "[backslash]" mem "[e]"] by simp
    show ?thesis
    proof (cases "n + 2 = len")
      case True
      have "n + 2 + length (json_quote s) \<le> len" using Some Cons.prems by simp
      with True have "json_quote s = []" by simp
      with Some True Cons.prems w show ?thesis by (simp add: poke_written)
    next
      case False
      with Some Cons.prems w Cons.IH [of "n + 2" "written n [backslash, e] mem"] written_written [of n "[backslash, e]" mem "json_quote s"]
      show ?thesis by (simp add: poke_written)
    qed
  qed
qed simp

lemma put_member_fits:
  assumes "length s + length label + length (json_quote v) \<le> len" "len \<le> length M"
  shows "put_member len (written 0 s M, length s) label v =
    Inr (written 0 (s @ label @ json_quote v) M, length (s @ label @ json_quote v))"
proof -
  let ?m = "written 0 s M"
  have "copy_at (length s) label ?m = Inr (written (length s) label ?m)" using assms by (simp add: copy_at_written)
  then show ?thesis
    using assms quotedcopy_fits [of "length s + length label" v len "written (length s) label ?m"]
      written_written [of 0 s M label] written_written [of 0 "s @ label" M "json_quote v"]
    by (simp add: put_member_def add.assoc)
qed

lemma poke_next: "length s < length M \<Longrightarrow> poke (length s) c (written 0 s M) = Inr (written 0 (s @ [c]) M)"
  using written_written [of 0 s M "[c]"] by (simp add: poke_written)

text \<open>The request before the message, which is written when the three texts hold no backslash.\<close>

definition slack_head :: "string \<Rightarrow> string \<Rightarrow> string \<Rightarrow> string" where
  "slack_head avatar username channel =
     ''{'' @ ([quote] @ ''icon_emoji'' @ [quote] @ '':'' @ [quote]) @ json_quote avatar @
     ([quote] @ '','' @ [quote] @ ''username'' @ [quote] @ '':'' @ [quote]) @ json_quote username @
     ([quote] @ '','' @ [quote] @ ''channel'' @ [quote] @ '':'' @ [quote]) @ json_quote channel"

lemma new_request_head:
  assumes "backslash \<notin> set a" "backslash \<notin> set u" "backslash \<notin> set c" "\<forall>n. length (fill n) = n" "len = request_len a u c m"
  shows "length (slack_head a u c) + 10 + s_quotedlen m + 2 = len"
    and "s_new_request fill a u c m =
      bind_res (put_member len (written 0 (slack_head a u c) (fill (len + 1)), length (slack_head a u c))
        ([quote] @ '','' @ [quote] @ ''text'' @ [quote] @ '':'' @ [quote]) m) (\<lambda>(mem, n).
      bind_res (poke n quote mem) (\<lambda>mem.
      bind_res (poke (n + 1) (CHR ''}'') mem) (\<lambda>mem.
      Inr \<lparr>rq_json = mem, rq_len = len, rq_sent = 0\<rparr>)))"
proof -
  let ?i = "[quote] @ ''icon_emoji'' @ [quote] @ '':'' @ [quote]" and ?u = "[quote] @ '','' @ [quote] @ ''username'' @ [quote] @ '':'' @ [quote]"
    and ?c = "[quote] @ '','' @ [quote] @ ''channel'' @ [quote] @ '':'' @ [quote]"
  define M where "M = fill (len + 1)"
  note q = assms(1-3) [THEN s_quotedlen_quote]
  have M: "length M = len + 1" using assms(4) by (simp add: M_def)
  define s0 s1 s2 s3 where s: "s0 = ''{''" "s1 = s0 @ ?i @ json_quote a" "s2 = s1 @ ?u @ json_quote u" "s3 = s2 @ ?c @ json_quote c"
  have h: "s3 = slack_head a u c" by (simp add: s slack_head_def)
  show b: "length (slack_head a u c) + 10 + s_quotedlen m + 2 = len" by (simp add: slack_head_def assms(5) request_len_def q)
  have 0: "poke 0 (CHR ''{'') M = Inr (written 0 s0 M)" using M by (simp add: poke_written s)
  have 1: "put_member len (written 0 s0 M, 1) ?i a = Inr (written 0 s1 M, length s1)"
    using put_member_fits [of s0 ?i a len M] b M by (simp add: s flip: h)
  have 2: "put_member len (written 0 s1 M, length s1) ?u u = Inr (written 0 s2 M, length s2)"
    using put_member_fits [of s1 ?u u len M] b M by (simp add: s flip: h)
  have 3: "put_member len (written 0 s2 M, length s2) ?c c = Inr (written 0 s3 M, length s3)"
    using put_member_fits [of s2 ?c c len M] b M by (simp add: s flip: h)
  show "s_new_request fill a u c m =
      bind_res (put_member len (written 0 (slack_head a u c) (fill (len + 1)), length (slack_head a u c))
        ([quote] @ '','' @ [quote] @ ''text'' @ [quote] @ '':'' @ [quote]) m) (\<lambda>(mem, n).
      bind_res (poke n quote mem) (\<lambda>mem.
      bind_res (poke (n + 1) (CHR ''}'') mem) (\<lambda>mem.
      Inr \<lparr>rq_json = mem, rq_len = len, rq_sent = 0\<rparr>)))"
    unfolding s_new_request_def Let_def assms(5) [symmetric] M_def [symmetric] 0 bind_res_simps 1 2 3 h ..
qed

lemma new_request_ok:
  assumes "backslash \<notin> set a" "backslash \<notin> set u" "backslash \<notin> set c" "backslash \<notin> set m" "\<forall>n. length (fill n) = n"
  shows "\<exists>x. s_new_request fill a u c m = Inr \<lparr>rq_json = slack_json a u c m @ x, rq_len = length (slack_json a u c m), rq_sent = 0\<rparr>"
proof -
  let ?t = "[quote] @ '','' @ [quote] @ ''text'' @ [quote] @ '':'' @ [quote]" and ?len = "request_len a u c m"
  let ?M = "fill (?len + 1)" and ?h = "slack_head a u c"
  note h = new_request_head [OF assms(1-3,5) refl, of m] and q = s_quotedlen_quote [OF assms(4)]
  have M: "length ?M = ?len + 1" using assms(5) by simp
  define s where "s = ?h @ ?t @ json_quote m"
  have j: "s @ [quote, CHR ''}''] = slack_json a u c m" by (simp add: s_def slack_head_def slack_json_def)
  have b: "length s + 2 = ?len" using h(1) q by (simp add: s_def)
  then have l: "?len = length (slack_json a u c m)" by (simp flip: j)
  have 1: "put_member ?len (written 0 ?h ?M, length ?h) ?t m = Inr (written 0 s ?M, length s)"
    using put_member_fits [of ?h ?t m ?len ?M] b M by (simp add: s_def)
  have 2: "poke (length s) quote (written 0 s ?M) = Inr (written 0 (s @ [quote]) ?M)" using poke_next [of s ?M] b M by simp
  have 3: "poke (length s + 1) (CHR ''}'') (written 0 (s @ [quote]) ?M) = Inr (written 0 (slack_json a u c m) ?M)"
    using poke_next [of "s @ [quote]" ?M "CHR ''}''"] b M by (simp add: j)
  show ?thesis unfolding h(2) 1 bind_res_simps prod.case 2 3 by (simp add: l written_def)
qed

text \<open>However the HTTP library divides its buffers, it gets the request.\<close>

lemma slack_reads_all:
  "rq_sent r \<le> rq_len r \<Longrightarrow> rq_len r \<le> length (rq_json r) \<Longrightarrow> rq_len r - rq_sent r \<le> sum_list sizes \<Longrightarrow>
    slack_reads sizes r = take (rq_len r - rq_sent r) (drop (rq_sent r) (rq_json r))"
proof (induction sizes arbitrary: r)
  case (Cons k sizes)
  show ?case
  proof (cases "rq_len r = rq_sent r")
    case True
    have "slack_reads ks r = []" for ks using True by (induction ks) (simp_all add: s_slack_reader_def)
    with True show ?thesis by simp
  next
    case False
    let ?n = "min k (rq_len r - rq_sent r)"
    have "slack_reads sizes (r\<lparr>rq_sent := rq_sent r + ?n\<rparr>) = take (rq_len r - (rq_sent r + ?n)) (drop (rq_sent r + ?n) (rq_json r))"
      using Cons.IH [of "r\<lparr>rq_sent := rq_sent r + ?n\<rparr>"] Cons.prems by auto
    moreover have "take ?n xs @ take (rq_len r - rq_sent r - ?n) (drop ?n xs) = take (rq_len r - rq_sent r) xs" for xs :: string
      by (metis le_add_diff_inverse take_add min.cobounded2)
    note this [of "drop (rq_sent r) (rq_json r)"]
    ultimately show ?thesis using False by (simp add: s_slack_reader_def Let_def add.commute)
  qed
qed simp

text \<open>
  C37: for a transition of a state whose name matches, with texts that hold no
  backslash and no control character other than tab, newline and carriage return, one
  request is posted, whatever buffers the HTTP library offers. Its body is a JSON object:
  reading it gives the name of the robot, its picture, the channel and the message,
  unchanged.
\<close>

theorem slack_notice:
  assumes "hd p = ''TRANSITION''" "length p = 6" "pcre_exec E (sk_match opt) (p ! 1) = 0" "\<forall>n. length (fill n) = n"
    and "list_all (list_all slack_char) [sk_avatar opt, sk_username opt, channel, p ! 1, p ! 4, p ! 5]"
    and "request_len (sk_avatar opt) (sk_username opt) channel message \<le> sum_list sizes"
    and "message = p ! 1 @ '' is now *'' @ p ! 4 @ ''*'' @ [CHR 10] @ ''> '' @ p ! 5 @ [CHR 10]"
  shows "\<exists>body. slack_pdu E fill sizes opt webhook channel p = Inr [Slack_post webhook body] \<and>
    json_object body = Some [(''icon_emoji'', sk_avatar opt), (''username'', sk_username opt), (''channel'', channel), (''text'', message)]"
proof -
  let ?j = "slack_json (sk_avatar opt) (sk_username opt) channel message"
  have c: "list_all slack_char message"
    using assms(5) by (simp add: assms(7)) (simp add: slack_char_def)
  have b: "list_all slack_char s \<Longrightarrow> backslash \<notin> set s" for s by (auto simp: list_all_iff slack_char_def)
  obtain x where r: "s_new_request fill (sk_avatar opt) (sk_username opt) channel message =
      Inr \<lparr>rq_json = ?j @ x, rq_len = length ?j, rq_sent = 0\<rparr>"
    using new_request_ok [OF _ _ _ _ assms(4)] assms(5) c b by simp blast
  have l: "request_len (sk_avatar opt) (sk_username opt) channel message = length ?j"
    using assms(5) c b by (simp add: request_len_def s_quotedlen_quote slack_json_def)
  have "slack_pdu E fill sizes opt webhook channel p = Inr [Slack_post webhook ?j]"
    using assms(1-3,6) r l slack_reads_all [of "\<lparr>rq_json = ?j @ x, rq_len = length ?j, rq_sent = 0\<rparr>" sizes]
    by (simp add: slack_pdu_def s_notify_def assms(7) Let_def)
  moreover have "json_object ?j = Some [(''icon_emoji'', sk_avatar opt), (''username'', sk_username opt), (''channel'', channel), (''text'', message)]"
    using assms(5) c by (intro slack_json_object) simp_all
  ultimately show ?thesis by blast
qed

definition demo_slack :: slack_options where
  "demo_slack = slack_defaults\<lparr>sk_match := ''db''\<rparr>"

definition demo_summary :: string where
  "demo_summary = ''disk '' @ [quote] @ ''/'' @ [quote] @ '' full''"

theorem slack_notice_witness:
  "\<exists>body. slack_pdu plain_env (\<lambda>n. replicate n NUL) [100, 100] demo_slack ''http://hook'' ''#ops''
      [''TRANSITION'', ''db'', ''7'', ''fresh'', ''CRITICAL'', demo_summary] = Inr [Slack_post ''http://hook'' body] \<and>
    json_object body = Some [(''icon_emoji'', '':robot_face:''), (''username'', ''bolo''), (''channel'', ''#ops''),
      (''text'', ''db is now *CRITICAL*'' @ [CHR 10] @ ''> '' @ demo_summary @ [CHR 10])]"
proof -
  let ?p = "[''TRANSITION'', ''db'', ''7'', ''fresh'', ''CRITICAL'', demo_summary]"
  let ?m = "?p ! 1 @ '' is now *'' @ ?p ! 4 @ ''*'' @ [CHR 10] @ ''> '' @ ?p ! 5 @ [CHR 10]"
  have "hd ?p = ''TRANSITION''" "length ?p = 6" "\<forall>n. length (replicate n NUL) = n"
    "pcre_exec plain_env (sk_match demo_slack) (?p ! 1) = 0" by (simp_all add: demo_slack_def plain_env_def)
  moreover have "list_all (list_all slack_char) [sk_avatar demo_slack, sk_username demo_slack, ''#ops'', ?p ! 1, ?p ! 4, ?p ! 5]"
    by (simp add: demo_slack_def demo_summary_def slack_defaults_def slack_char_def)
  moreover have "request_len (sk_avatar demo_slack) (sk_username demo_slack) ''#ops'' ?m \<le> sum_list [100, 100]"
    by (simp add: demo_slack_def demo_summary_def slack_defaults_def request_len_def s_quotedlen_def)
  ultimately show ?thesis
    using slack_notice [of ?p plain_env demo_slack "\<lambda>n. replicate n NUL" "''#ops''" ?m "[100, 100]" "''http://hook''"]
    by (simp add: demo_slack_def slack_defaults_def)
qed

section \<open>A backslash before a quote\<close>

text \<open>
  Note: the size of the request counts no extra byte for a quote behind a backslash, but
  the copy writes one. Two of them make the program write behind its memory.
\<close>

lemma quotedcopy_full:
  "len \<le> n + length (json_quote s) \<Longrightarrow> n \<le> len \<Longrightarrow> len \<le> length mem \<Longrightarrow>
    \<exists>mem'. s_quotedcopy mem s n len = Inr (mem', len) \<and> length mem' = length mem"
proof (induction s arbitrary: n mem)
  case (Cons c s)
  consider "n = len" | "n < len" "escape c = None" | e where "n < len" "escape c = Some e" using Cons.prems(2) by fastforce
  then show ?case
  proof cases
    case 2
    with Cons.prems Cons.IH [of "n + 1" "mem[n := c]"] show ?thesis by (simp add: poke_def)
  next
    case 3
    with Cons.prems Cons.IH [of "n + 2" "mem[n := backslash, n + 1 := e]"] show ?thesis by (auto simp: poke_def)
  qed simp
qed simp

lemma slack_overrun:
  assumes "backslash \<notin> set a" "backslash \<notin> set u" "backslash \<notin> set c" "\<forall>n. length (fill n) = n"
    and "s_quotedlen m + 2 \<le> length (json_quote m)"
  shows "s_new_request fill a u c m = Inl OutOfBounds"
proof -
  let ?t = "[quote] @ '','' @ [quote] @ ''text'' @ [quote] @ '':'' @ [quote]" and ?len = "request_len a u c m"
  let ?M = "fill (?len + 1)" and ?h = "slack_head a u c"
  note h = new_request_head [OF assms(1-4) refl, of m]
  have M: "length ?M = ?len + 1" using assms(4) by simp
  define t where "t = ?t"
  have t: "length t = 10" by (simp add: t_def)
  have c: "copy_at (length ?h) t (written 0 ?h ?M) = Inr (written (length ?h) t (written 0 ?h ?M))"
    using h(1) M t by (intro copy_at_written) simp
  obtain mem where 1: "put_member ?len (written 0 ?h ?M, length ?h) t m = Inr (mem, ?len)" "length mem = ?len + 1"
    using quotedcopy_full [of ?len "length ?h + 10" m "written (length ?h) t (written 0 ?h ?M)"] h(1) M assms(5) t
    by (auto simp: put_member_def c [simplified])
  have 2: "poke ?len quote mem = Inr (mem[?len := quote])" "poke (?len + 1) x (mem[?len := quote]) = Inl OutOfBounds" for x
    using 1(2) by (simp_all add: poke_def)
  show ?thesis unfolding h(2) t_def [symmetric] 1(1) bind_res_simps prod.case 2 ..
qed

end
