(* ===== verification/Bolo_Console.thy ===== *)
theory Bolo_Console
  imports Bolo_Outputs Bolo_Cache
begin

text \<open>
  The subscriber \<open>bolo2console\<close> (\<open>src/src/bolo2console/main.c\<close>): it keeps the last values of every
  metric in a ring of 256 slots with one fill pointer for all of them, and draws them on a
  terminal.

  The terminal library is outside: the size of the terminal and the key that was pressed are
  inputs of a step, and drawing is a list of output commands, colours left out. So are
  \<open>strtold\<close>, the printing of numbers, the process id and the version, and the value an
  uninitialised variable has. Numbers are reals; \<open>strtold\<close> tells the one value that is not a number apart.
  New memory of \<open>vmalloc\<close> is zero.
\<close>

unbundle bit_operations_syntax

section \<open>Metrics\<close>

record console_metric =
  cm_name :: string
  cm_type :: char
  cm_set :: "bool list"
  cm_val :: "real list"

record artist_t =
  ar_height :: nat
  ar_width :: nat
  ar_voffset :: nat
  ar_metrics :: "console_metric list"
  ar_window :: "32 word"
  ar_tick :: "32 word"
  ar_status_top :: string
  ar_status_bottom :: string
  ar_endpoint :: string
  ar_message :: "string option"
  ar_pattern :: string
  ar_mask :: "32 word"
  ar_visible :: nat
  ar_start :: nat
  ar_fill :: nat
  ar_w_name :: nat
  ar_w_graph :: int

datatype key = KEY_UP | KEY_DOWN | Other_key

record console_env =
  ce_size :: "nat \<times> nat"
  ce_key :: key
  ce_strtold :: "string \<Rightarrow> real option \<times> string"
  ce_fmt :: "real \<Rightarrow> string"
  ce_pid :: int
  ce_version :: string
  ce_last :: real

definition MAX_VALUES :: nat where "MAX_VALUES = 256"

definition ar_total :: "artist_t \<Rightarrow> nat" where
  "ar_total a = length (ar_metrics a)"

fun s_find_metric :: "console_metric list \<Rightarrow> char \<Rightarrow> string \<Rightarrow> nat option" where
  "s_find_metric [] type name = None"
| "s_find_metric (m # ms) type name =
     (if cm_type m = type \<and> cm_name m = name then Some 0 else map_option Suc (s_find_metric ms type name))"

text \<open>
  The value is a frame of the PDU, which may be missing. The slot is the fill pointer of the artist.
\<close>

definition s_update_metric :: "console_env \<Rightarrow> nat \<Rightarrow> string option \<Rightarrow> console_metric \<Rightarrow> console_metric res" where
  "s_update_metric X fill value m =
     (case value of None \<Rightarrow> Inl NullDeref
      | Some v \<Rightarrow>
         (case ce_strtold X v of
            (Some x, []) \<Rightarrow>
              if fill < length (cm_set m) then Inr (m\<lparr>cm_set := (cm_set m)[fill := True], cm_val := (cm_val m)[fill := x]\<rparr>)
              else Inl OutOfBounds
          | _ \<Rightarrow> Inr m))"

definition new_metric :: "char \<Rightarrow> string \<Rightarrow> console_metric" where
  "new_metric type name =
     \<lparr>cm_name = name, cm_type = type, cm_set = replicate MAX_VALUES False, cm_val = replicate MAX_VALUES 0\<rparr>"

definition s_insert_metric :: "console_env \<Rightarrow> char \<Rightarrow> string \<Rightarrow> string option \<Rightarrow> artist_t \<Rightarrow> artist_t res" where
  "s_insert_metric X type name value a =
     bind_res (s_update_metric X (ar_fill a) value (new_metric type name)) (\<lambda>m.
       Inr (a\<lparr>ar_metrics := ar_metrics a @ [m], ar_w_name := max (ar_w_name a) (length name)\<rparr>))"

text \<open>Which frames of a PDU name the metric and give its value; other PDUs are left out.\<close>

definition ingest_type :: "pdu \<Rightarrow> (char \<times> nat) option" where
  "ingest_type p =
     (if hd p = ''RATE'' then Some (CHR ''R'', 4)
      else if hd p = ''COUNTER'' then Some (CHR ''C'', 3)
      else if hd p = ''SAMPLE'' then Some (CHR ''S'', 7)
      else None)"

definition s_ingest :: "env \<Rightarrow> console_env \<Rightarrow> pdu \<Rightarrow> artist_t \<Rightarrow> artist_t res" where
  "s_ingest E X p a =
     (case ingest_type p of None \<Rightarrow> Inr a
      | Some (type, k) \<Rightarrow>
         (case frame 2 p of None \<Rightarrow> Inl NullDeref
          | Some name \<Rightarrow>
             (case s_find_metric (ar_metrics a) type name of
                Some i \<Rightarrow> bind_res (s_update_metric X (ar_fill a) (frame k p) (ar_metrics a ! i))
                            (\<lambda>m. Inr (a\<lparr>ar_metrics := (ar_metrics a)[i := m]\<rparr>))
              | None \<Rightarrow> if pcre_exec E (ar_pattern a) name = 0 then s_insert_metric X type name (frame k p) a else Inr a)))"

section \<open>Drawing the metrics\<close>

datatype draw = Mvprintw int int string | Printw string | Clrtoeol | Refresh

definition simplify :: "real \<Rightarrow> real \<times> char" where
  "simplify v =
     (if v \<ge> 1000000000000 then (v / 1000000000000, CHR ''t'')
      else if v \<ge> 1000000000 then (v / 1000000000, CHR ''g'')
      else if v \<ge> 1000000 then (v / 1000000, CHR ''m'')
      else if v \<ge> 1000 then (v / 1000, CHR ''k'')
      else (v, CHR '' ''))"

definition spread :: "real \<Rightarrow> real \<Rightarrow> bool" where
  "spread mn mx \<longleftrightarrow> mx - mn > 10"

text \<open>
  The slots from the fill pointer back to, but not including, the start. The loops would leave the arrays
  if the start were behind the fill pointer.
\<close>

definition slots :: "artist_t \<Rightarrow> console_metric \<Rightarrow> real option list res" where
  "slots a m =
     (if ar_start a \<le> ar_fill a \<and> ar_fill a < length (cm_set m)
      then Inr (map (\<lambda>j. if cm_set m ! j then Some (cm_val m ! j) else None) (rev [Suc (ar_start a)..<Suc (ar_fill a)]))
      else Inl OutOfBounds)"

fun minmax :: "real list \<Rightarrow> real \<Rightarrow> real \<Rightarrow> real \<times> real" where
  "minmax [] mn mx = (mn, mx)"
| "minmax (v # vs) mn mx = (if v > mx then minmax vs mn v else if v < mn then minmax vs v mx else minmax vs mn mx)"

definition set_values :: "real option list \<Rightarrow> real list" where
  "set_values xs = List.map_filter (\<lambda>x. x) xs"

text \<open>The bytes of a cell in reverse: one of five bars in UTF-8, or a space.\<close>

definition graph_cell :: "real \<Rightarrow> real \<Rightarrow> bool \<Rightarrow> real option \<Rightarrow> string" where
  "graph_cell mn mx wide x =
     (case x of None \<Rightarrow> '' ''
      | Some v \<Rightarrow>
         (let fifth = (mx - mn) / 5;
              level = (if \<not> wide then CHR 0x82 else if v < fifth + mn then CHR 0x82 else if v < fifth * 2 + mn then CHR 0x83
                       else if v < fifth * 3 + mn then CHR 0x85 else if v < fifth * 4 + mn then CHR 0x86 else CHR 0x87)
          in [level, CHR 0x96, CHR 0xE2]))"

definition pad_right :: "nat \<Rightarrow> string \<Rightarrow> string" where
  "pad_right w s = s @ replicate (w - length s) (CHR '' '')"

text \<open>The graph and the dots in front of the limits: the arrays have 769 and 2048 bytes.\<close>

definition graph_of :: "artist_t \<Rightarrow> real \<Rightarrow> real \<Rightarrow> bool \<Rightarrow> real option list \<Rightarrow> (string \<times> string) res" where
  "graph_of a mn mx wide xs =
     (let cells = take (nat (ar_w_graph a)) xs;
          graph = concat (map (graph_cell mn mx wide) cells);
          gap = ar_w_graph a - int (length cells)
      in if MAX_VALUES * 3 + 1 \<le> length graph \<or> gap < 0 \<or> 2048 \<le> gap then Inl OutOfBounds
         else Inr (rev graph, replicate (nat gap) (CHR ''.'')))"

definition draw_row :: "console_env \<Rightarrow> artist_t \<Rightarrow> nat \<Rightarrow> console_metric \<Rightarrow> draw list res" where
  "draw_row X a i m =
     bind_res (slots a m) (\<lambda>xs.
       let vs = set_values xs;
           lst = (case vs of [] \<Rightarrow> ce_last X | v # _ \<Rightarrow> v);
           (mn, mx) = minmax vs lst lst;
           (mn', mn_u) = simplify mn; (mx', mx_u) = simplify mx; (lst', u) = simplify lst
       in bind_res (graph_of a mn mx (spread mn' mx') xs) (\<lambda>(graph, dots).
         Inr (Mvprintw (1 + int i) 0
                ('' '' @ [cm_type m] @ ''  '' @ pad_right (ar_w_name a) (cm_name m) @ ''  '' @ ce_fmt X lst' @ '' '' @ [u] @ ''  '' @ graph @ '' '')
              # (if spread mn' mx'
                 then [Printw dots, Printw (''  '' @ ce_fmt X mn' @ '' '' @ [mn_u] @ '' / '' @ ce_fmt X mx' @ '' '' @ [mx_u])]
                 else [Clrtoeol]))))"

fun draw_rows :: "console_env \<Rightarrow> artist_t \<Rightarrow> nat \<Rightarrow> console_metric list \<Rightarrow> draw list res" where
  "draw_rows X a i [] = Inr []"
| "draw_rows X a i (m # ms) =
     bind_res (draw_row X a i m) (\<lambda>ds. bind_res (draw_rows X a (i + 1) ms) (\<lambda>ds'. Inr (ds @ ds')))"

section \<open>The status lines\<close>

text \<open>
  Three buffers of one byte more than the terminal is wide are filled from the format: \<open>ss\<close> counts the bars
  seen and tells the buffer, \<open>n\<close> the place in it. \<open>snprintf\<close> gets the room that is left, writes
  what fits and returns the length of the whole text.
\<close>

record statusline =
  sl_ss :: nat
  sl_n :: nat
  sl_bufs :: "string list"

definition sl_poke :: "char \<Rightarrow> statusline \<Rightarrow> statusline" where
  "sl_poke c s = (let b = min (sl_ss s) 2 in s\<lparr>sl_bufs := (sl_bufs s)[b := (sl_bufs s ! b)[sl_n s := c]], sl_n := sl_n s + 1\<rparr>)"

definition snprintf_at :: "nat \<Rightarrow> nat \<Rightarrow> string \<Rightarrow> string \<Rightarrow> string" where
  "snprintf_at n room s mem =
     (if room = 0 then mem else let w = take (room - 1) s @ [NUL] in take n mem @ w @ drop (n + length w) mem)"

definition sl_print :: "nat \<Rightarrow> string \<Rightarrow> statusline \<Rightarrow> statusline" where
  "sl_print width t s = (let b = min (sl_ss s) 2
     in s\<lparr>sl_bufs := (sl_bufs s)[b := snprintf_at (sl_n s) (width - sl_n s) t (sl_bufs s ! b)], sl_n := sl_n s + length t\<rparr>)"

definition flag_string :: "32 word \<Rightarrow> string" where
  "flag_string fl = map (\<lambda>(bit, c). if fl AND bit \<noteq> 0 then c else CHR ''.'')
     [(0x02, CHR ''T''), (0x08, CHR ''R''), (0x01, CHR ''A''), (0x10, CHR ''C''), (0x04, CHR ''E''), (0x20, CHR ''S'')]"

definition percent_text :: "artist_t \<Rightarrow> string" where
  "percent_text a =
     (if ar_total a = ar_voffset a + ar_visible a then ''100%''
      else show_int \<lfloor>(real (ar_voffset a + ar_visible a) + 1/2) / real (ar_total a) * 100\<rfloor> @ ''%'')"

definition escape_text :: "console_env \<Rightarrow> artist_t \<Rightarrow> char \<Rightarrow> string" where
  "escape_text X a c =
     (if c = CHR ''v'' then ce_version X
      else if c = CHR ''e'' then ar_endpoint a
      else if c = CHR ''m'' then (case ar_message a of None \<Rightarrow> [] | Some m \<Rightarrow> m)
      else if c = CHR ''F'' then flag_string (ar_mask a)
      else if c = CHR ''M'' then ar_pattern a
      else if c = CHR ''n'' then show_int (int (ar_visible a))
      else if c = CHR ''N'' then show_int (int (ar_total a))
      else if c = CHR ''p'' then percent_text a
      else if c = CHR ''P'' then show_int (ce_pid X)
      else [])"

text \<open>A format that ends in a percent sign ends the function without any output.\<close>

fun status_scan :: "console_env \<Rightarrow> artist_t \<Rightarrow> string \<Rightarrow> statusline \<Rightarrow> statusline option" where
  "status_scan X a [] s = Some s"
| "status_scan X a (p # ps) s =
     (if sl_n s > ar_width a then Some s
      else if p = CHR ''%'' then
        (case ps of [] \<Rightarrow> None
         | c # cs \<Rightarrow> status_scan X a cs (if c = CHR ''%'' then sl_poke c s else if c \<in> set ''vemFMnNpP'' then sl_print (ar_width a) (escape_text X a c) s else s))
      else if p = CHR ''|'' then
        status_scan X a ps (if sl_ss s < 2 then s\<lparr>sl_ss := sl_ss s + 1, sl_n := 0\<rparr> else (sl_poke p s)\<lparr>sl_ss := sl_ss s + 1\<rparr>)
      else status_scan X a ps (sl_poke p s))"

definition c_text :: "string \<Rightarrow> string res" where
  "c_text mem = (if NUL \<in> set mem then Inr (takeWhile (\<lambda>c. c \<noteq> NUL) mem) else Inl OutOfBounds)"

text \<open>The text in the middle is passed to \<open>mvprintw\<close> as the format itself.\<close>

fun as_format :: "string \<Rightarrow> string res" where
  "as_format [] = Inr []"
| "as_format (c # cs) =
     (if c \<noteq> CHR ''%'' then bind_res (as_format cs) (\<lambda>t. Inr (c # t))
      else case cs of d # ds \<Rightarrow> if d = CHR ''%'' then bind_res (as_format ds) (\<lambda>t. Inr (d # t)) else Inl BadConversion
           | [] \<Rightarrow> Inl BadConversion)"

definition s_statusline :: "console_env \<Rightarrow> string \<Rightarrow> artist_t \<Rightarrow> bool \<Rightarrow> draw list res" where
  "s_statusline X fmt a upper =
     (case status_scan X a fmt \<lparr>sl_ss = 0, sl_n = 0, sl_bufs = replicate 3 (replicate (ar_width a + 1) NUL)\<rparr> of
        None \<Rightarrow> Inr []
      | Some s \<Rightarrow>
          let y = (if upper then 0 else int (ar_height a) - 1) in
          bind_res (c_text (sl_bufs s ! 0)) (\<lambda>left.
          bind_res (c_text (sl_bufs s ! 2)) (\<lambda>right.
          bind_res (c_text (sl_bufs s ! 1)) (\<lambda>center.
          bind_res (as_format center) (\<lambda>mid.
            let x = (of_nat (ar_width a) - of_nat (length right) - of_nat (length left) - of_nat (length center) :: 64 word) div 2
            in Inr [Mvprintw y 0 (pad_right (ar_width a) left), Mvprintw y (int (ar_width a) - int (length right)) right,
                 Mvprintw y (sint (ucast x :: 32 word)) mid])))))"

definition s_redraw :: "console_env \<Rightarrow> artist_t \<Rightarrow> (artist_t \<times> draw list) res" where
  "s_redraw X a =
     (let (h, w) = ce_size X;
          shown = take (h - 2) (drop (ar_voffset a) (ar_metrics a));
          a = a\<lparr>ar_height := h, ar_width := w, ar_visible := length shown,
                ar_w_graph := int w - 4 - int (ar_w_name a) - 12 - 23 - 1\<rparr>
      in bind_res (draw_rows X a 0 shown) (\<lambda>rows.
         bind_res (s_statusline X (ar_status_top a) a True) (\<lambda>t.
         bind_res (s_statusline X (ar_status_bottom a) a False) (\<lambda>b.
           Inr (a, rows @ t @ b @ [Refresh])))))"

section \<open>The reactor\<close>

text \<open>Advancing the fill pointer clears the slot it comes to in every metric.\<close>

definition advance :: "artist_t \<Rightarrow> artist_t" where
  "advance a =
     (let fill = (if ar_fill a + 1 \<ge> MAX_VALUES then 0 else ar_fill a + 1)
      in a\<lparr>ar_fill := fill, ar_metrics := map (\<lambda>m. m\<lparr>cm_set := (cm_set m)[fill := False]\<rparr>) (ar_metrics a)\<rparr>)"

definition console_key :: "console_env \<Rightarrow> artist_t \<Rightarrow> (artist_t \<times> draw list) res" where
  "console_key X a =
     (case ce_key X of
        KEY_UP \<Rightarrow> if ar_voffset a > 0 then s_redraw X (a\<lparr>ar_voffset := ar_voffset a - 1\<rparr>) else Inr (a, [])
      | KEY_DOWN \<Rightarrow>
          if ar_total a > ar_height a \<and> int (ar_voffset a) < int (ar_total a) - (int (ar_height a) - 2)
          then s_redraw X (a\<lparr>ar_voffset := ar_voffset a + 1\<rparr>) else Inr (a, [])
      | Other_key \<Rightarrow> Inr (a, []))"

definition console_tock :: "console_env \<Rightarrow> artist_t \<Rightarrow> (artist_t \<times> draw list) res" where
  "console_tock X a =
     bind_res (smod32 (ar_tick a + 1) (ar_window a)) (\<lambda>t.
     bind_res (if t = 0 then s_redraw X (advance (a\<lparr>ar_tick := t\<rparr>)) else Inr (a\<lparr>ar_tick := t\<rparr>, [])) (\<lambda>(a, ds).
     bind_res (console_key X a) (\<lambda>(a, ds'). Inr (a, ds @ ds'))))"

definition console_match :: "32 word \<Rightarrow> pdu \<Rightarrow> bool" where
  "console_match wanted p \<longleftrightarrow> list_ex (\<lambda>(bit, w). wanted AND bit \<noteq> 0 \<and> hd p = w)
     [(0x01, ''STATE''), (0x02, ''TRANSITION''), (0x04, ''EVENT''), (0x08, ''RATE''), (0x10, ''COUNTER''), (0x20, ''SAMPLE'')]"

datatype console_socket = Con_control | Con_tock | Con_subscriber | Con_other

definition artist_reactor :: "env \<Rightarrow> console_env \<Rightarrow> console_socket \<Rightarrow> pdu \<Rightarrow> artist_t \<Rightarrow> (verdict \<times> artist_t \<times> draw list) res" where
  "artist_reactor E X sock p a =
     (case sock of
        Con_control \<Rightarrow> Inr (if hd p = ''TERMINATE'' then HALT else CONTINUE, a, [])
      | Con_tock \<Rightarrow> bind_res (console_tock X a) (\<lambda>(a, ds). Inr (CONTINUE, a, ds))
      | Con_subscriber \<Rightarrow>
          if console_match (ar_mask a) p
          then bind_res (s_ingest E X p a) (\<lambda>a. bind_res (s_redraw X a) (\<lambda>(a, ds). Inr (CONTINUE, a, ds)))
          else Inr (CONTINUE, a, [])
      | Con_other \<Rightarrow> Inr (HALT, a, []))"

fun artist_loop :: "(env \<times> console_env \<times> console_socket \<times> pdu) list \<Rightarrow> artist_t \<Rightarrow> (verdict \<times> artist_t \<times> draw list) res" where
  "artist_loop [] a = Inr (CONTINUE, a, [])"
| "artist_loop ((E, X, sock, p) # ms) a =
     bind_res (artist_reactor E X sock p a) (\<lambda>(v, a, ds).
       if v = HALT then Inr (HALT, a, ds)
       else bind_res (artist_loop ms a) (\<lambda>(v, a, ds'). Inr (v, a, ds @ ds')))"

definition artist_thread_body :: "console_env \<Rightarrow> (env \<times> console_env \<times> console_socket \<times> pdu) list \<Rightarrow> artist_t \<Rightarrow> (verdict \<times> artist_t \<times> draw list) res" where
  "artist_thread_body X ms a =
     bind_res (s_redraw X a) (\<lambda>(a, ds). bind_res (artist_loop ms a) (\<lambda>(v, a, ds'). Inr (v, a, ds @ ds')))"

definition artist_thread :: "env \<Rightarrow> artist_t \<Rightarrow> int" where
  "artist_thread E a = first_failure
     [bolo_subscriber_connect_supervisor E, bolo_subscriber_connect_scheduler E,
      if \<not> sys_ok E Sys_socket (ar_endpoint a) then - 1 else sys_rc E Sys_setsockopt (ar_endpoint a),
      sys_rc E Sys_connect (ar_endpoint a), if sys_ok E Sys_reactor_new [] then 0 else - 1, sys_rc E Sys_reactor_set ''control'',
      sys_rc E Sys_reactor_set ''subscriber'', sys_rc E Sys_reactor_set ''tock'', sys_rc E Sys_thread ''artist'']"

section \<open>Starting\<close>

definition console_defaults :: artist_t where
  "console_defaults = \<lparr>ar_height = 0, ar_width = 0, ar_voffset = 0, ar_metrics = [], ar_window = 60, ar_tick = 0,
     ar_status_top = [], ar_status_bottom = [], ar_endpoint = ''tcp://127.0.0.1:2997'', ar_message = None, ar_pattern = ''.'',
     ar_mask = 0, ar_visible = 0, ar_start = 0, ar_fill = 0, ar_w_name = 0, ar_w_graph = 0\<rparr>"

definition mask_bit :: "char \<Rightarrow> 32 word option" where
  "mask_bit c = map_of [(CHR ''T'', 0x02), (CHR ''R'', 0x08), (CHR ''A'', 0x01), (CHR ''C'', 0x10), (CHR ''E'', 0x04), (CHR ''S'', 0x20)] c"

fun console_getopt :: "(char \<times> string) list \<Rightarrow> artist_t \<Rightarrow> int + artist_t" where
  "console_getopt [] a = Inr a"
| "console_getopt ((c, optarg) # os) a =
     (if c = CHR ''h'' \<or> c = CHR 0x3F \<or> c = CHR ''V'' then Inl 0
      else if c = CHR ''v'' then console_getopt os a
      else if c = CHR ''e'' then console_getopt os (a\<lparr>ar_endpoint := optarg\<rparr>)
      else if c = CHR ''m'' then console_getopt os (a\<lparr>ar_pattern := optarg\<rparr>)
      else if c = CHR ''u'' then console_getopt os (a\<lparr>ar_message := Some optarg\<rparr>)
      else if c = CHR ''w'' then
        (if number_end optarg \<noteq> [] then Inl 1 else console_getopt os (a\<lparr>ar_window := word_of_int (strtol optarg)\<rparr>))
      else case mask_bit c of Some b \<Rightarrow> console_getopt os (a\<lparr>ar_mask := ar_mask a OR b\<rparr>) | None \<Rightarrow> Inl 1)"

text \<open>The state of the artist before it starts, given the two environment variables.\<close>

definition console_start :: "string option \<Rightarrow> string option \<Rightarrow> artist_t \<Rightarrow> artist_t" where
  "console_start title status a = a\<lparr>
     ar_mask := (if ar_mask a = 0 then 0x3f else ar_mask a), ar_window := ar_window a * 10, ar_tick := 0,
     ar_status_top := (case title of None \<Rightarrow> ''bolo console v%v|[%e]|%m'' | Some t \<Rightarrow> t),
     ar_status_bottom := (case status of None \<Rightarrow> ''%n/%N (%p)  %F|pid %P|%M'' | Some t \<Rightarrow> t)\<rparr>"

definition bolo2console_main ::
  "env \<Rightarrow> console_env \<Rightarrow> string option \<Rightarrow> string option \<Rightarrow> (char \<times> string) list \<Rightarrow> (env \<times> console_env \<times> console_socket \<times> pdu) list
    \<Rightarrow> (int \<times> artist_t option \<times> draw list) res" where
  "bolo2console_main E X title status os ms =
     (case console_getopt os console_defaults of
        Inl rc \<Rightarrow> Inr (rc, None, [])
      | Inr a \<Rightarrow>
          if pcre_compile E (ar_pattern a) \<noteq> None then Inr (1, None, [])
          else if \<not> sys_ok E Sys_zmq_ctx [] then Inr (3, None, [])
          else if bolo_subscriber_init E \<noteq> 0 then Inr (2, None, [])
          else if bolo_subscriber_scheduler_thread E \<noteq> 0 then Inr (2, None, [])
          else if artist_thread E a \<noteq> 0 then Inr (2, None, [])
          else bind_res (artist_thread_body X ms (console_start title status a)) (\<lambda>(v, a, ds). Inr (0, Some a, ds)))"

section \<open>The ring of values\<close>

text \<open>
  The abstract state of the console: the ticks since the last advance, the fill pointer, and for every
  metric that is shown the values in its slots.
\<close>

record ring =
  rg_tick :: int
  rg_fill :: nat
  rg_data :: "char \<times> string \<Rightarrow> (nat \<Rightarrow> real option) option"

definition measured :: "console_env \<Rightarrow> 32 word \<Rightarrow> pdu \<Rightarrow> ((char \<times> string) \<times> real option) option" where
  "measured X wanted p =
     (case ingest_type p of None \<Rightarrow> None
      | Some (type, k) \<Rightarrow>
          if console_match wanted p \<and> 2 < length p
          then Some ((type, p ! 2), if k < length p \<and> snd (ce_strtold X (p ! k)) = [] then fst (ce_strtold X (p ! k)) else None)
          else None)"

definition ring_store :: "char \<times> string \<Rightarrow> real option \<Rightarrow> ring \<Rightarrow> ring" where
  "ring_store k v r =
     (let old = (case rg_data r k of None \<Rightarrow> (\<lambda>_. None) | Some f \<Rightarrow> f)
      in r\<lparr>rg_data := (rg_data r)(k \<mapsto> (case v of None \<Rightarrow> old | Some x \<Rightarrow> old(rg_fill r := Some x)))\<rparr>)"

definition ring_advance :: "ring \<Rightarrow> ring" where
  "ring_advance r =
     (let fill = (rg_fill r + 1) mod 256
      in r\<lparr>rg_fill := fill, rg_data := (\<lambda>k. map_option (\<lambda>f. f(fill := None)) (rg_data r k))\<rparr>)"

text \<open>One message: \<open>w\<close> is the number of ticks between two advances.\<close>

definition ring_step :: "int \<Rightarrow> string \<Rightarrow> 32 word \<Rightarrow> env \<times> console_env \<times> console_socket \<times> pdu \<Rightarrow> ring \<Rightarrow> ring" where
  "ring_step w pattern wanted = (\<lambda>(E, X, sock, p) r.
     if sock = Con_tock then
       let t = (rg_tick r + 1) mod w in if t = 0 then ring_advance (r\<lparr>rg_tick := t\<rparr>) else r\<lparr>rg_tick := t\<rparr>
     else case measured X wanted p of None \<Rightarrow> r
       | Some (k, v) \<Rightarrow> if rg_data r k \<noteq> None \<or> pcre_exec E pattern (snd k) = 0 then ring_store k v r else r)"

definition column :: "console_metric \<Rightarrow> nat \<Rightarrow> real option" where
  "column m j = (if j < 256 \<and> cm_set m ! j then Some (cm_val m ! j) else None)"

definition entry :: "console_metric \<Rightarrow> (char \<times> string) \<times> (nat \<Rightarrow> real option)" where
  "entry m = ((cm_type m, cm_name m), column m)"

definition ring_of :: "artist_t \<Rightarrow> ring" where
  "ring_of a = \<lparr>rg_tick = sint (ar_tick a), rg_fill = ar_fill a, rg_data = map_of (map entry (ar_metrics a))\<rparr>"

definition metric_ok :: "console_metric \<Rightarrow> bool" where
  "metric_ok m \<longleftrightarrow> length (cm_set m) = 256 \<and> length (cm_val m) = 256"

definition console_inv :: "artist_t \<Rightarrow> bool" where
  "console_inv a \<longleftrightarrow> ar_start a = 0 \<and> ar_fill a < 256 \<and> 0 < sint (ar_window a) \<and> 0 \<le> sint (ar_tick a) \<and>
     sint (ar_tick a) < sint (ar_window a) \<and> list_all metric_ok (ar_metrics a) \<and>
     distinct (map (fst \<circ> entry) (ar_metrics a)) \<and> list_all (\<lambda>m. length (cm_name m) \<le> ar_w_name a) (ar_metrics a)"

text \<open>What drawing and the keys leave alone.\<close>

definition same_ring :: "artist_t \<Rightarrow> artist_t \<Rightarrow> bool" where
  "same_ring a b \<longleftrightarrow> ar_metrics b = ar_metrics a \<and> ar_window b = ar_window a \<and> ar_tick b = ar_tick a \<and> ar_fill b = ar_fill a \<and>
     ar_start b = ar_start a \<and> ar_w_name b = ar_w_name a \<and> ar_pattern b = ar_pattern a \<and> ar_mask b = ar_mask a"

lemma same_ring_keeps: "same_ring a b \<Longrightarrow> ring_of b = ring_of a \<and> console_inv b = console_inv a"
  by (simp add: same_ring_def ring_of_def console_inv_def)

lemma redraw_same: "s_redraw X a = Inr (b, ds) \<Longrightarrow> same_ring a b"
  by (auto simp: s_redraw_def bind_res_Inr_iff same_ring_def Let_def split: prod.splits)

lemma key_same: "console_key X a = Inr (b, ds) \<Longrightarrow> same_ring a b"
  by (auto simp: console_key_def same_ring_def split: key.splits if_splits dest!: redraw_same)

subsection \<open>Storing a value\<close>

lemma find_metric_none: "s_find_metric ms t n = None \<longleftrightarrow> map_of (map entry ms) (t, n) = None"
  by (induction ms) (auto simp: entry_def)

lemma find_metric_some: "s_find_metric ms t n = Some i \<Longrightarrow> i < length ms \<and> fst (entry (ms ! i)) = (t, n)"
  by (induction ms arbitrary: i) (auto simp: entry_def split: if_splits)

lemma map_of_list_update:
  assumes "distinct (map fst l)" "i < length l"
  shows "map_of (l[i := (fst (l ! i), v)]) = (map_of l)(fst (l ! i) \<mapsto> v)"
  using assms
proof (induction l arbitrary: i)
  case (Cons kv l)
  show ?case
  proof (cases i)
    case (Suc j)
    then have "fst (l ! j) \<noteq> fst kv" using Cons.prems by (auto simp: image_iff) (metis nth_mem)
    then show ?thesis using Cons Suc by (auto simp: fun_eq_iff)
  qed (auto simp: fun_eq_iff)
qed simp

lemma map_of_snoc: "map_of l k = None \<Longrightarrow> map_of (l @ [(k, v)]) = (map_of l)(k \<mapsto> v)"
  by (auto simp: map_add_def fun_eq_iff split: option.splits)

lemma update_metric:
  assumes "s_update_metric X fill v m = Inr m'" "metric_ok m" "fill < 256"
  shows "metric_ok m' \<and> fst (entry m') = fst (entry m) \<and> cm_name m' = cm_name m \<and>
    column m' = (case v of None \<Rightarrow> column m | Some s \<Rightarrow>
      (case (if snd (ce_strtold X s) = [] then fst (ce_strtold X s) else None) of None \<Rightarrow> column m | Some x \<Rightarrow> (column m)(fill := Some x)))"
  using assms
  by (auto simp: s_update_metric_def metric_ok_def entry_def column_def fun_eq_iff nth_list_update
      split: option.splits prod.splits list.splits if_splits)

lemma ingest_update:
  assumes inv: "console_inv a" and "s_find_metric (ar_metrics a) t n = Some i"
    and up: "s_update_metric X (ar_fill a) (Some s) (ar_metrics a ! i) = Inr m"
    and b: "b = a\<lparr>ar_metrics := (ar_metrics a)[i := m]\<rparr>"
  shows "console_inv b \<and> ring_of b = ring_store (t, n) (if snd (ce_strtold X s) = [] then fst (ce_strtold X s) else None) (ring_of a)"
proof -
  let ?ms = "ar_metrics a"
  note i = find_metric_some [OF assms(2)]
  have ok: "metric_ok (?ms ! i)" using inv i by (simp add: console_inv_def list_all_length)
  note m = update_metric [OF up ok] 
  have fill: "ar_fill a < 256" using inv by (simp add: console_inv_def)
  have keys: "map (fst \<circ> entry) (?ms[i := m]) = map (fst \<circ> entry) ?ms"
    using m [OF fill] i by (simp add: map_update list_update_same_conv)
  have old: "map_of (map entry ?ms) (t, n) = Some (column (?ms ! i))"
    using inv i by (intro map_of_is_SomeI) (auto simp: console_inv_def entry_def in_set_conv_nth intro!: exI [of _ i])
  have "map_of (map entry (?ms[i := m])) = (map_of (map entry ?ms))((t, n) \<mapsto> column m)"
    using map_of_list_update [of "map entry ?ms" i "column m"] inv i m [OF fill]
    by (auto simp: console_inv_def map_update entry_def comp_def)
  then have "ring_of b = ring_store (t, n) (if snd (ce_strtold X s) = [] then fst (ce_strtold X s) else None) (ring_of a)"
    using m [OF fill] old by (auto simp: b ring_of_def ring_store_def split: option.splits)
  moreover have "console_inv b"
    using inv keys m [OF fill] i by (auto simp: b console_inv_def list_all_length nth_list_update)
  ultimately show ?thesis by blast
qed

lemma new_metric_ok: "metric_ok (new_metric t n)" "fst (entry (new_metric t n)) = (t, n)"
    "cm_name (new_metric t n) = n" "column (new_metric t n) = (\<lambda>_. None)"
  by (auto simp: metric_ok_def new_metric_def MAX_VALUES_def entry_def column_def fun_eq_iff)

lemma ingest_insert:
  assumes inv: "console_inv a" and none: "s_find_metric (ar_metrics a) t n = None"
    and ins: "s_insert_metric X t n (Some s) a = Inr b"
  shows "console_inv b \<and> ring_of b = ring_store (t, n) (if snd (ce_strtold X s) = [] then fst (ce_strtold X s) else None) (ring_of a)"
proof -
  from ins obtain m where up: "s_update_metric X (ar_fill a) (Some s) (new_metric t n) = Inr m"
    and b: "b = a\<lparr>ar_metrics := ar_metrics a @ [m], ar_w_name := max (ar_w_name a) (length n)\<rparr>"
    by (auto simp: s_insert_metric_def bind_res_Inr_iff)
  have fill: "ar_fill a < 256" using inv by (simp add: console_inv_def)
  note m = update_metric [OF up new_metric_ok(1) fill]
  have key: "entry m = ((t, n), column m)" using m new_metric_ok(2) [of t n] by (simp add: entry_def)
  have none': "map_of (map entry (ar_metrics a)) (t, n) = None" using none by (simp add: find_metric_none)
  then have fresh: "(t, n) \<notin> fst ` entry ` set (ar_metrics a)" by (simp add: map_of_eq_None_iff)
  have "map_of (map entry (ar_metrics a @ [m])) = (map_of (map entry (ar_metrics a)))((t, n) \<mapsto> column m)"
    using map_of_snoc [OF none', of "column m"] by (simp add: key)
  then have "ring_of b = ring_store (t, n) (if snd (ce_strtold X s) = [] then fst (ce_strtold X s) else None) (ring_of a)"
    using m none' by (auto simp: b ring_of_def ring_store_def new_metric_ok split: option.splits)
  moreover have "console_inv b"
    using inv m fresh by (auto simp: b console_inv_def key new_metric_ok image_image list_all_iff max_def)
  ultimately show ?thesis by blast
qed

subsection \<open>One message\<close>

lemma ingest_ring:
  assumes inv: "console_inv a" and run: "s_ingest E X p a = Inr b" and m: "console_match (ar_mask a) p"
  shows "console_inv b \<and> ring_of b = ring_step w (ar_pattern a) (ar_mask a) (E, X, Con_subscriber, p) (ring_of a) \<and>
    ar_window b = ar_window a \<and> ar_pattern b = ar_pattern a \<and> ar_mask b = ar_mask a"
proof (cases "ingest_type p")
  case None
  then show ?thesis using assms by (simp add: s_ingest_def ring_step_def measured_def)
next
  case (Some tk)
  obtain t k where tk: "ingest_type p = Some (t, k)" using Some by (cases tk) auto
  have two: "2 < length p" using run by (auto simp: s_ingest_def tk frame_def split: if_splits)
  have data: "rg_data (ring_of a) (t, p ! 2) = None \<longleftrightarrow> s_find_metric (ar_metrics a) t (p ! 2) = None"
    by (simp add: ring_of_def find_metric_none)
  show ?thesis
  proof (cases "k < length p")
    case k: True
    show ?thesis
    proof (cases "s_find_metric (ar_metrics a) t (p ! 2)")
      case none: None
      show ?thesis using run m two k none data ingest_insert [OF inv none, of X "p ! k"] inv
        by (auto simp: s_ingest_def tk frame_def ring_step_def measured_def s_insert_metric_def bind_res_Inr_iff split: if_splits)
    next
      case (Some i)
      show ?thesis using run m two k Some data ingest_update [OF inv Some, of X "p ! k"]
        by (auto simp: s_ingest_def tk frame_def ring_step_def measured_def bind_res_Inr_iff)
    qed
  next
    case False
    show ?thesis using run m two False data inv
      by (auto simp: s_ingest_def tk frame_def ring_step_def measured_def s_insert_metric_def s_update_metric_def
          split: if_splits option.splits)
  qed
qed

lemma advance_ring:
  assumes "console_inv a"
  shows "console_inv (advance a) \<and> ring_of (advance a) = ring_advance (ring_of a) \<and>
    ar_window (advance a) = ar_window a \<and> ar_pattern (advance a) = ar_pattern a \<and> ar_mask (advance a) = ar_mask a"
proof -
  define fill where "fill = (if ar_fill a + 1 \<ge> MAX_VALUES then 0 else ar_fill a + 1)"
  let ?clear = "\<lambda>m. m\<lparr>cm_set := (cm_set m)[fill := False]\<rparr>"
  have fill: "fill = (ar_fill a + 1) mod 256" "fill < 256"
    using assms by (cases "ar_fill a = 255"; simp add: fill_def MAX_VALUES_def console_inv_def)+
  have adv: "advance a = a\<lparr>ar_fill := fill, ar_metrics := map ?clear (ar_metrics a)\<rparr>"
    by (simp add: advance_def fill_def Let_def)
  have col: "entry (?clear m) = (fst (entry m), (column m)(fill := None))" if "metric_ok m" for m
    using that fill(2) by (auto simp: entry_def column_def metric_ok_def fun_eq_iff nth_list_update)
  have ok: "metric_ok m" if "m \<in> set (ar_metrics a)" for m using assms that by (auto simp: console_inv_def list_all_iff)
  have "map entry (map ?clear (ar_metrics a)) = map (\<lambda>(k, f). (k, f(fill := None))) (map entry (ar_metrics a))"
    using col ok by (auto simp: entry_def)
  then have "map_of (map entry (map ?clear (ar_metrics a))) = map_option (\<lambda>f. f(fill := None)) \<circ> map_of (map entry (ar_metrics a))"
    by (simp only: map_of_map)
  then have "ring_of (advance a) = ring_advance (ring_of a)"
    by (simp add: ring_of_def adv ring_advance_def Let_def fill(1) [symmetric, simplified] comp_def)
  moreover have "console_inv (advance a)"
    using assms fill(2) by (auto simp: console_inv_def adv list_all_iff metric_ok_def comp_def entry_def)
  ultimately show ?thesis by (simp add: adv)
qed

lemma tick_value:
  assumes "console_inv a"
  shows "\<exists>t. smod32 (ar_tick a + 1) (ar_window a) = Inr t \<and> sint t = (sint (ar_tick a) + 1) mod sint (ar_window a) \<and>
    (t = 0 \<longleftrightarrow> sint t = 0) \<and> 0 \<le> sint t \<and> sint t < sint (ar_window a)"
proof -
  let ?t = "sint (ar_tick a)" and ?w = "sint (ar_window a)"
  have b: "0 < ?w" "0 \<le> ?t" "?t < ?w" using assms by (auto simp: console_inv_def)
  have w: "?w < 2 ^ 31" using sint_lt [of "ar_window a"] by simp
  have "ar_tick a + 1 = word_of_int (?t + 1)" by simp
  then have next_tick: "sint (ar_tick a + 1) = ?t + 1" using sint_word_of_int_small [of "?t + 1"] b w by simp
  have m: "0 \<le> (?t + 1) mod ?w" "(?t + 1) mod ?w < ?w" using b by auto
  have s: "(?t + 1) smod ?w = (?t + 1) mod ?w" using b by (simp add: smod_pos)
  have r: "sint (word_of_int ((?t + 1) mod ?w) :: 32 word) = (?t + 1) mod ?w" using sint_word_of_int_small m w by auto
  have "ar_window a \<noteq> 0" "ar_window a \<noteq> - 1" using b by auto
  then have "smod32 (ar_tick a + 1) (ar_window a) = Inr (word_of_int ((?t + 1) mod ?w))"
    by (simp add: smod32_def next_tick s)
  then show ?thesis using r m by (auto simp: signed_eq_0_iff)
qed

lemma reactor_ring:
  assumes inv: "console_inv a" and run: "artist_reactor E X sock p a = Inr (v, b, ds)" and sock: "sock \<in> {Con_tock, Con_subscriber}"
  shows "v = CONTINUE \<and> console_inv b \<and> ring_of b = ring_step (sint (ar_window a)) (ar_pattern a) (ar_mask a) (E, X, sock, p) (ring_of a) \<and>
    ar_window b = ar_window a \<and> ar_pattern b = ar_pattern a \<and> ar_mask b = ar_mask a"
proof (cases "sock = Con_tock")
  case tock: True
  obtain t where t: "smod32 (ar_tick a + 1) (ar_window a) = Inr t" "sint t = (sint (ar_tick a) + 1) mod sint (ar_window a)"
    "t = 0 \<longleftrightarrow> sint t = 0" "0 \<le> sint t" "sint t < sint (ar_window a)" using tick_value [OF inv] by blast
  let ?a = "a\<lparr>ar_tick := t\<rparr>"
  have ia: "console_inv ?a" using inv t by (simp add: console_inv_def)
  from run tock t(1) obtain c cs ds' where v: "v = CONTINUE"
    and c: "(if t = 0 then s_redraw X (advance ?a) else Inr (?a, [])) = Inr (c, cs)" and k: "console_key X c = Inr (b, ds')"
    by (auto simp: artist_reactor_def console_tock_def bind_res_Inr_iff)
  have cb: "same_ring c b" using key_same [OF k] .
  have "same_ring (if t = 0 then advance ?a else ?a) c"
    using c by (auto simp: same_ring_def split: if_splits dest!: redraw_same)
  then show ?thesis using v cb ia t(2,3) advance_ring [OF ia] same_ring_keeps [OF cb] same_ring_keeps [of _ c] tock
    by (cases "t = 0") (auto simp: ring_step_def ring_of_def same_ring_def Let_def)
next
  case False
  then have sub: "sock = Con_subscriber" using sock by auto
  show ?thesis
  proof (cases "console_match (ar_mask a) p")
    case True
    then obtain c where c: "s_ingest E X p a = Inr c" and b: "s_redraw X c = Inr (b, ds)" and v: "v = CONTINUE"
      using run sub by (auto simp: artist_reactor_def bind_res_Inr_iff)
    show ?thesis using ingest_ring [OF inv c True] same_ring_keeps [OF redraw_same [OF b]] redraw_same [OF b] v sub
      by (auto simp: same_ring_def)
  next
    case False
    then show ?thesis using run sub inv
      by (auto simp: artist_reactor_def ring_step_def measured_def split: option.splits)
  qed
qed

text \<open>
  C36: whatever the kernel broadcasts and however often the clock ticks, the arrays of the
  console implement the abstract ring: each metric has at most one entry, a value lands in
  the slot of the fill pointer of every metric that is shown, the pointer moves every \<open>window\<close>
  ticks and clears the slot it comes to, and drawing and scrolling change nothing.
\<close>

theorem console_ring:
  assumes "console_inv a" and "artist_loop ms a = Inr (v, b, ds)" and "\<forall>(E, X, sock, p) \<in> set ms. sock \<in> {Con_tock, Con_subscriber}"
  shows "v = CONTINUE \<and> console_inv b \<and> ring_of b = fold (ring_step (sint (ar_window a)) (ar_pattern a) (ar_mask a)) ms (ring_of a)"
  using assms
proof (induction ms arbitrary: a ds)
  case (Cons m ms)
  obtain E X sock p where m: "m = (E, X, sock, p)" by (cases m) auto
  from Cons.prems(3) have sock: "sock \<in> {Con_tock, Con_subscriber}" by (auto simp: m)
  from Cons.prems(2) obtain c u cs where c: "artist_reactor E X sock p a = Inr (u, c, cs)"
    by (auto simp: m bind_res_Inr_iff)
  note step = reactor_ring [OF Cons.prems(1) c sock]
  from Cons.prems(2) c step obtain ds' where "artist_loop ms c = Inr (v, b, ds')"
    by (auto simp: m bind_res_Inr_iff)
  from Cons.IH [OF _ this] step Cons.prems(3) show ?case by (auto simp: m)
qed simp

definition demo_console :: console_env where
  "demo_console = \<lparr>ce_size = (4, 48), ce_key = KEY_DOWN, ce_strtold = (\<lambda>s. (Some (real_of_int (strtol s)), number_end s)),
     ce_fmt = (\<lambda>x. show_int \<lfloor>x\<rfloor>), ce_pid = 7, ce_version = ''1'', ce_last = 0\<rparr>"

definition demo_artist :: artist_t where
  "demo_artist = (console_start (Some ''bolo|%e'') (Some ''%n/%N'') console_defaults)\<lparr>ar_window := 1, ar_pattern := ''a''\<rparr>"

definition demo_run :: "(env \<times> console_env \<times> console_socket \<times> pdu) list" where
  "demo_run = [(plain_env, demo_console, Con_subscriber, [''COUNTER'', ''1'', ''a'', ''5'']),
     (plain_env, demo_console, Con_tock, []), (plain_env, demo_console, Con_subscriber, [''COUNTER'', ''1'', ''a'', ''7''])]"

lemma demo_returns: "\<not> isl (artist_loop demo_run demo_artist)"
  by code_simp

lemma demo_inv: "console_inv demo_artist"
  by code_simp

theorem console_ring_witness:
  "\<exists>v b ds. artist_loop demo_run demo_artist = Inr (v, b, ds) \<and> console_inv b \<and> rg_fill (ring_of b) = 1 \<and>
    rg_data (ring_of b) (CHR ''C'', ''a'') = Some ((\<lambda>_. None)(0 := Some 5, 1 := Some 7))"
proof -
  obtain v b ds where run: "artist_loop demo_run demo_artist = Inr (v, b, ds)"
    using demo_returns by (cases "artist_loop demo_run demo_artist") auto
  have "\<forall>(E, X, sock, p) \<in> set demo_run. sock \<in> {Con_tock, Con_subscriber}" by (simp add: demo_run_def)
  from console_ring [OF demo_inv run this] have "console_inv b"
    "ring_of b = fold (ring_step 1 ''a'' 0x3f) demo_run \<lparr>rg_tick = 0, rg_fill = 0, rg_data = Map.empty\<rparr>"
    by (simp_all add: demo_artist_def console_start_def console_defaults_def ring_of_def)
  moreover have "measured demo_console 0x3f [''COUNTER'', ''1'', ''a'', ''5''] = Some ((CHR ''C'', ''a''), Some 5)"
    "measured demo_console 0x3f [''COUNTER'', ''1'', ''a'', ''7''] = Some ((CHR ''C'', ''a''), Some 7)"
    by code_simp+
  ultimately show ?thesis using run
    by (auto simp: demo_run_def ring_step_def ring_store_def ring_advance_def Let_def fun_eq_iff)
qed

section \<open>The rows\<close>

text \<open>
  A terminal that leaves room for the graph, and for no more than 2047 dots in front of it, is drawn without
  leaving the arrays, one line per metric shown.
\<close>

lemma graph_length: "length (concat (map (graph_cell mn mx wide) xs)) \<le> 3 * length xs"
proof (induction xs)
  case (Cons x xs)
  have "length (graph_cell mn mx wide x) \<le> 3" by (auto simp: graph_cell_def Let_def split: option.splits)
  with Cons show ?case by simp
qed simp

lemma draw_row_wide:
  assumes "console_inv a" "metric_ok m" "0 \<le> ar_w_graph a" "ar_w_graph a < 2048"
  shows "\<exists>t rest. draw_row X a i m = Inr (Mvprintw (1 + int i) 0 t # rest) \<and> (\<forall>d \<in> set rest. \<exists>u. d = Printw u \<or> d = Clrtoeol)"
proof -
  obtain xs where xs: "slots a m = Inr xs" and n: "length xs \<le> 255"
    using assms(1,2) by (auto simp: slots_def console_inv_def metric_ok_def)
  have len: "length (concat (map (graph_cell mn mx wide) (take (nat (ar_w_graph a)) xs))) < 769" for mn mx wide
    using graph_length [of mn mx wide "take (nat (ar_w_graph a)) xs"] n by simp
  have "\<forall>mn mx wide. \<exists>gd. graph_of a mn mx wide xs = Inr gd"
    using assms(3,4) len by (auto simp: graph_of_def MAX_VALUES_def Let_def not_le)
  then obtain G where "\<And>mn mx wide. graph_of a mn mx wide xs = Inr (G mn mx wide)" by metis
  then show ?thesis by (auto simp: draw_row_def xs Let_def split: prod.splits)
qed

text \<open>On a terminal too narrow for the columns any metric makes the drawing leave the array of dots.\<close>

lemma draw_row_narrow:
  assumes "console_inv a" "metric_ok m" "ar_w_graph a < 0"
  shows "draw_row X a i m = Inl OutOfBounds"
proof -
  have "\<exists>xs. slots a m = Inr xs" using assms(1,2) by (simp add: slots_def console_inv_def metric_ok_def)
  moreover have "graph_of a mn mx wide xs = Inl OutOfBounds" for mn mx wide xs using assms(3) by (simp add: graph_of_def Let_def)
  ultimately show ?thesis by (auto simp: draw_row_def Let_def bind_res_def split: prod.splits)
qed

text \<open>The slot of the first window is never drawn: until the pointer has moved, the value shown is whatever the variable held.\<close>

lemma first_window_hidden:
  assumes "console_inv a" "metric_ok m" "ar_fill a = 0" "0 \<le> ar_w_graph a" "ar_w_graph a < 2048"
  shows "\<exists>g rest. draw_row X a i m = Inr (Mvprintw (1 + int i) 0 ('' '' @ [cm_type m] @ ''  '' @ pad_right (ar_w_name a) (cm_name m) @ ''  '' @
    ce_fmt X (fst (simplify (ce_last X))) @ '' '' @ [snd (simplify (ce_last X))] @ ''  '' @ '' '') # rest)"
  using assms by (auto simp: draw_row_def slots_def console_inv_def metric_ok_def set_values_def graph_of_def Let_def map_filter_simps
      MAX_VALUES_def split: prod.splits)

end
