(* ===== verification/Bolo_Nsca.thy ===== *)
theory Bolo_Nsca
  imports Bolo_Pdu
begin

text \<open>
  The program \<open>bolo_nsca\<close> (\<open>src/src/bolo_nsca/main.c\<close>): it reads check results from standard
  input, fields separated by tabs and results ended by the byte 0x17, and submits them.

  The memory of the line buffer is modelled as it is: 8192 bytes that are not cleared, in
  which the scanning loops run until they find a byte they stop at. Reads, the outcome
  of sending and the answer of the server are given from outside; texts on standard error are left out.
\<close>

section \<open>Splitting a line\<close>

abbreviation (input) TAB :: char where "TAB \<equiv> CHR 9"
abbreviation (input) ETB :: char where "ETB \<equiv> CHR 0x17"

definition scan_to :: "char list \<Rightarrow> nat \<Rightarrow> string \<Rightarrow> nat res" where
  "scan_to stops p mem =
     (let q = p + length (takeWhile (\<lambda>c. c \<notin> set stops) (drop p mem))
      in if q < length mem then Inr q else Inl OutOfBounds)"

definition slice :: "nat \<Rightarrow> nat \<Rightarrow> string \<Rightarrow> string" where
  "slice a b mem = take (b - a) (drop a mem)"

text \<open>
  The outcome of looking at the buffer: the place \<open>p\<close> where the scan stopped, the buffer with the
  terminators written into it, and the name, code and message unless the line is malformed.
\<close>

record nsca_scan =
  sc_p :: nat
  sc_mem :: string
  sc_fields :: "(string \<times> string \<times> string) option"

definition malformed :: "nat \<Rightarrow> string \<Rightarrow> nsca_scan res" where
  "malformed p mem = Inr \<lparr>sc_p = p, sc_mem = mem, sc_fields = None\<rparr>"

text \<open>The end of a message: a newline before the terminator is overwritten too.\<close>

definition finish :: "string \<Rightarrow> string \<Rightarrow> nat \<Rightarrow> nat \<Rightarrow> string \<Rightarrow> nsca_scan res" where
  "finish name code a p mem =
     (let mem = mem[p := NUL]; msg = slice a p mem
      in if msg \<noteq> [] \<and> last msg = CHR 10
         then Inr \<lparr>sc_p = p, sc_mem = mem[p - 1 := NUL], sc_fields = Some (name, code, butlast msg)\<rparr>
         else Inr \<lparr>sc_p = p, sc_mem = mem, sc_fields = Some (name, code, msg)\<rparr>)"

definition nsca_fields :: "string \<Rightarrow> nsca_scan res" where
  "nsca_fields mem =
     bind_res (scan_to [NUL, TAB, ETB] 0 mem) (\<lambda>p0.
     if mem ! p0 \<noteq> TAB then malformed p0 mem
     else let mem = mem[p0 := NUL] in
     bind_res (scan_to [NUL, TAB, ETB] (p0 + 1) mem) (\<lambda>p1.
     if mem ! p1 \<noteq> TAB then malformed p1 mem
     else let mem = mem[p1 := NUL] in
     bind_res (scan_to [NUL, TAB, ETB] (p1 + 1) mem) (\<lambda>p2.
     if mem ! p2 = NUL then malformed p2 mem
     else if mem ! p2 = ETB
       then finish (slice 0 p0 mem) (slice (p0 + 1) p1 mem) (p1 + 1) p2 mem
     else let mem = mem[p2 := NUL] in
     bind_res (scan_to [NUL, ETB] (p2 + 1) mem) (\<lambda>p3.
     if mem ! p3 = NUL then malformed p3 mem
     else finish (slice 0 p0 mem @ '':'' @ slice (p0 + 1) p1 mem) (slice (p1 + 1) p2 mem) (p2 + 1) p3 mem))))"

section \<open>The loop\<close>

text \<open>
  \<open>CONSUME\<close>: what follows the terminator moves to the front, the rest of the buffer keeps its old bytes,
  and the offset of the next read is the length of what was consumed.
\<close>

definition consume :: "nat \<Rightarrow> string \<Rightarrow> string \<times> nat" where
  "consume p mem = (drop (p + 1) mem @ drop (length mem - (p + 1)) mem, p)"

datatype nsca_answer = No_response | Alarm_first | Answer pdu

record nsca_input =
  ni_read :: "string option"
  ni_sent :: bool
  ni_answer :: nsca_answer

datatype nsca_end = Exit nat | Killed | Reading

text \<open>One submission: the end of the program, or \<open>Reading\<close> when it goes on.\<close>

definition nsca_submit :: "nsca_input \<Rightarrow> string \<times> string \<times> string \<Rightarrow> nsca_end \<times> pdu list" where
  "nsca_submit i = (\<lambda>(name, code, msg).
     if name = [] \<or> msg = [] then (Exit 2, [])
     else if \<not> ni_sent i then (Exit 3, [])
     else (case ni_answer i of No_response \<Rightarrow> Exit 4 | Alarm_first \<Rightarrow> Killed
             | Answer a \<Rightarrow> if take 1 a \<noteq> [''OK''] then Exit 4 else Reading,
           [[''SUBMIT'', name, show_int (uint (status_code code)), msg]]))"

definition nsca_turn :: "nsca_input \<Rightarrow> string \<times> nat \<Rightarrow> (nsca_end \<times> (string \<times> nat) \<times> pdu list) res" where
  "nsca_turn i = (\<lambda>(mem, offset).
     case ni_read i of None \<Rightarrow> Inr (Exit 0, (mem, offset), [])
     | Some d \<Rightarrow>
       (let d = take (length mem - offset) d; mem = take offset mem @ d @ drop (offset + length d) mem
        in if d = [] \<and> (mem ! 0 = NUL \<or> mem ! 0 = ETB) then Inr (Exit 0, (mem, offset), [])
           else bind_res (nsca_fields mem) (\<lambda>s.
             case sc_fields s of
               None \<Rightarrow> Inr (Reading, consume (sc_p s) (sc_mem s), [])
             | Some f \<Rightarrow> (let (e, out) = nsca_submit i f in Inr (e, consume (sc_p s) (sc_mem s), out)))))"

fun nsca_loop :: "nsca_input list \<Rightarrow> string \<times> nat \<Rightarrow> (nsca_end \<times> pdu list) res" where
  "nsca_loop [] b = Inr (Reading, [])"
| "nsca_loop (i # is) b =
     bind_res (nsca_turn i b) (\<lambda>(e, b, out).
       if e \<noteq> Reading then Inr (e, out)
       else bind_res (nsca_loop is b) (\<lambda>(e, out'). Inr (e, out @ out')))"

record nsca_options =
  no_endpoint :: string
  no_verbose :: nat

fun nsca_getopt :: "(char \<times> string) list \<Rightarrow> nsca_options \<Rightarrow> nat + nsca_options" where
  "nsca_getopt [] o1 = Inr o1"
| "nsca_getopt ((c, arg) # cs) o1 =
     (if c = CHR ''h'' \<or> c = CHR ''?'' then nsca_getopt cs o1
      else if c = CHR ''v'' then nsca_getopt cs (o1\<lparr>no_verbose := no_verbose o1 + 1\<rparr>)
      else if c = CHR ''e'' then nsca_getopt cs (o1\<lparr>no_endpoint := arg\<rparr>)
      else Inl 1)"

text \<open>
  The main function: \<open>z\<close> tells whether the context, the socket and the connection to an endpoint
  come up, and \<open>junk\<close> is what the stack holds where the buffer lies.
\<close>

definition bolo_nsca_main :: "(string \<Rightarrow> bool) \<Rightarrow> string \<Rightarrow> (char \<times> string) list \<Rightarrow> nsca_input list \<Rightarrow> (nsca_end \<times> pdu list) res" where
  "bolo_nsca_main z junk argv is =
     (case nsca_getopt argv \<lparr>no_endpoint = ''tcp://127.0.0.1:2999'', no_verbose = 0\<rparr> of
        Inl rc \<Rightarrow> Inr (Exit rc, [])
      | Inr o1 \<Rightarrow> if \<not> z (no_endpoint o1) then Inr (Exit 3, []) else nsca_loop is (junk, 0))"

section \<open>What holds\<close>

lemma scan_to_field:
  assumes "\<forall>c \<in> set w. c \<notin> set stops" "c \<in> set stops"
  shows "scan_to stops (length pre) (pre @ w @ c # post) = Inr (length pre + length w)"
proof -
  have "takeWhile (\<lambda>c. c \<notin> set stops) (w @ c # post) = w" using assms by (simp add: takeWhile_tail)
  then show ?thesis by (simp add: scan_to_def)
qed

text \<open>
  The first result the program reads, with a host, a code and a message, becomes one \<open>SUBMIT\<close>
  with the status the code stands for and the message without its newline; what follows
  in the buffer is at its front for the next turn.
\<close>

lemma nsca_fields_host:
  assumes "\<forall>c \<in> set h \<union> set k \<union> set m. c \<notin> {NUL, TAB, ETB}" "CHR 10 \<notin> set m"
  shows "nsca_fields (h @ TAB # k @ TAB # m @ [CHR 10] @ ETB # post) =
    Inr \<lparr>sc_p = length h + length k + length m + 3, sc_mem = h @ NUL # k @ NUL # m @ NUL # NUL # post, sc_fields = Some (h, k, m)\<rparr>"
proof -
  let ?s = "[NUL, TAB, ETB]" and ?tail = "m @ [CHR 10] @ ETB # post"
  have 1: "scan_to ?s 0 (h @ TAB # k @ TAB # ?tail) = Inr (length h)"
    using scan_to_field [of h ?s TAB "[]"] assms by auto
  have 2: "scan_to ?s (Suc (length h)) (h @ NUL # k @ TAB # ?tail) = Inr (Suc (length h + length k))"
    using scan_to_field [of k ?s TAB "h @ [NUL]" ?tail] assms by auto
  have 3: "scan_to ?s (Suc (Suc (length h + length k))) (h @ NUL # k @ NUL # ?tail) =
      Inr (Suc (Suc (Suc (length h + length k + length m))))"
    using scan_to_field [of "m @ [CHR 10]" ?s ETB "h @ NUL # k @ [NUL]" post] assms by auto
  show ?thesis
    using 1 2 3 by (simp add: nsca_fields_def finish_def slice_def nth_append list_update_append Let_def)
qed

lemma nsca_first_result:
  assumes "\<forall>c \<in> set h \<union> set k \<union> set m. c \<notin> {NUL, TAB, ETB}" "CHR 10 \<notin> set m" "h \<noteq> []" "m \<noteq> []"
    and "ni_read i = Some (h @ TAB # k @ TAB # m @ [CHR 10, ETB])" "ni_sent i" "ni_answer i = Answer a" "take 1 a = [''OK'']"
    and "length junk = 8192" "length h + length k + length m + 4 \<le> 8192"
  shows "\<exists>b. nsca_turn i (junk, 0) = Inr (Reading, b, [[''SUBMIT'', h, show_int (uint (status_code k)), m]])"
  using nsca_fields_host [OF assms(1,2), of "drop (Suc (Suc (Suc (Suc (length h + (length k + length m)))))) junk"] assms(3-)
  by (simp add: nsca_turn_def nsca_submit_def Let_def)

text \<open>
  No handler of the kernel takes such a PDU: submitted to the listener it changes nothing and is not
  answered. A \<open>STATE\<close> has a time stamp as well.
\<close>

lemma nsca_ignored: "kernel_reactor E S_listener [''SUBMIT'', name, code, msg] K = Inr (CONTINUE, K, [])"
  by (simp add: kernel_reactor_def listener_def pdu_is_def)

text \<open>
  The offset of the next read is the length of the consumed result, not of what is left. After
  a first read that brought exactly one result the next read leaves a gap of old bytes at the front.
\<close>

lemma nsca_gap:
  "nsca_loop [\<lparr>ni_read = Some (''h'' @ TAB # ''0'' @ TAB # ''m'' @ [ETB]), ni_sent = True, ni_answer = Answer [''OK'']\<rparr>,
              \<lparr>ni_read = Some (''i'' @ TAB # ''1'' @ TAB # ''n'' @ [ETB]), ni_sent = True, ni_answer = Answer [''OK'']\<rparr>]
     (replicate 20 NUL, 0) = Inr (Reading, [[''SUBMIT'', ''h'', ''0'', ''m'']])"
  by code_simp

end
