(* ===== verification/Bolo_Tsdp.thy ===== *)
theory Bolo_Tsdp
  imports Bolo_Prelude
begin

text \<open>
  The PDUs of \<open>libtsdp\<close> (\<open>tsdp/create.c\<close>, \<open>destroy.c\<close>, \<open>extend.c\<close>, \<open>get.c\<close>, \<open>set.c\<close> and
  \<open>strings.c\<close>): the constructor, the accessors and the frame list. No program of the repository
  uses the library. Packing and unpacking are not modelled: both write outside their objects
  as soon as their arguments pass the first checks.

  A PDU is a C object whose pointers may be uninitialised, so a frame list is a chain that ends
  either in the null pointer or in a wild one; what \<open>malloc\<close> leaves in a fresh object is a parameter.
  Functions return the C result, with 0 for success and the negated error number otherwise.
\<close>

unbundle bit_operations_syntax

section \<open>Objects\<close>

record tsdp_frame =
  frame_type :: "32 word"
  frame_size :: "32 word"
  frame_data :: string

datatype frames = Null | Wild | Frame tsdp_frame frames

record tsdp_t =
  pdu_version :: "32 word"
  pdu_opcode :: "32 word"
  pdu_flags :: "32 word"
  pdu_payloads :: "32 word"
  pdu_frames :: frames
  pdu_nframes :: "32 word"
  pdu_octets :: "32 word"

definition EINVAL :: "32 word" where "EINVAL = 22"

definition TSDP_EBADTYPE :: "32 word" where "TSDP_EBADTYPE = 4"

definition tsdp_valid_opcode :: "32 word \<Rightarrow> bool" where
  "tsdp_valid_opcode x \<longleftrightarrow> x AND 0xfa = 0"

definition tsdp_valid_type :: "32 word \<Rightarrow> bool" where
  "tsdp_valid_type x \<longleftrightarrow> x AND 0xfb = 0"

section \<open>Creating and destroying\<close>

text \<open>
  The argument \<open>fresh\<close> is what \<open>malloc\<close> returns. The frame list and the two counters keep whatever
  it held.
\<close>

definition tsdp_create :: "tsdp_t \<Rightarrow> 32 word \<Rightarrow> 32 word \<Rightarrow> 32 word \<times> tsdp_t option" where
  "tsdp_create fresh version opcode =
    (if version \<noteq> 1 \<or> \<not> tsdp_valid_opcode opcode then (- EINVAL, None)
     else (0, Some (fresh\<lparr>pdu_version := version, pdu_opcode := opcode, pdu_payloads := 0, pdu_flags := 0\<rparr>)))"

text \<open>Destroying walks the list; the result is the frames given back to the allocator.\<close>

fun free_frames :: "frames \<Rightarrow> tsdp_frame list res" where
  "free_frames Null = Inr []"
| "free_frames Wild = Inl BadFree"
| "free_frames (Frame f n) = bind_res (free_frames n) (\<lambda>fs. Inr (f # fs))"

definition tsdp_destroy :: "tsdp_t option \<Rightarrow> tsdp_frame list res" where
  "tsdp_destroy p = (case p of None \<Rightarrow> Inr [] | Some pdu \<Rightarrow> free_frames (pdu_frames pdu))"

section \<open>Frames\<close>

text \<open>
  The loop of \<open>tsdp_extend\<close> assigns through \<open>frame\<close> instead of moving it: \<open>pdu->frames\<close> itself
  runs down the list. The \<open>next\<close> pointer of the new frame is not set; \<open>junk\<close> is its value. The
  data come from the caller's memory, which must hold \<open>len\<close> bytes.
\<close>

fun run_down :: "frames \<Rightarrow> frames res" where
  "run_down Null = Inr Null"
| "run_down Wild = Inl OutOfBounds"
| "run_down (Frame f n) = run_down n"

definition tsdp_extend :: "frames \<Rightarrow> tsdp_t \<Rightarrow> 32 word \<Rightarrow> string \<Rightarrow> 32 word \<Rightarrow> (32 word \<times> tsdp_t) res" where
  "tsdp_extend junk pdu type data len =
    bind_res (run_down (pdu_frames pdu)) (\<lambda>_.
      if sint len < 0 \<or> length data < unat len then Inl OutOfBounds
      else Inr (0, pdu\<lparr>pdu_frames := Frame \<lparr>frame_type = type, frame_size = len, frame_data = take (unat len) data\<rparr> junk,
                       pdu_nframes := pdu_nframes pdu + 1\<rparr>))"

fun nthframe :: "frames \<Rightarrow> nat \<Rightarrow> tsdp_frame option res" where
  "nthframe Null n = Inr None"
| "nthframe Wild n = Inl OutOfBounds"
| "nthframe (Frame f r) 0 = Inr (Some f)"
| "nthframe (Frame f r) (Suc n) = nthframe r n"

definition tsdp_frame_at :: "tsdp_t option \<Rightarrow> 32 word \<Rightarrow> tsdp_frame option res" where
  "tsdp_frame_at p n = (case p of None \<Rightarrow> Inr None | Some pdu \<Rightarrow>
    (if sint n > sint (pdu_nframes pdu) then Inr None else nthframe (pdu_frames pdu) (nat (sint n))))"

definition tsdp_get_frame_type :: "tsdp_t option \<Rightarrow> 32 word \<Rightarrow> 32 word res" where
  "tsdp_get_frame_type p n =
    bind_res (tsdp_frame_at p n) (\<lambda>f. Inr (case f of None \<Rightarrow> - EINVAL | Some f \<Rightarrow> frame_type f))"

definition tsdp_get_frame_size :: "tsdp_t option \<Rightarrow> 32 word \<Rightarrow> 32 word res" where
  "tsdp_get_frame_size p n =
    bind_res (tsdp_frame_at p n) (\<lambda>f. Inr (case f of None \<Rightarrow> - EINVAL | Some f \<Rightarrow> frame_size f))"

definition tsdp_get_frame_value :: "tsdp_t option \<Rightarrow> 32 word \<Rightarrow> 32 word \<Rightarrow> (32 word \<times> string option) res" where
  "tsdp_get_frame_value p n type =
    (if \<not> tsdp_valid_type type then Inr (- EINVAL, None)
     else bind_res (tsdp_frame_at p n) (\<lambda>f. Inr (case f of None \<Rightarrow> (- EINVAL, None)
       | Some f \<Rightarrow> if frame_type f \<noteq> type then (- TSDP_EBADTYPE, None) else (0, Some (frame_data f)))))"

section \<open>Accessors\<close>

definition tsdp_get :: "(tsdp_t \<Rightarrow> 32 word) \<Rightarrow> tsdp_t option \<Rightarrow> 32 word" where
  "tsdp_get field p = (case p of None \<Rightarrow> - EINVAL | Some pdu \<Rightarrow> field pdu)"

definition tsdp_get_version :: "tsdp_t option \<Rightarrow> 32 word" where "tsdp_get_version = tsdp_get pdu_version"

definition tsdp_get_opcode :: "tsdp_t option \<Rightarrow> 32 word" where "tsdp_get_opcode = tsdp_get pdu_opcode"

definition tsdp_get_flags :: "tsdp_t option \<Rightarrow> 32 word" where "tsdp_get_flags = tsdp_get pdu_flags"

definition tsdp_get_payloads :: "tsdp_t option \<Rightarrow> 32 word" where "tsdp_get_payloads = tsdp_get pdu_payloads"

definition tsdp_get_size :: "tsdp_t option \<Rightarrow> 32 word" where "tsdp_get_size = tsdp_get pdu_nframes"

definition tsdp_set_version :: "tsdp_t option \<Rightarrow> 32 word \<Rightarrow> 32 word \<times> tsdp_t option" where
  "tsdp_set_version p version = (case p of None \<Rightarrow> (- EINVAL, p) | Some pdu \<Rightarrow>
    if version \<noteq> 1 then (- EINVAL, p) else (0, Some (pdu\<lparr>pdu_version := version\<rparr>)))"

definition tsdp_set_opcode :: "tsdp_t option \<Rightarrow> 32 word \<Rightarrow> 32 word \<times> tsdp_t option" where
  "tsdp_set_opcode p opcode = (case p of None \<Rightarrow> (- EINVAL, p) | Some pdu \<Rightarrow>
    if \<not> tsdp_valid_opcode opcode then (- EINVAL, p) else (0, Some (pdu\<lparr>pdu_opcode := opcode\<rparr>)))"

definition tsdp_set_flags :: "tsdp_t option \<Rightarrow> 32 word \<Rightarrow> 32 word \<times> tsdp_t option" where
  "tsdp_set_flags p fl = (case p of None \<Rightarrow> (- EINVAL, p) | Some pdu \<Rightarrow>
    if fl \<noteq> fl AND 0xff then (- EINVAL, p) else (0, Some (pdu\<lparr>pdu_flags := fl AND 0xff\<rparr>)))"

definition tsdp_set_payloads :: "tsdp_t option \<Rightarrow> 32 word \<Rightarrow> 32 word \<times> tsdp_t option" where
  "tsdp_set_payloads p pl = (case p of None \<Rightarrow> (- EINVAL, p) | Some pdu \<Rightarrow>
    if pl \<noteq> pl AND 0xffff then (- EINVAL, p) else (0, Some (pdu\<lparr>pdu_payloads := pl AND 0xffff\<rparr>)))"

definition tsdp_error_str :: "32 word \<Rightarrow> string" where
  "tsdp_error_str e =
    (if sint e < 0 \<or> sint e > 4 then ''(uh-oh, that error number is out-of-bounds...)''
     else [''Success!'', ''Buffer too size for requested operation'', ''Early final frame found'',
       ''No final frame found'', ''Frame type mismatch''] ! unat e)"

definition tsdp_opcode_str :: "32 word \<Rightarrow> string" where
  "tsdp_opcode_str opcode =
    (if sint opcode < 0 \<or> sint opcode > 5 then ''<unknown>''
     else [''HEARTBEAT'', ''SUBMIT'', ''BROADCAST'', ''FORGET'', ''REPLAY'', ''SUBSCRIBER''] ! unat opcode)"

section \<open>What holds\<close>

text \<open>A PDU that was created and whose fields were set gives the values back, whatever memory it was made of.\<close>

lemma tsdp_fields:
  assumes "tsdp_create fresh 1 op = (0, Some p)" "fl = fl AND 0xff" "pl = pl AND 0xffff"
  shows "\<exists>q r. tsdp_set_flags (Some p) fl = (0, Some q) \<and> tsdp_set_payloads (Some q) pl = (0, Some r) \<and>
    tsdp_get_version (Some r) = 1 \<and> tsdp_get_opcode (Some r) = op \<and>
    tsdp_get_flags (Some r) = fl \<and> tsdp_get_payloads (Some r) = pl"
proof -
  have "p = fresh\<lparr>pdu_version := 1, pdu_opcode := op, pdu_payloads := 0, pdu_flags := 0\<rparr>"
    using assms(1) by (auto simp: tsdp_create_def EINVAL_def split: if_splits)
  then show ?thesis using assms(2,3)
    by (simp add: tsdp_set_flags_def tsdp_set_payloads_def tsdp_get_version_def tsdp_get_opcode_def
        tsdp_get_flags_def tsdp_get_payloads_def tsdp_get_def)
qed

text \<open>
  Of the six operations two are refused, \<open>BROADCAST\<close> and \<open>FORGET\<close>: the mask of reserved
  bits covers the bit they have in common. Of the five frame types only \<open>NIL\<close> and
  \<open>TSTAMP\<close> can be read.
\<close>

lemma tsdp_opcodes: "filter tsdp_valid_opcode [0, 1, 2, 3, 4, 5] = [0, 1, 4, 5]"
  by (simp add: tsdp_valid_opcode_def)

lemma tsdp_types: "filter tsdp_valid_type [0, 1, 2, 3, 4] = [0, 4]"
  by (simp add: tsdp_valid_type_def)

text \<open>
  Extending a PDU that has frames loses all of them but counts them: the number of frames is right,
  and asking for the second one gives an error even when unset pointers happen to be null.
\<close>

lemma tsdp_extend_loses:
  assumes "pdu_frames pdu = Null" "pdu_nframes pdu = 0" "length d = unat l" "sint l \<ge> 0" "length d' = unat l'" "sint l' \<ge> 0"
  shows "\<exists>p q. tsdp_extend Null pdu t d l = Inr (0, p) \<and> tsdp_extend Null p t' d' l' = Inr (0, q) \<and>
    tsdp_get_size (Some q) = 2 \<and> tsdp_get_frame_type (Some q) 0 = Inr t' \<and>
    tsdp_get_frame_type (Some q) 1 = Inr (- EINVAL)"
  using assms by (simp add: tsdp_extend_def tsdp_get_size_def tsdp_get_def tsdp_get_frame_type_def tsdp_frame_at_def)

text \<open>
  The first extension already needs the allocator to have returned zeros: with a wild frame pointer
  it follows it.
\<close>

lemma tsdp_extend_uninitialised:
  assumes "pdu_frames fresh = Wild" "tsdp_valid_opcode op"
  shows "\<exists>p. tsdp_create fresh 1 op = (0, Some p) \<and> tsdp_extend junk p t d l = Inl OutOfBounds \<and>
    tsdp_destroy (Some p) = Inl BadFree"
  using assms by (simp add: tsdp_create_def tsdp_extend_def tsdp_destroy_def)

end
