(* ===== verification/Spec2Isabelle.thy ===== *)
theory Spec2Isabelle
  imports Bolo_Name Bolo_Aggregator Bolo_Agent Bolo_Cache Bolo_Rrd Bolo_Outputs Bolo_Opentsdb Bolo_Commands Bolo_Spy Bolo_Slack Bolo_Console Bolo_Nsca Bolo_Tsdp
begin

text \<open>
  A verification of the bolo monitoring system.

  \<^bold>\<open>The program.\<close> The aggregator (\<open>bolo aggr\<close>) keeps a database of states, counters, samples, rates,
  events and keys. Its kernel thread takes submissions from one socket, management requests
  from another and ticks from the scheduler thread; it broadcasts every change, closes the windows
  of metrics, checks the freshness of states and saves the database to a file it reads back when
  it starts. Submissions come from the agent \<open>dbolo\<close>, the relays \<open>opentsdb2bolo\<close> and \<open>bolo_nsca\<close>
  and the commands of \<open>bolo\<close>. Subscribers take the broadcasts and store or show them:
  \<open>bolo2rrd\<close>, \<open>bolo2pg\<close>, \<open>bolo2log\<close>, \<open>bolo2meta\<close>, \<open>bolo2redis\<close>, \<open>bolo2influxdb\<close>, \<open>bolo2sqlite\<close>,
  \<open>bolo2slack\<close>, \<open>bolo2console\<close> and \<open>bolo cache\<close>.

  \<^bold>\<open>How the code is modelled.\<close> A C structure is a record, a tag a datatype, a machine integer a word of its
  width (or an integer where the source cannot leave its range). A handler takes the state and the
  message and returns the new state with the list of PDUs, rows or texts it emits, in order. A
  trap of the machine is a value: \<open>'a res\<close> is either a fault (division by zero, a null pointer, an access
  out of bounds, a conversion without a defined result, a bad \<open>free\<close>) or a result, and
  \<open>bind_res\<close> sequences. Arrays that the code reuses are modelled with their old contents. A hash table
  is a finite map; the order of its iteration, the clocks, regular expressions, the
  representation of doubles, system calls and files are fields of the record \<open>env\<close>,
  and theorems assume of them only what is documented (each key is visited once, a decoded double is
  the one that was encoded, and the like). Nothing is assumed of a walk that removes entries as it goes, as \<open>FORGET\<close>
  does: which keys it meets is the field \<open>unset_order\<close>. \<open>plain_env\<close> is a concrete environment for the witnesses. Doubles are
  real numbers, so rounding is not modelled.

  \<^bold>\<open>The theories\<close>, with the sources under \<open>src/src\<close> they follow:

  \<^item> \<open>Bolo_Prelude\<close>: faults, C strings and numbers, byte order, walks over tables, the environment. The locale
    \<open>walk_body\<close> is the contract of a loop over a table.
  \<^item> \<open>Bolo_Data\<close> (\<open>bolo.h\<close>, \<open>data.c\<close>): the records \<open>db_t\<close>, \<open>state_t\<close> and so on, lookups with rules (locale
    \<open>rule_table\<close>, interpreted on the four tables), and that a sample holds the statistics of
    its values.
  \<^item> \<open>Bolo_Binf\<close>, \<open>Bolo_Restart\<close> (\<open>binf.c\<close>): the save file byte by byte; what a restart restores (locale
    \<open>restorable\<close>), and when the records fit into the mapped file.
  \<^item> \<open>Bolo_Windows\<close> (\<open>core.c\<close>): counters, samples and rates over windows of time (locales \<open>windowed\<close> and
    \<open>ledger\<close>): one broadcast per window, its contents, and that no increment is lost.
  \<^item> \<open>Bolo_States\<close>, \<open>Bolo_Events\<close>, \<open>Bolo_Keys\<close> (\<open>core.c\<close>): updates and freshness of states, the bounded
    event buffer, keys and the keys file.
  \<^item> \<open>Bolo_Kernel\<close>, \<open>Bolo_Kernel_Inv\<close>, \<open>Bolo_Wire\<close> (\<open>core.c\<close>): every handler of \<open>kernel_reactor\<close>; the invariant
    of the database and safety, by rule induction over \<open>kernel_steps\<close>; submissions, ticks and
    management requests; the frames of every broadcast.
  \<^item> \<open>Bolo_Name\<close> (\<open>bolo_name.c\<close>, \<open>bolo/cmd_name.c\<close>): parsing, printing, matching and changing names.
  \<^item> \<open>Bolo_Config\<close>, \<open>Bolo_Config_Read\<close>, \<open>Bolo_Config_Inv\<close> (\<open>config.c\<close>): the lexer on its line buffer and the reader;
    that reading ends and when it does not, the effect of settings, and what an accepted file
    promises the kernel. \<open>Bolo_Aggregator\<close> (\<open>bolo/cmd_aggregator.c\<close>) composes options, configuration and
    kernel: an aggregator that has started does not trap.
  \<^item> \<open>Bolo_Pdu\<close> (\<open>bolo_pdu.c\<close>) and \<open>Bolo_Agent\<close> (\<open>dbolo/main.c\<close>): the PDUs of submissions up to the database; the schedule
    of commands (spacing, and that a due command is started again), their output split by reads, beacons.
  \<^item> \<open>Bolo_Subscriber\<close> (\<open>bolo_subscriber.c\<close>), \<open>Bolo_Cache\<close> (\<open>bolo/cmd_cache.c\<close>), \<open>Bolo_Rrd\<close> (\<open>bolo2rrd\<close>), \<open>Bolo_Pg\<close>
    (\<open>bolo2pg\<close>), \<open>Bolo_Outputs\<close> (\<open>bolo2log\<close>, \<open>bolo2meta\<close>, \<open>bolo2redis\<close>, \<open>bolo2influxdb\<close>, \<open>bolo2sqlite\<close>), \<open>Bolo_Slack\<close>
    (\<open>bolo2slack\<close>), \<open>Bolo_Console\<close> (\<open>bolo2console\<close>): monitor, cache and outputs, each with what ends up in its store
    after any broadcasts. \<open>Bolo_Track\<close> says which status of a state a subscriber has heard last.
  \<^item> \<open>Bolo_Opentsdb\<close> (\<open>opentsdb2bolo\<close>), \<open>Bolo_Nsca\<close> (\<open>bolo_nsca\<close>): lines of text to submissions, with their buffers.
  \<^item> \<open>Bolo_Commands\<close> (\<open>bolo/main.c\<close>, \<open>cmd_help.c\<close>, \<open>cmd_send.c\<close>, \<open>cmd_forget.c\<close>, \<open>cmd_query.c\<close>, \<open>cmd_tail.c\<close>), \<open>Bolo_Spy\<close>
    (\<open>cmd_spy.c\<close>): the command line, run against the kernel where the command is a request.
  \<^item> \<open>Bolo_Tsdp\<close> (\<open>src/tsdp\<close>): the PDU objects of a library no program uses yet.

  This theory composes kernel and \<open>bolo2pg\<close>: the table follows the database.

  \<^bold>\<open>Loops.\<close> Reactors and main loops that run until a signal are functions of the list of messages
  or turns they meet, so statements about them hold after every prefix of a run. Other loops are
  recursive functions with a termination proof. Only the reader of the configuration
  takes fuel, because on some files it does not end: for a file of complete lines one step more than it
  has characters is enough, and for a file of text settings followed by \<open>dumpfiles dumpfiles\<close> without a newline no number
  is.

  \<^bold>\<open>Not modelled.\<close> \<open>bolo/cmd_version.c\<close> and the help texts only print. \<open>nsca.c\<close> is commented out of the build and
  \<open>util.c\<close> is called from it alone. \<open>tsdp_pack\<close> and \<open>tsdp_unpack\<close> write outside their objects on every
  input that passes their first checks, so they have no behaviour to state. Log output, the modes
  and colours of the terminal, signal masks, the release of memory and the interleaving of
  threads inside one process are left out: threads share nothing but sockets, and each is modelled by the messages
  it receives. Allocation does not fail.
\<close>

section \<open>From the kernel to the staging table\<close>

lemma hears_some: "foldl hears L qs k = None \<longleftrightarrow> L k = None \<and> (\<forall>q \<in> set qs. \<forall>c. status_of q \<noteq> Some (k, c))"
  by (induction qs arbitrary: L) (auto simp: hears_def split: option.splits)

text \<open>
  C33: the kernel handles any messages and all its broadcasts reach \<open>bolo2pg\<close>
  in order. Although the dispatcher leaves out good states it knows, for every state of the
  kernel's database that was broadcast the last row the inserter writes holds its name
  and its current status.
\<close>

theorem pg_tracks_kernel:
  assumes "fmpred (\<lambda>k s. state_name s = k) (states (k_db K))" "kernel_thread ms K = Inr (v, K', fx)"
    and "map (\<lambda>(E, P, q). q) qs = told fx"
  shows "\<exists>D gx. pg_dispatcher_loop (map (\<lambda>(E, P, q). (E, P, Pg_subscriber, q)) qs) \<lparr>pd_seen = fmempty\<rparr> = (CONTINUE, D, gx) \<and>
    (\<forall>k s. fmlookup (states (k_db K')) k = Some s \<and> (\<exists>q \<in> set (told fx). \<exists>c. status_of q = Some (k, c)) \<longrightarrow>
      (\<exists>msg ts. find (\<lambda>r. r ! 0 = k) (rev (staged (concat (map (inserter_queue E P) (sent gx))))) =
        Some [k, statstr (state_status s), msg, ts]))"
proof -
  have "tracks (states (k_db K)) Map.empty" using assms(1) by (auto simp: tracks_def dest: fmpredD)
  from kernel_thread_tracks [OF this assms(2)]
  have t: "news Map.empty (told fx)" "tracks (states (k_db K')) (foldl hears Map.empty (told fx))" by auto
  obtain D gx where D: "pg_dispatcher_loop (map (\<lambda>(E, P, q). (E, P, Pg_subscriber, q)) qs) \<lparr>pd_seen = fmempty\<rparr> = (CONTINUE, D, gx)"
    "foldl hears Map.empty (sent gx) = foldl hears Map.empty (told fx)" "list_all (\<lambda>u. hd u \<noteq> ''TRANSITION'') (sent gx)"
    using pg_follows [of "\<lparr>pd_seen = fmempty\<rparr>" Map.empty qs] t(1) assms(3) by auto
  have "\<exists>msg ts. find (\<lambda>r. r ! 0 = k) (rev (staged (concat (map (inserter_queue E P) (sent gx))))) = Some [k, statstr (state_status s), msg, ts]"
    if "fmlookup (states (k_db K')) k = Some s" "q \<in> set (told fx)" "status_of q = Some (k, c)" for k s q c
  proof -
    from hears_some [of Map.empty "told fx" k] that(2,3) obtain c where c: "foldl hears Map.empty (told fx) k = Some c" by blast
    with t(2) that(1) have "c = statstr (state_status s)" by (auto simp: tracks_def)
    with last_row [OF D(3)] c D(2) show ?thesis by simp
  qed
  with D(1) show ?thesis by blast
qed

definition demo_pg :: pg_lib where
  "demo_pg = \<lparr>pq_exec_prepared = (\<lambda>s r. True), pq_exec = (\<lambda>s. True), pq_connect = (\<lambda>s. True), pq_prepare = (\<lambda>s. True), pq_spent = 0\<rparr>"

theorem pg_tracks_kernel_witness:
  "\<exists>K' fx D gx. kernel_thread [(plain_env, S_listener, [''STATE'', dec 90, ''s'', dec 2, ''disk full''])] (blank_kernel demo_server) =
      Inr (CONTINUE, K', fx) \<and>
    pg_dispatcher_loop (map (\<lambda>q. (plain_env, demo_pg, Pg_subscriber, q)) (told fx)) \<lparr>pd_seen = fmempty\<rparr> = (CONTINUE, D, gx) \<and>
    (\<exists>msg ts. find (\<lambda>r. r ! 0 = ''s'') (rev (staged (concat (map (inserter_queue plain_env demo_pg) (sent gx))))) =
      Some [''s'', ''CRITICAL'', msg, ts])"
proof -
  from demo_state_submission obtain K' s' where r: "kernel_thread [(plain_env, S_listener, [''STATE'', dec 90, ''s'', dec 2, ''disk full''])] (blank_kernel demo_server) =
      Inr (CONTINUE, K', [broadcast_transition s', broadcast_state s'])" and k: "fmlookup (states (k_db K')) ''s'' = Some s'"
    and s': "state_name s' = ''s''" "state_status s' = 2" by blast
  let ?fx = "[broadcast_transition s', broadcast_state s']"
  have n: "fmpred (\<lambda>k s. state_name s = k) (states (k_db (blank_kernel demo_server)))" by (auto simp: demo_db_def fmpred_iff)
  have q: "map (\<lambda>(E, P, q). q) (map (\<lambda>q. (plain_env, demo_pg, q)) (told ?fx)) = told ?fx" by (simp add: comp_def)
  have b: "\<exists>q \<in> set (told ?fx). \<exists>c. status_of q = Some (''s'', c)"
    by (simp add: broadcast_transition_def broadcast_state_def told_state s')
  have c: "statstr (state_status s') = ''CRITICAL''" by (simp add: s' statstr_def)
  from pg_tracks_kernel [OF n r q] k b c r show ?thesis by (fastforce simp: comp_def)
qed

end
